(* ===== verification/Prelude.thy ===== *)
theory Prelude
  imports Main "HOL-Library.Word" "HOL-Library.Monad_Syntax"
begin

unbundle bit_operations_syntax

text \<open>
  Shared vocabulary of the development.

  \<^item> Machine integers: \<open>std::uint8_t\<close>, \<open>std::byte\<close> and \<open>unsigned char\<close> are \<open>u8\<close>;
    \<open>std::uint16_t\<close>, \<open>std::uint32_t\<close> and \<open>std::uint64_t\<close> are \<open>u16\<close>, \<open>u32\<close> and
    \<open>u64\<close>, words of their width, so that \<open>+\<close> wraps around exactly as the C++ does.
    \<open>std::size_t\<close> values are \<open>nat\<close>; the one place where the sources guard against
    their overflow (\<open>CheckedAdd\<close>) writes the bound \<open>size_max\<close> out.
    \<open>std::int64_t\<close> process ids, \<open>std::chrono\<close> durations and \<open>steady_clock\<close> time points are
    \<open>int\<close> (nanoseconds): their overflow is undefined behaviour in C++ and no model
    relies on it.
  \<^item> \<open>std::string\<close> is \<open>string\<close>; on the wire a character is one byte.
  \<^item> The locale \<open>step_invariant\<close> is the interface every state machine of the
    development implements: what an invariant owes to the initial states and to the
    steps, and what it gives for the reachable states.
\<close>

named_theorems codec_simps
  \<open>lengths of encoded fields and the reads that invert them\<close>

named_theorems guard_simps
  \<open>characterisations of the validation routines\<close>

type_synonym u8 = "8 word"
type_synonym u16 = "16 word"
type_synonym u32 = "32 word"
type_synonym u64 = "64 word"
type_synonym bytes = "u8 list"
type_synonym time_point = int
type_synonym duration = int

definition size_max :: nat where
  "size_max = 2 ^ 64 - 1"

definition int64_max :: int where
  "int64_max = 2 ^ 63 - 1"

definition byte_of_char :: "char \<Rightarrow> u8" where
  "byte_of_char c = of_char c"

definition char_of_byte :: "u8 \<Rightarrow> char" where
  "char_of_byte b = char_of (unat b)"

definition bytes_of_string :: "string \<Rightarrow> bytes" where
  "bytes_of_string s = map byte_of_char s"

definition string_of_bytes :: "bytes \<Rightarrow> string" where
  "string_of_bytes bs = map char_of_byte bs"


subsection \<open>Characters and bytes\<close>

lemma unat_byte_of_char: "unat (byte_of_char c) = of_char c"
proof -
  have "byte_of_char c = of_nat (of_char c)"
    by (simp add: byte_of_char_def of_nat_of_char)
  then show ?thesis
    by (simp add: unat_of_nat)
qed

lemma char_of_byte_of_char [simp]: "char_of_byte (byte_of_char c) = c"
  by (simp add: char_of_byte_def unat_byte_of_char)

lemma byte_of_char_of_byte [simp]: "byte_of_char (char_of_byte b) = b"
proof -
  have "unat b < 256"
    using unsigned_less [of b, where ?'a = nat] by simp
  then have "unat (byte_of_char (char_of_byte b)) = unat b"
    by (simp add: unat_byte_of_char char_of_byte_def)
  then show ?thesis by (simp only: word_unat_eq_iff)
qed

lemma string_of_bytes_of_string [simp]: "string_of_bytes (bytes_of_string s) = s"
  by (simp add: string_of_bytes_def bytes_of_string_def comp_def)

lemma bytes_of_string_of_bytes [simp]: "bytes_of_string (string_of_bytes bs) = bs"
  by (simp add: string_of_bytes_def bytes_of_string_def comp_def)

lemma length_bytes_of_string [codec_simps, simp]:
  "length (bytes_of_string s) = length s"
  by (simp add: bytes_of_string_def)

lemma length_string_of_bytes [codec_simps, simp]:
  "length (string_of_bytes bs) = length bs"
  by (simp add: string_of_bytes_def)


lemma not_bit_u8: "8 \<le> n \<Longrightarrow> \<not> bit (b :: u8) n"
  using bit_imp_le_length [of b n] by auto


subsection \<open>Slices of lists and small numbers in words\<close>

lemma slice_step: "k + n = m \<Longrightarrow> take n (drop k xs) @ drop m xs = drop k xs"
  by (metis append_take_drop_id drop_drop add.commute)

lemma slice_outside:
  assumes "k + n \<le> length pre \<or> length pre + length xs \<le> k" "length xs = length ys"
  shows "take n (drop k (pre @ xs @ post)) = take n (drop k (pre @ ys @ post))"
  using assms by auto

lemma slice_take: "n + k \<le> m \<Longrightarrow> take n (drop k (take m xs)) = take n (drop k xs)"
  by (simp add: drop_take min_def)

lemma unat_of_nat_less:
  "n < 2 ^ LENGTH('a::len) \<Longrightarrow> unat (of_nat n :: 'a word) = n"
  by (simp add: unat_of_nat)

lemma of_nat_word_inj:
  "(of_nat m :: 'a::len word) = of_nat n \<Longrightarrow> m < 2 ^ LENGTH('a) \<Longrightarrow> n < 2 ^ LENGTH('a) \<Longrightarrow> m = n"
  by (metis unat_of_nat_less)


subsection \<open>State machines and their invariants\<close>

text \<open>Decimal output of integers, as \<open>std::to_string\<close> and the stream operators print them.\<close>

definition digit_char :: "nat \<Rightarrow> char" where
  "digit_char d = char_of (48 + d)"

fun decimal_nat :: "nat \<Rightarrow> string" where
  "decimal_nat n = (if n < 10 then [digit_char n] else decimal_nat (n div 10) @ [digit_char (n mod 10)])"

declare decimal_nat.simps [simp del]

definition decimal :: "int \<Rightarrow> string" where
  "decimal i = (if i < 0 then CHR ''-'' # decimal_nat (nat (- i)) else decimal_nat (nat i))"

locale step_invariant =
  fixes init :: "'s \<Rightarrow> bool"
    and step :: "'s \<Rightarrow> 's \<Rightarrow> bool"
    and inv :: "'s \<Rightarrow> bool"
  assumes init_inv: "init s \<Longrightarrow> inv s"
    and step_inv: "step s t \<Longrightarrow> inv s \<Longrightarrow> inv t"
begin

lemma run_inv: "step\<^sup>*\<^sup>* s t \<Longrightarrow> inv s \<Longrightarrow> inv t"
  by (induction rule: rtranclp_induct) (auto intro: step_inv)

lemma reachable_inv: "init s \<Longrightarrow> step\<^sup>*\<^sup>* s t \<Longrightarrow> inv t"
  by (auto intro: run_inv init_inv)

end

end
