(* ===== verification/Runtime_Core.thy ===== *)
theory Runtime_Core
  imports Prelude
begin

text \<open>
  The vocabulary every component shares: \<open>runtime/include/autoruntime/status.hpp\<close>
  (status codes, statuses, results), \<open>deadline.hpp\<close> (absolute deadlines on the steady
  clock) and \<open>message.hpp\<close> (envelopes, messages, trace contexts).

  A \<open>Result<T>\<close> is a sum: \<open>Inl\<close> carries the non-OK status, \<open>Inr\<close> the value. Reading
  the clock is an effect: an operation that calls \<open>Clock::now()\<close> takes each reading as an
  argument, in the order of the calls.
\<close>

subsection \<open>Status codes and results\<close>

datatype StatusCode =
    Ok
  | InvalidArgument
  | AlreadyExists
  | NotFound
  | Closed
  | Timeout
  | QueueFull
  | Dropped
  | Cancelled
  | StaleGeneration
  | TransportError
  | Unsupported
  | Internal

record Status =
  code :: StatusCode
  detail :: string

type_synonym 'a Result = "Status + 'a"

definition mk_status :: "StatusCode \<Rightarrow> string \<Rightarrow> Status" where
  "mk_status c d = \<lparr>code = c, detail = d\<rparr>"

definition OkStatus :: Status where
  "OkStatus = mk_status Ok ''''"

definition ok :: "Status \<Rightarrow> bool" where
  "ok s \<longleftrightarrow> code s = Ok"

text \<open>The constructor of an error \<open>Result\<close>: \<open>None\<close> is the \<open>std::invalid_argument\<close> it
  throws when it is given an OK status.\<close>

definition error_result :: "Status \<Rightarrow> 'a Result option" where
  "error_result s = (if ok s then None else Some (Inl s))"

definition result_ok :: "'a Result \<Rightarrow> bool" where
  "result_ok r = (case r of Inl _ \<Rightarrow> False | Inr _ \<Rightarrow> True)"

text \<open>The numeric value \<open>static_cast<std::uint16_t>\<close> gives a code, and the cast back of a
  value that \<open>ValidStatusCode\<close> admitted.\<close>

fun status_code_raw :: "StatusCode \<Rightarrow> u16" where
  "status_code_raw Ok = 0"
| "status_code_raw InvalidArgument = 1"
| "status_code_raw AlreadyExists = 2"
| "status_code_raw NotFound = 3"
| "status_code_raw Closed = 4"
| "status_code_raw Timeout = 5"
| "status_code_raw QueueFull = 6"
| "status_code_raw Dropped = 7"
| "status_code_raw Cancelled = 8"
| "status_code_raw StaleGeneration = 9"
| "status_code_raw TransportError = 10"
| "status_code_raw Unsupported = 11"
| "status_code_raw Internal = 12"

definition all_status_codes :: "StatusCode list" where
  "all_status_codes =
     [Ok, InvalidArgument, AlreadyExists, NotFound, Closed, Timeout, QueueFull, Dropped,
      Cancelled, StaleGeneration, TransportError, Unsupported, Internal]"

definition status_code_of_raw :: "u16 \<Rightarrow> StatusCode" where
  "status_code_of_raw w =
     (if unat w < length all_status_codes then all_status_codes ! unat w else Internal)"

lemma ok_mk_status [simp]: "ok (mk_status c d) \<longleftrightarrow> c = Ok"
  by (simp add: ok_def mk_status_def)

lemma code_mk_status [simp]: "code (mk_status c d) = c"
  by (simp add: mk_status_def)

lemma detail_mk_status [simp]: "detail (mk_status c d) = d"
  by (simp add: mk_status_def)

lemma mk_status_inject [simp]: "mk_status c d = mk_status c' d' \<longleftrightarrow> c = c' \<and> d = d'"
  by (simp add: mk_status_def)

lemma ok_OkStatus [simp]: "ok OkStatus"
  by (simp add: OkStatus_def)

lemma code_OkStatus [simp]: "code OkStatus = Ok"
  by (simp add: OkStatus_def)

lemma mk_status_neq_Ok [simp]: "c \<noteq> Ok \<Longrightarrow> mk_status c d \<noteq> OkStatus"
  by (simp add: OkStatus_def)

lemma status_code_of_raw_raw [simp]: "status_code_of_raw (status_code_raw c) = c"
  by (cases c) (simp_all add: status_code_of_raw_def all_status_codes_def)

lemma status_code_raw_le: "status_code_raw c \<le> status_code_raw Internal"
  by (cases c) simp_all


subsection \<open>Deadlines\<close>

record Deadline =
  is_infinite :: bool
  time_point :: time_point

definition time_point_max :: time_point where
  "time_point_max = int64_max"

definition Infinite :: Deadline where
  "Infinite = \<lparr>is_infinite = True, time_point = time_point_max\<rparr>"

definition Immediate :: "time_point \<Rightarrow> Deadline" where
  "Immediate now = \<lparr>is_infinite = False, time_point = now\<rparr>"

definition At :: "time_point \<Rightarrow> Deadline" where
  "At p = \<lparr>is_infinite = False, time_point = p\<rparr>"

definition After :: "time_point \<Rightarrow> duration \<Rightarrow> Deadline" where
  "After now converted =
     (if converted \<le> 0 then At now
      else if time_point_max - now < converted then Infinite
      else At (now + converted))"

definition expired :: "time_point \<Rightarrow> Deadline \<Rightarrow> bool" where
  "expired now d \<longleftrightarrow> \<not> is_infinite d \<and> time_point d \<le> now"

lemma expired_Infinite [simp]: "\<not> expired now Infinite"
  by (simp add: expired_def Infinite_def)

lemma expired_At [simp]: "expired now (At p) \<longleftrightarrow> p \<le> now"
  by (simp add: expired_def At_def)

text \<open>\<open>Deadline::After\<close> never produces a time point past the representable range, and a
  deadline that lies in the future is not expired before its duration has passed.\<close>

lemma After_in_range:
  "now \<le> time_point_max \<Longrightarrow> time_point (After now d) \<le> time_point_max"
  by (auto simp: After_def At_def Infinite_def)

lemma expired_After:
  "expired t (After now d) \<longleftrightarrow>
     (if d \<le> 0 then now \<le> t else now + d \<le> time_point_max \<and> now + d \<le> t)"
  by (auto simp: After_def)


subsection \<open>Messages\<close>

record TraceContext =
  ctx_trace_id :: u64
  ctx_parent_span_id :: u64
  ctx_origin_timestamp_ns :: u64

record MessageEnvelope =
  version :: u16
  trace_id :: u64
  span_id :: u64
  parent_span_id :: u64
  sequence :: u64
  source_timestamp_ns :: u64
  publish_timestamp_ns :: u64
  source_generation :: u64
  priority :: "32 word"

record Message =
  envelope :: MessageEnvelope
  payload :: bytes

definition kMessageEnvelopeVersion :: u16 where
  "kMessageEnvelopeVersion = 1"

definition ContinueTrace :: "Message \<Rightarrow> TraceContext" where
  "ContinueTrace m =
     \<lparr>ctx_trace_id = trace_id (envelope m),
      ctx_parent_span_id = span_id (envelope m),
      ctx_origin_timestamp_ns = source_timestamp_ns (envelope m)\<rparr>"

text \<open>A concrete message for the examples.\<close>

definition demo_message :: Message where
  "demo_message =
     \<lparr>envelope = \<lparr>version = 1, trace_id = 7, span_id = 8, parent_span_id = 0, sequence = 1,
        source_timestamp_ns = 100, publish_timestamp_ns = 120, source_generation = 3, priority = 0\<rparr>,
      payload = [1, 2, 3]\<rparr>"

end
