(* ===== verification/Byte_Codec.thy ===== *)
theory Byte_Codec
  imports Prelude
begin

text \<open>
  Fixed-width integers on the wire. \<open>record_replay.cpp\<close> writes little-endian fields with
  \<open>AppendU16/32/64\<close> and reads them at an advancing offset with \<open>ReadU16/32/64\<close>;
  \<open>discovery.cpp\<close> and \<open>rpc.cpp\<close> store and load big-endian fields with \<open>StoreU16/32/64\<close> and
  \<open>LoadU16/32/64\<close>.

  The locale \<open>field_codec\<close> is the contract a writer and its reader have together; the
  facts about reading a field out of a larger buffer are proved once inside it and reach
  every width through its interpretations.
\<close>

subsection \<open>Little-endian fields (\<open>record_replay.cpp\<close>)\<close>

definition AppendU16 :: "bytes \<Rightarrow> u16 \<Rightarrow> bytes" where
  "AppendU16 output value =
     output @ map (\<lambda>shift. ucast (drop_bit shift (ucast value :: u32) AND 0xff)) [0, 8]"

definition AppendU32 :: "bytes \<Rightarrow> u32 \<Rightarrow> bytes" where
  "AppendU32 output value =
     output @ map (\<lambda>shift. ucast (drop_bit shift value AND 0xff)) [0, 8, 16, 24]"

definition AppendU64 :: "bytes \<Rightarrow> u64 \<Rightarrow> bytes" where
  "AppendU64 output value =
     output @ map (\<lambda>shift. ucast (drop_bit shift value AND 0xff))
       [0, 8, 16, 24, 32, 40, 48, 56]"

definition AppendString :: "bytes \<Rightarrow> string \<Rightarrow> bytes" where
  "AppendString output value = output @ bytes_of_string value"

text \<open>The read loop: \<open>value |= byte << (index * 8)\<close>.\<close>

definition gather_le :: "nat \<Rightarrow> bytes \<Rightarrow> nat \<Rightarrow> 'a::len word" where
  "gather_le width input offset =
     fold (\<lambda>index value. value OR push_bit (index * 8) (ucast (input ! (offset + index))))
       [0..<width] 0"

definition ReadU16 :: "bytes \<Rightarrow> nat \<Rightarrow> (u16 \<times> nat) option" where
  "ReadU16 input offset =
     (if length input - min (length input) offset < 2 then None
      else Some (gather_le 2 input offset, offset + 2))"

definition ReadU32 :: "bytes \<Rightarrow> nat \<Rightarrow> (u32 \<times> nat) option" where
  "ReadU32 input offset =
     (if length input - min (length input) offset < 4 then None
      else Some (gather_le 4 input offset, offset + 4))"

definition ReadU64 :: "bytes \<Rightarrow> nat \<Rightarrow> (u64 \<times> nat) option" where
  "ReadU64 input offset =
     (if length input - min (length input) offset < 8 then None
      else Some (gather_le 8 input offset, offset + 8))"


subsection \<open>Big-endian fields (\<open>discovery.cpp\<close>, \<open>rpc.cpp\<close>)\<close>

text \<open>A store writes into the bytes of a packet starting at an offset.\<close>

definition write_at :: "bytes \<Rightarrow> nat \<Rightarrow> bytes \<Rightarrow> bytes" where
  "write_at packet offset field =
     take offset packet @ field @ drop (offset + length field) packet"

definition be16 :: "u16 \<Rightarrow> bytes" where
  "be16 value = [ucast (drop_bit 8 value AND 0xff), ucast (value AND 0xff)]"

definition be32 :: "u32 \<Rightarrow> bytes" where
  "be32 value =
     map (\<lambda>index. ucast (drop_bit ((3 - index) * 8) value AND 0xff)) [0..<4]"

definition be64 :: "u64 \<Rightarrow> bytes" where
  "be64 value =
     map (\<lambda>index. ucast (drop_bit ((7 - index) * 8) value AND 0xff)) [0..<8]"

definition StoreU16 :: "bytes \<Rightarrow> nat \<Rightarrow> u16 \<Rightarrow> bytes" where
  "StoreU16 packet offset value = write_at packet offset (be16 value)"

definition StoreU32 :: "bytes \<Rightarrow> nat \<Rightarrow> u32 \<Rightarrow> bytes" where
  "StoreU32 packet offset value = write_at packet offset (be32 value)"

definition StoreU64 :: "bytes \<Rightarrow> nat \<Rightarrow> u64 \<Rightarrow> bytes" where
  "StoreU64 packet offset value = write_at packet offset (be64 value)"

definition gather_be :: "bytes \<Rightarrow> 'a::len word" where
  "gather_be source = fold (\<lambda>b value. push_bit 8 value OR ucast b) source 0"

definition LoadU16 :: "bytes \<Rightarrow> nat \<Rightarrow> u16" where
  "LoadU16 source offset =
     push_bit 8 (ucast (source ! offset)) OR ucast (source ! (offset + 1))"

definition LoadU32 :: "bytes \<Rightarrow> nat \<Rightarrow> u32" where
  "LoadU32 source offset = gather_be (map (\<lambda>index. source ! (offset + index)) [0..<4])"

definition LoadU64 :: "bytes \<Rightarrow> nat \<Rightarrow> u64" where
  "LoadU64 source offset = gather_be (map (\<lambda>index. source ! (offset + index)) [0..<8])"


subsection \<open>Bits of gathered words\<close>

lemma bit_gather_le:
  fixes input :: bytes
  shows "bit (gather_le width input offset :: 'a::len word) k \<longleftrightarrow>
     k < LENGTH('a) \<and> k div 8 < width \<and> bit (input ! (offset + k div 8)) (k mod 8)"
proof (induction width)
  case 0
  show ?case by (simp add: gather_le_def)
next
  case (Suc width)
  have step: "(gather_le (Suc width) input offset :: 'a word) =
      gather_le width input offset OR push_bit (width * 8) (ucast (input ! (offset + width)))"
    by (simp add: gather_le_def)
  have new: "bit (push_bit (width * 8) (ucast (input ! (offset + width))) :: 'a word) k \<longleftrightarrow>
      k < LENGTH('a) \<and> k div 8 = width \<and> bit (input ! (offset + k div 8)) (k mod 8)"
  proof (cases "k div 8 = width")
    case True
    then have "width * 8 \<le> k" and "k - width * 8 = k mod 8"
      by (simp_all add: modulo_nat_def mult.commute)
    moreover have "k mod 8 < LENGTH('a)" if "k < LENGTH('a)"
      using that by (rule le_less_trans [OF mod_less_eq_dividend])
    ultimately show ?thesis
      using True by (auto simp: bit_push_bit_iff bit_ucast_iff)
  next
    case False
    then have "\<not> (width * 8 \<le> k \<and> k < width * 8 + 8)"
      using div_nat_eqI [of 8 width k] by (auto simp: mult.commute)
    then have "k < width * 8 \<or> 8 \<le> k - width * 8"
      by linarith
    then have "\<not> bit (push_bit (width * 8) (ucast (input ! (offset + width))) :: 'a word) k"
      by (auto simp: bit_push_bit_iff bit_ucast_iff not_bit_u8)
    with False show ?thesis by simp
  qed
  show ?case
    using Suc.IH by (auto simp: step bit_or_iff new less_Suc_eq)
qed

lemma bit_gather_be:
  "bit (gather_be source :: 'a::len word) k \<longleftrightarrow>
     k < LENGTH('a) \<and> k div 8 < length source \<and>
     bit (source ! (length source - 1 - k div 8)) (k mod 8)"
proof (induction source arbitrary: k rule: rev_induct)
  case Nil
  show ?case by (simp add: gather_be_def)
next
  case (snoc b source)
  have step: "(gather_be (source @ [b]) :: 'a word) = push_bit 8 (gather_be source) OR ucast b"
    by (simp add: gather_be_def)
  show ?case
  proof (cases "k < 8")
    case True
    then show ?thesis
      by (auto simp: step bit_or_iff bit_push_bit_iff bit_ucast_iff nth_append)
  next
    case False
    define j where "j = k - 8"
    then have k: "k = j + 8" using False by simp
    have hi: "\<not> bit b (j + 8)"
      by (simp add: not_bit_u8)
    have nth: "(source @ [b]) ! (length source - Suc (j div 8)) =
        source ! (length source - Suc (j div 8))" if "j div 8 < length source"
    proof -
      from that have "length source - Suc (j div 8) < length source" by arith
      then show ?thesis by (simp add: nth_append)
    qed
    have "bit (gather_be (source @ [b]) :: 'a word) (j + 8) \<longleftrightarrow>
        j + 8 < LENGTH('a) \<and> bit (gather_be source :: 'a word) j"
      using hi by (simp add: step bit_or_iff bit_push_bit_iff bit_ucast_iff)
    also have "\<dots> \<longleftrightarrow> j + 8 < LENGTH('a) \<and> j div 8 < length source \<and>
        bit (source ! (length source - Suc (j div 8))) (j mod 8)"
      by (simp add: snoc.IH) linarith
    finally show ?thesis
      using nth by (auto simp: k div_add_self2)
  qed
qed


lemma bit_low_byte:
  "bit (ucast (drop_bit shift (w :: 'a::len word) AND 0xff) :: u8) j \<longleftrightarrow> j < 8 \<and> bit w (shift + j)"
proof -
  have mask: "(0xff :: 'a word) = mask 8"
    by (simp add: mask_eq_exp_minus_1)
  show ?thesis
    unfolding mask
    by (auto simp: bit_ucast_iff bit_and_iff bit_mask_iff bit_drop_bit_eq dest: bit_imp_le_length)
qed

text \<open>The bytes of a word, least significant first, determine it and are determined by it.\<close>

definition le_bytes :: "nat \<Rightarrow> 'a::len word \<Rightarrow> bytes" where
  "le_bytes n w = map (\<lambda>i. ucast (drop_bit (i * 8) w AND 0xff)) [0..<n]"

lemma length_le_bytes [simp]: "length (le_bytes n w) = n"
  by (simp add: le_bytes_def)

lemma gather_le_cong:
  assumes "\<And>i. i < n \<Longrightarrow> input ! (offset + i) = input' ! (offset' + i)"
  shows "(gather_le n input offset :: 'a::len word) = gather_le n input' offset'"
  by (rule bit_word_eqI) (auto simp: bit_gather_le assms)

lemma gather_le_le_bytes:
  assumes "LENGTH('a::len) = 8 * n"
    and "\<And>i. i < n \<Longrightarrow> input ! (offset + i) = le_bytes n (w :: 'a word) ! i"
  shows "gather_le n input offset = w"
proof (rule bit_word_eqI)
  fix k assume "k < LENGTH('a)"
  then have k: "k div 8 < n" using assms(1) by auto
  then have "input ! (offset + k div 8) = ucast (drop_bit (k div 8 * 8) w AND 0xff)"
    by (simp add: assms(2) le_bytes_def)
  with \<open>k < LENGTH('a)\<close> k show "bit (gather_le n input offset :: 'a word) k = bit w k"
    by (simp add: bit_gather_le bit_low_byte)
qed

lemma le_bytes_gather_le:
  assumes "LENGTH('a::len) = 8 * n" and "offset + n \<le> length input"
  shows "le_bytes n (gather_le n input offset :: 'a word) = take n (drop offset input)"
proof (rule nth_equalityI)
  show "length (le_bytes n (gather_le n input offset :: 'a word)) =
      length (take n (drop offset input))"
    using assms(2) by simp
next
  fix i assume "i < length (le_bytes n (gather_le n input offset :: 'a word))"
  then have i: "i < n" by simp
  have "le_bytes n (gather_le n input offset :: 'a word) ! i = input ! (offset + i)"
  proof (rule bit_word_eqI)
    fix j assume "j < LENGTH(8)"
    then have j: "j < 8" by simp
    then have "(i * 8 + j) div 8 = i" and "(i * 8 + j) mod 8 = j" and "i * 8 + j < 8 * n"
      using i by simp_all
    with i j assms(1)
    show "bit (le_bytes n (gather_le n input offset :: 'a word) ! i) j = bit (input ! (offset + i)) j"
      by (simp add: le_bytes_def bit_low_byte bit_gather_le)
  qed
  with i assms(2)
  show "le_bytes n (gather_le n input offset :: 'a word) ! i = take n (drop offset input) ! i"
    by simp
qed


subsection \<open>The contract of a writer and its reader\<close>

locale field_codec =
  fixes app :: "bytes \<Rightarrow> 'w \<Rightarrow> bytes"
    and rd :: "bytes \<Rightarrow> nat \<Rightarrow> ('w \<times> nat) option"
    and width :: nat
  assumes app_append: "app out w = out @ app [] w"
    and app_length: "length (app [] w) = width"
    and rd_short: "length input < offset + width \<Longrightarrow> rd input offset = None"
    and rd_field: "offset + width \<le> length input \<Longrightarrow>
          \<exists>v. rd input offset = Some (v, offset + width) \<and> app [] v = take width (drop offset input)"
    and app_inj: "app [] v = app [] w \<Longrightarrow> v = w"
begin

lemma length_app: "length (app out w) = length out + width"
  by (subst app_append) (simp add: app_length)

lemma rd_Some_iff:
  "rd input offset = Some (v, next) \<longleftrightarrow>
     offset + width \<le> length input \<and> next = offset + width \<and>
     app [] v = take width (drop offset input)"
proof (cases "offset + width \<le> length input")
  case True
  then obtain u where "rd input offset = Some (u, offset + width)"
    and "app [] u = take width (drop offset input)"
    using rd_field by blast
  with True show ?thesis
    by (auto intro!: app_inj)
next
  case False
  then show ?thesis by (simp add: rd_short)
qed

lemma rd_here: "rd (app [] w @ rest) 0 = Some (w, width)"
  by (simp add: rd_Some_iff app_length)

lemma rd_only: "rd (app [] w) 0 = Some (w, width)"
  using rd_here [of w "[]"] by simp

lemma rd_shift:
  assumes "length pre \<le> offset"
  shows "rd (pre @ rest) offset =
    map_option (\<lambda>(v, n). (v, n + length pre)) (rd rest (offset - length pre))"
proof (cases "offset + width \<le> length pre + length rest")
  case True
  with assms have "(offset - length pre) + width \<le> length rest" by simp
  then obtain v where v: "rd rest (offset - length pre) = Some (v, offset - length pre + width)"
    "app [] v = take width (drop (offset - length pre) rest)"
    using rd_field by blast
  with True assms have "rd (pre @ rest) offset = Some (v, offset + width)"
    by (simp add: rd_Some_iff)
  with v assms show ?thesis by simp
next
  case False
  with assms show ?thesis by (simp add: rd_short)
qed

text \<open>A read sees the bytes of its own field only.\<close>

lemma rd_cong:
  assumes "length input = length input'"
    and "take width (drop offset input) = take width (drop offset input')"
  shows "rd input offset = rd input' offset"
proof (cases "offset + width \<le> length input")
  case True
  then obtain v where "rd input offset = Some (v, offset + width)"
    and "app [] v = take width (drop offset input)"
    using rd_field by blast
  with assms True show ?thesis by (simp add: rd_Some_iff [THEN iffD2])
next
  case False
  with assms(1) show ?thesis by (simp add: rd_short)
qed

end

lemma short_iff: "0 < n \<Longrightarrow> length xs - min (length xs) k < n \<longleftrightarrow> length xs < k + (n :: nat)"
  by (cases "k \<le> length xs") auto

lemma AppendU16_le: "AppendU16 out w = out @ le_bytes 2 w"
proof -
  have "ucast (drop_bit s (ucast w :: u32) AND 0xff) = (ucast (drop_bit s w AND 0xff) :: u8)" for s
  proof (rule bit_word_eqI)
    fix j :: nat
    have "bit (ucast w :: u32) k = bit w k" for k
      by (auto simp: bit_ucast_iff dest: bit_imp_le_length)
    then show "bit (ucast (drop_bit s (ucast w :: u32) AND 0xff) :: u8) j =
        bit (ucast (drop_bit s w AND 0xff) :: u8) j"
      by (simp only: bit_low_byte)
  qed
  then show ?thesis
    by (simp add: AppendU16_def le_bytes_def upt_rec)
qed

lemma AppendU32_le: "AppendU32 out w = out @ le_bytes 4 w"
  by (simp add: AppendU32_def le_bytes_def upt_rec)

lemma AppendU64_le: "AppendU64 out w = out @ le_bytes 8 w"
  by (simp add: AppendU64_def le_bytes_def upt_rec)

lemma le_bytes_inj:
  assumes "LENGTH('a::len) = 8 * n" and "le_bytes n (v :: 'a word) = le_bytes n w"
  shows "v = w"
proof -
  have "gather_le n (le_bytes n v) 0 = v"
    by (rule gather_le_le_bytes) (simp_all add: assms(1))
  moreover have "gather_le n (le_bytes n v) 0 = w"
    by (rule gather_le_le_bytes) (simp_all add: assms)
  ultimately show ?thesis by simp
qed

interpretation u16le: field_codec AppendU16 ReadU16 2
  by unfold_locales
    (auto simp: AppendU16_le ReadU16_def short_iff le_bytes_gather_le dest: le_bytes_inj [rotated])

interpretation u32le: field_codec AppendU32 ReadU32 4
  by unfold_locales
    (auto simp: AppendU32_le ReadU32_def short_iff le_bytes_gather_le dest: le_bytes_inj [rotated])

interpretation u64le: field_codec AppendU64 ReadU64 8
  by unfold_locales
    (auto simp: AppendU64_le ReadU64_def short_iff le_bytes_gather_le dest: le_bytes_inj [rotated])

lemmas field_lengths [codec_simps] =
  u16le.length_app u32le.length_app u64le.length_app

lemmas field_reads [codec_simps] =
  u16le.rd_here u32le.rd_here u64le.rd_here
  u16le.rd_only u32le.rd_only u64le.rd_only
  u16le.rd_shift u32le.rd_shift u64le.rd_shift


subsection \<open>Fields stored into and loaded from a packet\<close>

locale slot_codec =
  fixes store :: "bytes \<Rightarrow> nat \<Rightarrow> 'w \<Rightarrow> bytes"
    and load :: "bytes \<Rightarrow> nat \<Rightarrow> 'w"
    and enc :: "'w \<Rightarrow> bytes"
    and width :: nat
  assumes store_write: "store packet offset w = write_at packet offset (enc w)"
    and enc_length: "length (enc w) = width"
    and load_enc: "length pre = offset \<Longrightarrow> load (pre @ enc w @ post) offset = w"
    and enc_load: "offset + width \<le> length packet \<Longrightarrow>
          enc (load packet offset) = take width (drop offset packet)"
begin

lemma length_store:
  "offset + width \<le> length packet \<Longrightarrow> length (store packet offset w) = length packet"
  by (simp add: store_write write_at_def enc_length)

lemma store_split:
  "length old = width \<Longrightarrow> store (pre @ old @ post) (length pre) w = pre @ enc w @ post"
  by (simp add: store_write write_at_def enc_length)

lemma load_here: "load (enc w @ post) 0 = w"
  using load_enc [of "[]" 0 w post] by simp

lemma load_store:
  "offset + width \<le> length packet \<Longrightarrow> load (store packet offset w) offset = w"
  by (simp add: store_write write_at_def load_enc)

lemma load_shift:
  assumes "length pre \<le> offset" and "offset + width \<le> length pre + length rest"
  shows "load (pre @ rest) offset = load rest (offset - length pre)"
proof -
  let ?v = "load rest (offset - length pre)"
  have enc: "enc ?v = take width (drop (offset - length pre) rest)"
    using assms by (intro enc_load) simp
  have "rest = take (offset - length pre) rest @ enc ?v @ drop (offset - length pre + width) rest"
    by (simp add: enc add.commute flip: drop_drop)
  then have "pre @ rest =
      (pre @ take (offset - length pre) rest) @ enc ?v @ drop (offset - length pre + width) rest"
    by simp
  moreover have "length (pre @ take (offset - length pre) rest) = offset"
    using assms by simp
  ultimately show ?thesis
    using load_enc by metis
qed

end

text \<open>The bytes of a word, most significant first.\<close>

definition be_bytes :: "nat \<Rightarrow> 'a::len word \<Rightarrow> bytes" where
  "be_bytes n w = map (\<lambda>i. ucast (drop_bit ((n - 1 - i) * 8) w AND 0xff)) [0..<n]"

lemma length_be_bytes [simp]: "length (be_bytes n w) = n"
  by (simp add: be_bytes_def)

lemma gather_be_be_bytes:
  assumes "LENGTH('a::len) = 8 * n"
  shows "gather_be (be_bytes n w) = (w :: 'a word)"
proof (rule bit_word_eqI)
  fix k assume k: "k < LENGTH('a)"
  then have "k div 8 < n" using assms by auto
  then have "be_bytes n w ! (n - 1 - k div 8) = ucast (drop_bit (k div 8 * 8) w AND 0xff)"
    by (simp add: be_bytes_def)
  with k \<open>k div 8 < n\<close> show "bit (gather_be (be_bytes n w) :: 'a word) k = bit w k"
    by (simp add: bit_gather_be bit_low_byte)
qed

lemma be_bytes_gather_be:
  assumes "LENGTH('a::len) = 8 * length bs"
  shows "be_bytes (length bs) (gather_be bs :: 'a word) = bs"
proof (rule nth_equalityI)
  show "length (be_bytes (length bs) (gather_be bs :: 'a word)) = length bs" by simp
next
  fix i assume "i < length (be_bytes (length bs) (gather_be bs :: 'a word))"
  then have i: "i < length bs" by simp
  let ?m = "length bs - 1 - i"
  show "be_bytes (length bs) (gather_be bs :: 'a word) ! i = bs ! i"
  proof (rule bit_word_eqI)
    fix j assume "j < LENGTH(8)"
    then have j: "j < 8" by simp
    then have d: "(?m * 8 + j) div 8 = ?m" "(?m * 8 + j) mod 8 = j" by simp_all
    moreover have "?m < length bs" using i by arith
    moreover have "?m * 8 + j < 8 * length bs" using i j by linarith
    moreover have "length bs - 1 - ?m = i" using i by simp
    ultimately show "bit (be_bytes (length bs) (gather_be bs :: 'a word) ! i) j = bit (bs ! i) j"
      using i j assms by (simp add: be_bytes_def bit_low_byte bit_gather_be)
  qed
qed

lemma be_bytes_window:
  assumes "LENGTH('a::len) = 8 * n" and "offset + n \<le> length packet"
  shows "be_bytes n (gather_be (take n (drop offset packet)) :: 'a word) = take n (drop offset packet)"
  using be_bytes_gather_be [where 'a = 'a, of "take n (drop offset packet)"] assms by simp

lemma nth_window:
  "offset + n \<le> length xs \<Longrightarrow> map (\<lambda>i. xs ! (offset + i)) [0..<n] = take n (drop offset xs)"
  by (rule nth_equalityI) auto

lemma be16_be: "be16 w = be_bytes 2 w"
  by (simp add: be16_def be_bytes_def upt_rec)

lemma be32_be: "be32 w = be_bytes 4 w"
  by (simp add: be32_def be_bytes_def)

lemma be64_be: "be64 w = be_bytes 8 w"
  by (simp add: be64_def be_bytes_def)

lemma LoadU16_gather:
  "LoadU16 source offset = gather_be (map (\<lambda>i. source ! (offset + i)) [0..<2])"
  by (simp add: LoadU16_def gather_be_def upt_rec)

lemma window_enc:
  assumes "length pre = offset" and "length field = n"
  shows "map (\<lambda>i. (pre @ field @ post) ! (offset + i)) [0..<n] = field"
  using assms by (subst nth_window) auto

interpretation u16be: slot_codec StoreU16 LoadU16 be16 2
  by unfold_locales
    (simp_all add: StoreU16_def be16_be LoadU16_gather window_enc gather_be_be_bytes
      nth_window be_bytes_window)

interpretation u32be: slot_codec StoreU32 LoadU32 be32 4
  by unfold_locales
    (simp_all add: StoreU32_def be32_be LoadU32_def window_enc gather_be_be_bytes
      nth_window be_bytes_window)

interpretation u64be: slot_codec StoreU64 LoadU64 be64 8
  by unfold_locales
    (simp_all add: StoreU64_def be64_be LoadU64_def window_enc gather_be_be_bytes
      nth_window be_bytes_window)

lemmas slot_lengths [codec_simps] =
  u16be.enc_length u32be.enc_length u64be.enc_length
  u16be.length_store u32be.length_store u64be.length_store

lemmas slot_loads [codec_simps] =
  u16be.load_here u32be.load_here u64be.load_here
  u16be.load_shift u32be.load_shift u64be.load_shift

end
