(* ===== verification/Crc32.thy ===== *)
theory Crc32
  imports Byte_Codec
begin

text \<open>
  The checksum of \<open>record_replay.cpp\<close>: the reflected CRC-32 (polynomial
  \<open>0xedb88320\<close>), one bit at a time. The lemmas show that the bit step is linear and
  injective, hence that the checksum of a buffer changes whenever any four consecutive
  bytes of it are replaced by different ones, whatever follows them.
\<close>

subsection \<open>The checksum\<close>

definition crc_bit :: "u32 \<Rightarrow> u32" where
  "crc_bit crc = drop_bit 1 crc XOR (0xedb88320 AND (0 - (crc AND 1)))"

definition crc_byte :: "u8 \<Rightarrow> u32 \<Rightarrow> u32" where
  "crc_byte value crc = (crc_bit ^^ 8) (crc XOR ucast value)"

definition crc_update :: "bytes \<Rightarrow> u32 \<Rightarrow> u32" where
  "crc_update input crc = fold crc_byte input crc"

definition Crc32 :: "bytes \<Rightarrow> u32" where
  "Crc32 input = NOT (crc_update input 0xffffffff)"


subsection \<open>The bit step\<close>

lemma crc_bit_cases:
  "crc_bit crc = (if odd crc then drop_bit 1 crc XOR 0xedb88320 else drop_bit 1 crc)"
proof (cases "odd crc")
  case True
  then have "crc AND 1 = 1"
    by (simp add: and_one_eq odd_iff_mod_2_eq_one)
  with True show ?thesis by (simp add: crc_bit_def)
next
  case False
  then have "crc AND 1 = 0"
    by (simp add: and_one_eq even_iff_mod_2_eq_zero)
  with False show ?thesis by (simp add: crc_bit_def)
qed

lemma bit_crc_bit:
  "bit (crc_bit crc) n \<longleftrightarrow> bit crc (Suc n) \<noteq> (bit crc 0 \<and> bit (0xedb88320 :: u32) n)"
  by (simp add: crc_bit_cases bit_xor_iff bit_drop_bit_eq bit_0)

lemma crc_bit_xor: "crc_bit (a XOR b) = crc_bit a XOR crc_bit b"
  by (rule bit_word_eqI) (auto simp: bit_crc_bit bit_xor_iff)

text \<open>Bit 31 of the polynomial is set, so the top bit of the result tells which branch the
  step took, and the rest of the word can be recovered.\<close>

lemma crc_bit_zero_iff: "crc_bit crc = 0 \<longleftrightarrow> crc = 0"
proof
  assume zero: "crc_bit crc = 0"
  have top: "bit (0xedb88320 :: u32) 31" by simp
  have "\<not> bit crc (Suc 31)"
    using bit_imp_le_length [of crc "Suc 31"] by auto
  moreover have "\<not> bit (crc_bit crc) 31" by (simp add: zero)
  ultimately have low: "\<not> bit crc 0" using top by (simp add: bit_crc_bit)
  show "crc = 0"
  proof (rule bit_word_eqI)
    fix n
    have "\<not> bit (crc_bit crc) m" for m by (simp add: zero)
    with low have "\<not> bit crc n"
      by (cases n) (auto simp: bit_crc_bit)
    then show "bit crc n = bit 0 n" by simp
  qed
next
  assume "crc = 0"
  then show "crc_bit crc = 0" by (simp add: crc_bit_cases)
qed

lemma xor_eq_0_word: "a XOR b = 0 \<longleftrightarrow> a = (b :: 'a::len word)"
proof
  assume "a XOR b = 0"
  then have "bit (a XOR b) n = bit (0 :: 'a word) n" for n by simp
  then show "a = b" by (intro bit_word_eqI) (simp add: bit_xor_iff)
qed simp

lemma crc_bits_xor: "(crc_bit ^^ n) (a XOR b) = (crc_bit ^^ n) a XOR (crc_bit ^^ n) b"
  by (induction n) (simp_all add: crc_bit_xor)

lemma crc_bits_zero_iff: "(crc_bit ^^ n) crc = 0 \<longleftrightarrow> crc = 0"
  by (induction n) (simp_all add: crc_bit_zero_iff)

lemma crc_bits_inject: "(crc_bit ^^ n) a = (crc_bit ^^ n) b \<longleftrightarrow> a = b"
proof -
  have "(crc_bit ^^ n) a = (crc_bit ^^ n) b \<longleftrightarrow> (crc_bit ^^ n) (a XOR b) = 0"
    by (simp only: crc_bits_xor xor_eq_0_word)
  then show ?thesis by (simp only: crc_bits_zero_iff xor_eq_0_word)
qed


subsection \<open>Running the checksum over a buffer\<close>

lemma crc_update_append: "crc_update (xs @ ys) crc = crc_update ys (crc_update xs crc)"
  by (simp add: crc_update_def)

text \<open>Equal suffixes cannot bring different register values back together.\<close>

lemma crc_byte_inject: "crc_byte v a = crc_byte v b \<longleftrightarrow> a = b"
proof -
  have "a XOR c = b XOR c \<longleftrightarrow> a = b" for c :: u32
    by (auto intro: bit_word_eqI simp: bit_eq_iff bit_xor_iff)
  then show ?thesis by (simp only: crc_byte_def crc_bits_inject)
qed

lemma crc_update_inject: "crc_update xs a = crc_update xs b \<longleftrightarrow> a = b"
  by (induction xs arbitrary: a b) (simp_all add: crc_update_def crc_byte_inject)

lemma Crc32_eq_iff: "Crc32 xs = Crc32 ys \<longleftrightarrow> crc_update xs 0xffffffff = crc_update ys 0xffffffff"
  by (simp add: Crc32_def)



subsection \<open>Bursts of up to four bytes\<close>

lemma crc_bits_push:
  assumes "k \<le> 32" and "\<And>n. 32 - k \<le> n \<Longrightarrow> \<not> bit w n"
  shows "(crc_bit ^^ k) (push_bit k w) = w"
  using assms
proof (induction k)
  case 0
  show ?case by simp
next
  case (Suc k)
  have "crc_bit (push_bit (Suc k) w) = push_bit k w"
  proof (rule bit_word_eqI)
    fix n assume n: "n < LENGTH(32)"
    have "n < 31" if "bit w (n - k)" "k \<le> n"
      using Suc.prems(2) [of "n - k"] that n by (cases "n = 31") auto
    with n show "bit (crc_bit (push_bit (Suc k) w)) n = bit (push_bit k w) n"
      by (auto simp: bit_crc_bit bit_push_bit_iff simp del: push_bit_Suc)
  qed
  then have "(crc_bit ^^ Suc k) (push_bit (Suc k) w) = (crc_bit ^^ k) (push_bit k w)"
    by (simp only: funpow_Suc_right comp_apply)
  also have "\<dots> = w"
    using Suc.prems by (intro Suc.IH) auto
  finally show ?case .
qed

lemma gather_le_snoc:
  "(gather_le (Suc (length bs)) (bs @ [b]) 0 :: 'a::len word) =
     gather_le (length bs) bs 0 XOR push_bit (8 * length bs) (ucast b)"
proof -
  let ?g = "gather_le (length bs) bs 0 :: 'a word"
  let ?p = "push_bit (8 * length bs) (ucast b) :: 'a word"
  have "(gather_le (length bs) (bs @ [b]) 0 :: 'a word) = ?g"
    by (rule gather_le_cong) (simp add: nth_append)
  then have "(gather_le (Suc (length bs)) (bs @ [b]) 0 :: 'a word) = ?g OR ?p"
    by (simp add: gather_le_def mult.commute)
  also have "\<dots> = ?g XOR ?p"
  proof (rule bit_word_eqI)
    fix n
    have "\<not> (bit ?g n \<and> bit ?p n)"
      by (auto simp: bit_gather_le bit_push_bit_iff)
    then show "bit (?g OR ?p) n = bit (?g XOR ?p) n"
      by (auto simp: bit_or_iff bit_xor_iff)
  qed
  finally show ?thesis .
qed

lemma crc_update_short:
  "length bs \<le> 4 \<Longrightarrow>
     crc_update bs crc = (crc_bit ^^ (8 * length bs)) (crc XOR gather_le (length bs) bs 0)"
proof (induction bs rule: rev_induct)
  case Nil
  show ?case by (simp add: crc_update_def gather_le_def)
next
  case (snoc b bs)
  let ?k = "8 * length bs"
  let ?g = "gather_le (length bs) bs 0 :: u32"
  have "(crc_bit ^^ ?k) (push_bit ?k (ucast b)) = ucast b"
    using snoc.prems by (intro crc_bits_push) (auto simp: bit_ucast_iff not_bit_u8)
  then have fold_in: "(crc_bit ^^ ?k) x XOR ucast b = (crc_bit ^^ ?k) (x XOR push_bit ?k (ucast b))" for x
    by (simp only: crc_bits_xor)
  have "crc_update (bs @ [b]) crc = crc_byte b (crc_update bs crc)"
    by (simp add: crc_update_def)
  also have "\<dots> = (crc_bit ^^ 8) ((crc_bit ^^ ?k) (crc XOR ?g) XOR ucast b)"
    using snoc by (simp add: crc_byte_def)
  also have "\<dots> = (crc_bit ^^ (8 + ?k)) ((crc XOR ?g) XOR push_bit ?k (ucast b))"
    by (simp only: fold_in funpow_add comp_apply)
  also have "\<dots> = (crc_bit ^^ (8 * length (bs @ [b])))
      (crc XOR gather_le (length (bs @ [b])) (bs @ [b]) 0)"
    by (simp add: gather_le_snoc xor.assoc)
  finally show ?case .
qed

lemma gather_le_inject:
  assumes "length xs = length ys" and "8 * length xs \<le> LENGTH('a::len)"
    and "(gather_le (length xs) xs 0 :: 'a word) = gather_le (length ys) ys 0"
  shows "xs = ys"
proof (rule nth_equalityI)
  show "length xs = length ys" by (rule assms(1))
next
  fix i assume i: "i < length xs"
  show "xs ! i = ys ! i"
  proof (rule bit_word_eqI)
    fix j assume "j < LENGTH(8)"
    then have j: "(i * 8 + j) div 8 = i" "(i * 8 + j) mod 8 = j" by simp_all
    moreover have "i * 8 + j < LENGTH('a)"
      using i \<open>j < LENGTH(8)\<close> assms(2) by simp
    moreover have "bit (gather_le (length xs) xs 0 :: 'a word) (i * 8 + j) =
        bit (gather_le (length ys) ys 0 :: 'a word) (i * 8 + j)"
      by (simp only: assms(3))
    ultimately show "bit (xs ! i) j = bit (ys ! i) j"
      using i assms(1) by (simp add: bit_gather_le)
  qed
qed

lemma crc_update_burst:
  assumes "crc_update (pre @ xs @ post) c = crc_update (pre @ ys @ post) c"
    and "length xs = length ys" and "length xs \<le> 4"
  shows "xs = ys"
proof -
  let ?c = "crc_update pre c"
  have "crc_update xs ?c = crc_update ys ?c"
    using assms(1) by (simp add: crc_update_append crc_update_inject)
  then have "?c XOR gather_le (length xs) xs 0 = ?c XOR gather_le (length ys) ys 0"
    using assms(2,3) by (simp add: crc_update_short crc_bits_inject)
  then have "(gather_le (length xs) xs 0 :: u32) = gather_le (length ys) ys 0"
    by (auto intro: bit_word_eqI simp: bit_eq_iff bit_xor_iff)
  then show "xs = ys"
    using assms(2,3) by (intro gather_le_inject [where 'a = 32]) simp_all
qed

text \<open>Appending the little-endian checksum drives the register to a fixed residue.\<close>

lemma crc_residue:
  "crc_update (xs @ le_bytes 4 (Crc32 xs)) 0xffffffff = (crc_bit ^^ 32) 0xffffffff"
proof -
  let ?c = "crc_update xs 0xffffffff"
  have "gather_le 4 (le_bytes 4 (Crc32 xs)) 0 = Crc32 xs"
    by (rule gather_le_le_bytes) simp_all
  then have "crc_update (le_bytes 4 (Crc32 xs)) ?c = (crc_bit ^^ 32) (?c XOR Crc32 xs)"
    by (simp add: crc_update_short)
  also have "?c XOR Crc32 xs = 0xffffffff"
    by (simp add: Crc32_def)
  finally show ?thesis
    by (simp add: crc_update_append)
qed

text \<open>Replacing up to four consecutive bytes by different ones changes the checksum.\<close>

lemma crc_burst:
  "length xs = length ys \<Longrightarrow> length xs \<le> 4 \<Longrightarrow> xs \<noteq> ys \<Longrightarrow>
     Crc32 (pre @ xs @ post) \<noteq> Crc32 (pre @ ys @ post)"
  by (auto simp: Crc32_eq_iff dest: crc_update_burst)


subsection \<open>Properties\<close>

text \<open>the checksum detects every corruption confined to four consecutive bytes.\<close>

theorem crc_detects_burst:
  assumes "length xs = length ys" "length xs \<le> 4" "xs \<noteq> ys"
  shows "Crc32 (pre @ xs @ post) \<noteq> Crc32 (pre @ ys @ post)"
  using assms by (rule crc_burst)

theorem crc_detects_burst_witness:
  "Crc32 ([1, 2] @ [3, 4, 5] @ [6]) \<noteq> Crc32 ([1, 2] @ [3, 9, 5] @ [6])"
  using crc_detects_burst [of "[3, 4, 5]" "[3, 9, 5]" "[1, 2]" "[6]"] by simp

end
