(* ===== verification/Trace_Format.thy ===== *)
theory Trace_Format
  imports Runtime_Core Crc32
begin

text \<open>
  The trace file format of \<open>record_replay.cpp\<close>: the file header, the serialised record,
  the configured limits, and the decoding of the fixed part of a record. The lemmas give
  the layout of what the writer produces and show that the decoder inverts it.
\<close>

subsection \<open>Constants and data\<close>

definition kTraceFormatVersion :: u16 where
  "kTraceFormatVersion = 1"

definition kFileMagic :: bytes where
  "kFileMagic = bytes_of_string ''ARTRACE1''"

definition kRecordMagic :: u32 where
  "kRecordMagic = 0x31524341"

definition kRecordVersion :: u16 where
  "kRecordVersion = 1"

definition kFileHeaderBytes :: nat where
  "kFileHeaderBytes = 40"

definition kRecordFixedBytes :: nat where
  "kRecordFixedBytes = 112"

definition kChecksumBytes :: nat where
  "kChecksumBytes = 4"

definition kMinimumRecordBytes :: nat where
  "kMinimumRecordBytes = kRecordFixedBytes + kChecksumBytes"

lemmas trace_consts =
  kTraceFormatVersion_def kRecordMagic_def kRecordVersion_def kFileHeaderBytes_def
  kRecordFixedBytes_def kChecksumBytes_def kMinimumRecordBytes_def

record TraceLimits =
  max_channel_bytes :: nat
  max_message_type_bytes :: nat
  max_payload_bytes :: nat

record TraceFileInfo =
  format_version :: u16
  wall_clock_start_ns :: u64
  monotonic_start_ns :: u64

record PendingRecord =
  pr_record_sequence :: u64
  pr_monotonic_offset_ns :: u64
  pr_channel :: string
  pr_message_type :: string
  pr_message :: Message

record TraceRecord =
  tr_record_sequence :: u64
  tr_monotonic_offset_ns :: u64
  tr_channel :: string
  tr_message_type :: string
  tr_message :: Message
  tr_checksum :: u32


subsection \<open>Writing\<close>

definition CheckedAdd :: "nat \<Rightarrow> nat \<Rightarrow> nat option" where
  "CheckedAdd left right = (if right > size_max - left then None else Some (left + right))"

definition BuildFileHeader :: "u64 \<Rightarrow> u64 \<Rightarrow> bytes" where
  "BuildFileHeader wall_ns mono_ns =
     (let header = kFileMagic;
          header = AppendU16 header kTraceFormatVersion;
          header = AppendU16 header (of_nat kFileHeaderBytes);
          header = AppendU64 header wall_ns;
          header = AppendU64 header mono_ns;
          header = AppendU64 header 0
      in AppendU32 header (Crc32 header))"

text \<open>The sum of the three length fields and the fixed part; \<open>None\<close> is the overflow that
  \<open>CheckedAdd\<close> reports.\<close>

definition checked_total :: "nat \<Rightarrow> nat \<Rightarrow> nat \<Rightarrow> nat option" where
  "checked_total channel_size type_size payload_size =
     do {
       total_size \<leftarrow> CheckedAdd kMinimumRecordBytes channel_size;
       total_size \<leftarrow> CheckedAdd total_size type_size;
       CheckedAdd total_size payload_size
     }"

text \<open>\<open>Inl\<close> is the exception the serialiser throws, with its text.\<close>

definition SerializeRecord :: "PendingRecord \<Rightarrow> string + bytes" where
  "SerializeRecord r =
     (let m = pr_message r; e = envelope m in
      case checked_total (length (pr_channel r)) (length (pr_message_type r)) (length (payload m)) of
        None \<Rightarrow> Inl ''trace record size overflow''
      | Some total_size \<Rightarrow>
          let output = AppendU32 [] kRecordMagic;
              output = AppendU16 output kRecordVersion;
              output = AppendU16 output 0;
              output = AppendU64 output (of_nat total_size);
              output = AppendU64 output (pr_record_sequence r);
              output = AppendU64 output (pr_monotonic_offset_ns r);
              output = AppendU16 output (version e);
              output = AppendU16 output 0;
              output = AppendU32 output (priority e);
              output = AppendU64 output (trace_id e);
              output = AppendU64 output (span_id e);
              output = AppendU64 output (parent_span_id e);
              output = AppendU64 output (sequence e);
              output = AppendU64 output (source_timestamp_ns e);
              output = AppendU64 output (publish_timestamp_ns e);
              output = AppendU64 output (source_generation e);
              output = AppendU32 output (of_nat (length (pr_channel r)));
              output = AppendU32 output (of_nat (length (pr_message_type r)));
              output = AppendU64 output (of_nat (length (payload m)));
              output = AppendString output (pr_channel r);
              output = AppendString output (pr_message_type r);
              output = output @ payload m;
              output = AppendU32 output (Crc32 output)
          in if length output \<noteq> total_size then Inl ''serialized trace record size mismatch''
             else Inr output)"

definition ValidateLimits :: "TraceLimits \<Rightarrow> Status" where
  "ValidateLimits limits =
     (if max_channel_bytes limits = 0 \<or> max_message_type_bytes limits = 0 \<or>
         max_payload_bytes limits = 0 \<or>
         max_channel_bytes limits > 2 ^ 32 - 1 \<or> max_message_type_bytes limits > 2 ^ 32 - 1
      then mk_status InvalidArgument ''trace limits must be positive and encodable''
      else case checked_total (max_channel_bytes limits) (max_message_type_bytes limits)
                  (max_payload_bytes limits) of
        None \<Rightarrow> mk_status InvalidArgument ''trace limits exceed stream or size_t bounds''
      | Some maximum \<Rightarrow>
          if int maximum > int64_max
          then mk_status InvalidArgument ''trace limits exceed stream or size_t bounds''
          else OkStatus)"


subsection \<open>Reading\<close>

text \<open>An \<open>std::ifstream\<close> over a file: its bytes, the read position and the state bits.
  A read on a stream that is not good transfers nothing; a short read sets both bits.\<close>

record ifstream =
  file_bytes :: bytes
  file_pos :: nat
  eofbit :: bool
  failbit :: bool

definition stream_read :: "ifstream \<Rightarrow> nat \<Rightarrow> bytes \<times> ifstream" where
  "stream_read s n =
     (if eofbit s \<or> failbit s then ([], s\<lparr>failbit := True\<rparr>)
      else
        let got = take n (drop (file_pos s) (file_bytes s));
            s = s\<lparr>file_pos := file_pos s + length got\<rparr>
        in if length got < n then (got, s\<lparr>eofbit := True, failbit := True\<rparr>) else (got, s))"

datatype StreamRead = StreamOk | StreamEof | StreamTruncated

definition ReadExact :: "ifstream \<Rightarrow> nat \<Rightarrow> bool \<Rightarrow> StreamRead \<times> bytes \<times> ifstream" where
  "ReadExact input count allow_clean_eof =
     (if count = 0 then (StreamOk, [], input)
      else case stream_read input count of (got, input) \<Rightarrow>
        if length got = count then (StreamOk, got, input)
        else if allow_clean_eof \<and> got = [] \<and> eofbit input then (StreamEof, got, input)
        else (StreamTruncated, got, input))"

record FixedHeader =
  fx_magic :: u32
  fx_version :: u16
  fx_flags :: u16
  fx_total :: u64
  fx_record_sequence :: u64
  fx_monotonic_offset_ns :: u64
  fx_envelope_version :: u16
  fx_envelope_reserved :: u16
  fx_priority_bits :: u32
  fx_trace_id :: u64
  fx_span_id :: u64
  fx_parent_span_id :: u64
  fx_sequence :: u64
  fx_source_timestamp_ns :: u64
  fx_publish_timestamp_ns :: u64
  fx_source_generation :: u64
  fx_channel_size :: u32
  fx_type_size :: u32
  fx_payload_size :: u64

definition decode_fixed :: "bytes \<Rightarrow> FixedHeader option" where
  "decode_fixed fixed = do {
     (magic, offset) \<leftarrow> ReadU32 fixed 0;
     (ver, offset) \<leftarrow> ReadU16 fixed offset;
     (flags, offset) \<leftarrow> ReadU16 fixed offset;
     (total_size, offset) \<leftarrow> ReadU64 fixed offset;
     (rseq, offset) \<leftarrow> ReadU64 fixed offset;
     (roff, offset) \<leftarrow> ReadU64 fixed offset;
     (ever, offset) \<leftarrow> ReadU16 fixed offset;
     (ereserved, offset) \<leftarrow> ReadU16 fixed offset;
     (prio, offset) \<leftarrow> ReadU32 fixed offset;
     (tid, offset) \<leftarrow> ReadU64 fixed offset;
     (sid, offset) \<leftarrow> ReadU64 fixed offset;
     (psid, offset) \<leftarrow> ReadU64 fixed offset;
     (seq, offset) \<leftarrow> ReadU64 fixed offset;
     (src, offset) \<leftarrow> ReadU64 fixed offset;
     (pub, offset) \<leftarrow> ReadU64 fixed offset;
     (gen, offset) \<leftarrow> ReadU64 fixed offset;
     (csize, offset) \<leftarrow> ReadU32 fixed offset;
     (tsize, offset) \<leftarrow> ReadU32 fixed offset;
     (psize, offset) \<leftarrow> ReadU64 fixed offset;
     if offset \<noteq> kRecordFixedBytes then None
     else Some \<lparr>fx_magic = magic, fx_version = ver, fx_flags = flags, fx_total = total_size,
       fx_record_sequence = rseq, fx_monotonic_offset_ns = roff,
       fx_envelope_version = ever, fx_envelope_reserved = ereserved,
       fx_priority_bits = prio, fx_trace_id = tid, fx_span_id = sid,
       fx_parent_span_id = psid, fx_sequence = seq, fx_source_timestamp_ns = src,
       fx_publish_timestamp_ns = pub, fx_source_generation = gen,
       fx_channel_size = csize, fx_type_size = tsize, fx_payload_size = psize\<rparr>
   }"

text \<open>Decoding of the 40-byte file header, in the order of the checks of
  \<open>OpenAndReadHeader\<close>.\<close>

definition TraceError :: "string \<Rightarrow> Status" where
  "TraceError d = mk_status TransportError d"

definition parse_file_header :: "bytes \<Rightarrow> TraceFileInfo Result" where
  "parse_file_header header =
     (if take (length kFileMagic) header \<noteq> kFileMagic
      then Inl (TraceError ''trace file magic mismatch'')
      else case do {
          (ver, offset) \<leftarrow> ReadU16 header (length kFileMagic);
          (header_size, offset) \<leftarrow> ReadU16 header offset;
          (wall_ns, offset) \<leftarrow> ReadU64 header offset;
          (mono_ns, offset) \<leftarrow> ReadU64 header offset;
          (reserved, offset) \<leftarrow> ReadU64 header offset;
          (stored_checksum, offset) \<leftarrow> ReadU32 header offset;
          Some (ver, header_size, wall_ns, mono_ns, reserved, stored_checksum)
        } of
        None \<Rightarrow> Inl (TraceError ''trace header decode failed'')
      | Some (ver, header_size, wall_ns, mono_ns, reserved, stored_checksum) \<Rightarrow>
          if ver \<noteq> kTraceFormatVersion \<or> unat header_size \<noteq> kFileHeaderBytes \<or> reserved \<noteq> 0
          then Inl (TraceError ''trace header version or size is unsupported'')
          else if Crc32 (take (length header - kChecksumBytes) header) \<noteq> stored_checksum
          then Inl (TraceError ''trace header checksum mismatch'')
          else Inr \<lparr>format_version = ver, wall_clock_start_ns = wall_ns, monotonic_start_ns = mono_ns\<rparr>)"


subsection \<open>Layout of what the writer produces\<close>

text \<open>The fixed part of a record, field by field.\<close>

definition encode_fixed :: "FixedHeader \<Rightarrow> bytes" where
  "encode_fixed h =
     AppendU32 [] (fx_magic h) @ AppendU16 [] (fx_version h) @ AppendU16 [] (fx_flags h) @
     AppendU64 [] (fx_total h) @ AppendU64 [] (fx_record_sequence h) @
     AppendU64 [] (fx_monotonic_offset_ns h) @ AppendU16 [] (fx_envelope_version h) @
     AppendU16 [] (fx_envelope_reserved h) @ AppendU32 [] (fx_priority_bits h) @
     AppendU64 [] (fx_trace_id h) @ AppendU64 [] (fx_span_id h) @
     AppendU64 [] (fx_parent_span_id h) @ AppendU64 [] (fx_sequence h) @
     AppendU64 [] (fx_source_timestamp_ns h) @ AppendU64 [] (fx_publish_timestamp_ns h) @
     AppendU64 [] (fx_source_generation h) @ AppendU32 [] (fx_channel_size h) @
     AppendU32 [] (fx_type_size h) @ AppendU64 [] (fx_payload_size h)"

definition record_size :: "PendingRecord \<Rightarrow> nat" where
  "record_size r = kMinimumRecordBytes + length (pr_channel r) + length (pr_message_type r) +
     length (payload (pr_message r))"

definition fixed_header_of :: "PendingRecord \<Rightarrow> FixedHeader" where
  "fixed_header_of r =
     (let m = pr_message r; e = envelope m in
      \<lparr>fx_magic = kRecordMagic, fx_version = kRecordVersion, fx_flags = 0,
       fx_total = of_nat (record_size r),
       fx_record_sequence = pr_record_sequence r,
       fx_monotonic_offset_ns = pr_monotonic_offset_ns r,
       fx_envelope_version = version e, fx_envelope_reserved = 0,
       fx_priority_bits = priority e, fx_trace_id = trace_id e, fx_span_id = span_id e,
       fx_parent_span_id = parent_span_id e, fx_sequence = sequence e,
       fx_source_timestamp_ns = source_timestamp_ns e,
       fx_publish_timestamp_ns = publish_timestamp_ns e,
       fx_source_generation = source_generation e,
       fx_channel_size = of_nat (length (pr_channel r)),
       fx_type_size = of_nat (length (pr_message_type r)),
       fx_payload_size = of_nat (length (payload m))\<rparr>)"

definition record_body :: "PendingRecord \<Rightarrow> bytes" where
  "record_body r =
     encode_fixed (fixed_header_of r) @ bytes_of_string (pr_channel r) @
     bytes_of_string (pr_message_type r) @ payload (pr_message r)"

definition record_bytes :: "PendingRecord \<Rightarrow> bytes" where
  "record_bytes r = record_body r @ AppendU32 [] (Crc32 (record_body r))"

lemma CheckedAdd_eq:
  "CheckedAdd a b = (if a + b \<le> size_max then Some (a + b) else None)" if "a \<le> size_max"
  using that by (auto simp: CheckedAdd_def)

lemma checked_total_eq:
  "checked_total c t p =
     (if kMinimumRecordBytes + c + t + p \<le> size_max then Some (kMinimumRecordBytes + c + t + p)
      else None)"
proof -
  have "kMinimumRecordBytes \<le> size_max"
    by (simp add: trace_consts size_max_def)
  then show ?thesis
    by (simp add: checked_total_def CheckedAdd_eq Let_def)
qed

lemma length_encode_fixed [codec_simps]: "length (encode_fixed h) = kRecordFixedBytes"
  by (simp add: encode_fixed_def codec_simps kRecordFixedBytes_def)

lemma length_record_body: "length (record_body r) = record_size r - kChecksumBytes"
  by (simp add: record_body_def record_size_def codec_simps trace_consts)

lemma length_record_bytes [codec_simps]: "length (record_bytes r) = record_size r"
  by (simp add: record_bytes_def length_record_body codec_simps)
    (simp add: record_size_def trace_consts)

lemmas append_le = AppendU16_le AppendU32_le AppendU64_le AppendString_def

lemma SerializeRecord_overflow:
  "size_max < record_size r \<Longrightarrow> SerializeRecord r = Inl ''trace record size overflow''"
  by (simp add: SerializeRecord_def checked_total_eq record_size_def Let_def)

lemma SerializeRecord_bytes:
  assumes "record_size r \<le> size_max"
  shows "SerializeRecord r = Inr (record_bytes r)"
proof -
  have total_eq: "checked_total (length (pr_channel r)) (length (pr_message_type r))
      (length (payload (pr_message r))) = Some (record_size r)"
    using assms by (simp add: checked_total_eq record_size_def)
  have len: "length (record_bytes r) = record_size r"
    by (rule length_record_bytes)
  show ?thesis
    unfolding SerializeRecord_def Let_def total_eq option.case
    using len
    by (simp add: append_le record_bytes_def record_body_def encode_fixed_def fixed_header_of_def
        Let_def record_size_def)
qed



subsection \<open>The decoder inverts the writer\<close>

lemma decode_encode_fixed: "decode_fixed (encode_fixed h) = Some h"
  by (simp add: decode_fixed_def encode_fixed_def codec_simps kRecordFixedBytes_def)

text \<open>Where the length fields of a decoded header lie in its bytes.\<close>

lemma decode_fixed_fields:
  assumes "decode_fixed fixed = Some h"
  shows "ReadU64 fixed 8 = Some (fx_total h, 16)"
    and "ReadU32 fixed 96 = Some (fx_channel_size h, 100)"
    and "ReadU32 fixed 100 = Some (fx_type_size h, 104)"
    and "ReadU64 fixed 104 = Some (fx_payload_size h, 112)"
    and "ReadU64 fixed 16 = Some (fx_record_sequence h, 24)"
  using assms
  by (auto simp: decode_fixed_def bind_eq_Some_conv u16le.rd_Some_iff u32le.rd_Some_iff
      u64le.rd_Some_iff split: if_splits)

lemma length_kFileMagic [simp]: "length kFileMagic = 8"
  by (simp add: kFileMagic_def)

lemma length_BuildFileHeader [codec_simps]: "length (BuildFileHeader wall_ns mono_ns) = kFileHeaderBytes"
  by (simp add: BuildFileHeader_def codec_simps Let_def kFileHeaderBytes_def)

lemma parse_BuildFileHeader:
  "parse_file_header (BuildFileHeader wall_ns mono_ns) =
     Inr \<lparr>format_version = kTraceFormatVersion, wall_clock_start_ns = wall_ns,
       monotonic_start_ns = mono_ns\<rparr>"
proof -
  let ?f = "AppendU16 [] kTraceFormatVersion @ AppendU16 [] (of_nat kFileHeaderBytes) @
      AppendU64 [] wall_ns @ AppendU64 [] mono_ns @ AppendU64 [] 0"
  let ?h = "BuildFileHeader wall_ns mono_ns"
  have h: "?h = kFileMagic @ ?f @ AppendU32 [] (Crc32 (kFileMagic @ ?f))"
    by (simp add: BuildFileHeader_def append_le Let_def)
  show ?thesis
    unfolding parse_file_header_def h
    by (simp add: codec_simps kChecksumBytes_def kFileHeaderBytes_def)
qed

subsection \<open>The configured limits\<close>

definition within_limits :: "TraceLimits \<Rightarrow> PendingRecord \<Rightarrow> bool" where
  "within_limits limits r \<longleftrightarrow>
     pr_channel r \<noteq> [] \<and> pr_message_type r \<noteq> [] \<and>
     length (pr_channel r) \<le> max_channel_bytes limits \<and>
     length (pr_message_type r) \<le> max_message_type_bytes limits \<and>
     length (payload (pr_message r)) \<le> max_payload_bytes limits"

lemma ValidateLimits_ok [guard_simps]:
  "ok (ValidateLimits limits) \<longleftrightarrow>
     0 < max_channel_bytes limits \<and> max_channel_bytes limits < 2 ^ 32 \<and>
     0 < max_message_type_bytes limits \<and> max_message_type_bytes limits < 2 ^ 32 \<and>
     0 < max_payload_bytes limits \<and>
     int (kMinimumRecordBytes + max_channel_bytes limits + max_message_type_bytes limits +
       max_payload_bytes limits) \<le> int64_max"
  by (auto simp: ValidateLimits_def checked_total_eq int64_max_def size_max_def)

text \<open>A record within validated limits can be serialised, and its length fields fit their
  wire types.\<close>

lemma within_limits_sizes:
  assumes "ok (ValidateLimits limits)" and "within_limits limits r"
  shows "record_size r < 2 ^ 63"
    and "length (pr_channel r) < 2 ^ 32" and "length (pr_message_type r) < 2 ^ 32"
    and "length (payload (pr_message r)) < 2 ^ 63"
  using assms by (auto simp: guard_simps within_limits_def record_size_def int64_max_def)

lemma SerializeRecord_within_limits:
  "ok (ValidateLimits limits) \<Longrightarrow> within_limits limits r \<Longrightarrow> SerializeRecord r = Inr (record_bytes r)"
  using within_limits_sizes [of limits r]
  by (intro SerializeRecord_bytes) (simp add: size_max_def)

subsection \<open>A concrete record\<close>

definition demo_limits :: TraceLimits where
  "demo_limits = \<lparr>max_channel_bytes = 1024, max_message_type_bytes = 1024,
     max_payload_bytes = 65536\<rparr>"

definition demo_record :: PendingRecord where
  "demo_record = \<lparr>pr_record_sequence = 1, pr_monotonic_offset_ns = 40, pr_channel = ''/lidar'',
     pr_message_type = ''points'', pr_message = demo_message\<rparr>"

lemma demo_limits_ok: "ok (ValidateLimits demo_limits)"
  by (simp add: guard_simps demo_limits_def int64_max_def kMinimumRecordBytes_def kRecordFixedBytes_def
      kChecksumBytes_def)

lemma demo_record_ok: "within_limits demo_limits demo_record"
  by (simp add: within_limits_def demo_limits_def demo_record_def demo_message_def)


subsection \<open>Properties\<close>

lemma parse_file_header_fields:
  assumes "parse_file_header h = Inr info" "length h = kFileHeaderBytes"
  shows "h = BuildFileHeader (wall_clock_start_ns info) (monotonic_start_ns info)"
    "format_version info = kTraceFormatVersion"
proof -
  let ?w = "wall_clock_start_ns info" and ?m = "monotonic_start_ns info"
  let ?f = "kFileMagic @ AppendU16 [] kTraceFormatVersion @ AppendU16 [] (of_nat kFileHeaderBytes) @
      AppendU64 [] ?w @ AppendU64 [] ?m @ AppendU64 [] 0"
  have forty: "header_size = 40" if "unat header_size = 40" for header_size :: u16
    using that by (simp add: word_unat_eq_iff)
  have parts: "kFileMagic = take 8 (drop 0 h)" "AppendU16 [] kTraceFormatVersion = take 2 (drop 8 h)"
    "AppendU16 [] (of_nat kFileHeaderBytes) = take 2 (drop 10 h)" "AppendU64 [] ?w = take 8 (drop 12 h)"
    "AppendU64 [] ?m = take 8 (drop 20 h)" "AppendU64 [] 0 = take 8 (drop 28 h)"
    and crc: "AppendU32 [] (Crc32 (take 36 h)) = take 4 (drop 36 h)"
    and "format_version info = kTraceFormatVersion"
    using assms
    by (auto simp: parse_file_header_def bind_eq_Some_conv u16le.rd_Some_iff u32le.rd_Some_iff
        u64le.rd_Some_iff kChecksumBytes_def kFileHeaderBytes_def
        split: if_splits option.splits dest!: forty)
  then show "format_version info = kTraceFormatVersion" by simp
  have last: "take 4 (drop 36 h) = drop 36 h"
    using assms(2) by (simp add: kFileHeaderBytes_def)
  have whole: "?f @ drop 36 h = h"
    unfolding parts append_assoc
    by (simp only: slice_step [of _ _ _ h] numeral_plus_numeral add_num_simps add_0 refl drop0 append_take_drop_id)
  have "length ?f = 36" by (simp add: codec_simps)
  then have "?f = take 36 h" by (metis whole append_eq_conv_conj)
  then have "BuildFileHeader ?w ?m = take 36 h @ AppendU32 [] (Crc32 (take 36 h))"
    by (simp add: BuildFileHeader_def append_le Let_def)
  then show "h = BuildFileHeader ?w ?m"
    by (simp add: crc last)
qed

text \<open>the reader accepts exactly the file headers the writer builds: a forty-byte header parses to
  the given start times if and only if it is the header the writer builds for them, so any
  other magic, version, size, reserved field or checksum is refused.\<close>

theorem file_header_exact:
  assumes "length h = kFileHeaderBytes"
  shows "parse_file_header h = Inr info \<longleftrightarrow>
    h = BuildFileHeader (wall_clock_start_ns info) (monotonic_start_ns info) \<and>
    format_version info = kTraceFormatVersion"
  using parse_file_header_fields [OF _ assms]
    parse_BuildFileHeader [of "wall_clock_start_ns info" "monotonic_start_ns info"]
  by auto

theorem file_header_exact_witness:
  "parse_file_header (BuildFileHeader 5 10) =
     Inr \<lparr>format_version = 1, wall_clock_start_ns = 5, monotonic_start_ns = 10\<rparr>"
  using file_header_exact [OF length_BuildFileHeader [of 5 10],
      of "\<lparr>format_version = 1, wall_clock_start_ns = 5, monotonic_start_ns = 10\<rparr>"]
  by (simp add: kTraceFormatVersion_def)

end
