(* ===== verification/Replayer.thy ===== *)
theory Replayer
  imports Trace_Format
begin

text \<open>
  The reader of trace files: \<open>Replayer\<close> of \<open>record_replay.cpp\<close>. \<open>NextLocked\<close> decodes and
  validates one record and remembers the first error for good; \<open>Reset\<close> rewinds; \<open>Replay\<close>
  feeds the records to a callback, as fast as possible or paced by the recorded offsets.

  Memory allocation is an effect: \<open>mem n\<close> is \<open>None\<close> when an allocation of \<open>n\<close> bytes
  succeeds and \<open>Some what\<close> when it throws, with the text of the exception.
\<close>

subsection \<open>State\<close>

record ReplayStats =
  records_read :: u64
  records_delivered :: u64
  payload_bytes :: u64
  checksum_mismatches :: u64
  sequence_mismatches :: u64
  truncated_records :: u64
  format_errors :: u64
  timing_observations :: u64
  total_timing_drift :: duration
  maximum_timing_drift :: duration

definition zero_replay_stats :: ReplayStats where
  "zero_replay_stats =
     \<lparr>records_read = 0, records_delivered = 0, payload_bytes = 0, checksum_mismatches = 0,
      sequence_mismatches = 0, truncated_records = 0, format_errors = 0,
      timing_observations = 0, total_timing_drift = 0, maximum_timing_drift = 0\<rparr>"

record Replayer =
  rp_limits :: TraceLimits
  rp_input :: ifstream
  rp_info :: TraceFileInfo
  rp_expected_sequence :: u64
  rp_last_offset_ns :: u64
  rp_eof :: bool
  rp_terminal_error :: "Status option"
  rp_stats :: ReplayStats

type_synonym allocator = "nat \<Rightarrow> string option"

text \<open>The four error counters a failing read may increment.\<close>

datatype ErrorCounter = CountTruncated | CountFormat | CountChecksum | CountSequence

fun bump :: "ErrorCounter \<Rightarrow> ReplayStats \<Rightarrow> ReplayStats" where
  "bump CountTruncated st = st\<lparr>truncated_records := truncated_records st + 1\<rparr>"
| "bump CountFormat st = st\<lparr>format_errors := format_errors st + 1\<rparr>"
| "bump CountChecksum st = st\<lparr>checksum_mismatches := checksum_mismatches st + 1\<rparr>"
| "bump CountSequence st = st\<lparr>sequence_mismatches := sequence_mismatches st + 1\<rparr>"

definition fail_read ::
    "ErrorCounter \<Rightarrow> string \<Rightarrow> Replayer \<Rightarrow> TraceRecord option Result \<times> Replayer" where
  "fail_read c d s =
     (Inl (TraceError d),
      s\<lparr>rp_stats := bump c (rp_stats s), rp_terminal_error := Some (TraceError d)\<rparr>)"

definition fail_memory :: "string \<Rightarrow> Replayer \<Rightarrow> TraceRecord option Result \<times> Replayer" where
  "fail_memory d s = (Inl (mk_status Internal d), s\<lparr>rp_terminal_error := Some (mk_status Internal d)\<rparr>)"


subsection \<open>Reading one record\<close>

text \<open>The framing, limit and length checks on a decoded header; \<open>Some\<close> is the error text.\<close>

definition check_frame :: "TraceLimits \<Rightarrow> FixedHeader \<Rightarrow> string option" where
  "check_frame limits h =
     (if fx_magic h \<noteq> kRecordMagic \<or> fx_version h \<noteq> kRecordVersion \<or> fx_flags h \<noteq> 0 \<or>
         fx_envelope_reserved h \<noteq> 0 \<or> unat (fx_total h) < kMinimumRecordBytes \<or>
         unat (fx_total h) > size_max
      then Some ''trace record framing is invalid''
      else if unat (fx_payload_size h) > size_max
      then Some ''trace payload size exceeds size_t''
      else if fx_channel_size h = 0 \<or> fx_type_size h = 0 \<or>
         unat (fx_channel_size h) > max_channel_bytes limits \<or>
         unat (fx_type_size h) > max_message_type_bytes limits \<or>
         unat (fx_payload_size h) > max_payload_bytes limits
      then Some ''trace record exceeds configured limits''
      else case checked_total (unat (fx_channel_size h)) (unat (fx_type_size h))
                  (unat (fx_payload_size h)) of
        None \<Rightarrow> Some ''trace record length fields disagree''
      | Some expected_total \<Rightarrow>
          if unat (fx_total h) \<noteq> expected_total then Some ''trace record length fields disagree''
          else None)"

text \<open>The record a validated header and its variable part stand for.\<close>

definition materialize :: "FixedHeader \<Rightarrow> bytes \<Rightarrow> u32 \<Rightarrow> TraceRecord" where
  "materialize h record_data stored_checksum =
     (let c = unat (fx_channel_size h); t = unat (fx_type_size h); p = unat (fx_payload_size h);
          v = kRecordFixedBytes in
      \<lparr>tr_record_sequence = fx_record_sequence h,
       tr_monotonic_offset_ns = fx_monotonic_offset_ns h,
       tr_channel = string_of_bytes (take c (drop v record_data)),
       tr_message_type = string_of_bytes (take t (drop (v + c) record_data)),
       tr_message =
         \<lparr>envelope =
            \<lparr>version = fx_envelope_version h, trace_id = fx_trace_id h,
             span_id = fx_span_id h, parent_span_id = fx_parent_span_id h,
             sequence = fx_sequence h, source_timestamp_ns = fx_source_timestamp_ns h,
             publish_timestamp_ns = fx_publish_timestamp_ns h,
             source_generation = fx_source_generation h, priority = fx_priority_bits h\<rparr>,
          payload = take p (drop (v + c + t) record_data)\<rparr>,
       tr_checksum = stored_checksum\<rparr>)"

fun first_failure :: "allocator \<Rightarrow> nat list \<Rightarrow> string option" where
  "first_failure mem [] = None"
| "first_failure mem (n # ns) = (case mem n of None \<Rightarrow> first_failure mem ns | Some what \<Rightarrow> Some what)"

definition accept_record :: "TraceRecord \<Rightarrow> Replayer \<Rightarrow> Replayer" where
  "accept_record r s =
     s\<lparr>rp_expected_sequence := rp_expected_sequence s + 1,
       rp_last_offset_ns := tr_monotonic_offset_ns r,
       rp_stats := (rp_stats s)
         \<lparr>records_read := records_read (rp_stats s) + 1,
          payload_bytes := payload_bytes (rp_stats s) + of_nat (length (payload (tr_message r)))\<rparr>\<rparr>"

definition NextBody ::
    "allocator \<Rightarrow> bytes \<Rightarrow> FixedHeader \<Rightarrow> Replayer \<Rightarrow> TraceRecord option Result \<times> Replayer" where
  "NextBody mem fixed h s =
     (let total_size = unat (fx_total h) in
      case mem total_size of
        Some what \<Rightarrow> fail_memory (''allocate trace record failed: '' @ what) s
      | None \<Rightarrow>
        (case ReadExact (rp_input s) (total_size - kRecordFixedBytes) False of
           (rd, remainder, input) \<Rightarrow>
           let s = s\<lparr>rp_input := input\<rparr>; record_data = fixed @ remainder in
           if rd \<noteq> StreamOk then fail_read CountTruncated ''trace record body is truncated'' s
           else case ReadU32 record_data (total_size - kChecksumBytes) of
             None \<Rightarrow> fail_read CountFormat ''trace checksum field is invalid'' s
           | Some (stored_checksum, checksum_offset) \<Rightarrow>
             if checksum_offset \<noteq> total_size
             then fail_read CountFormat ''trace checksum field is invalid'' s
             else if Crc32 (take (total_size - kChecksumBytes) record_data) \<noteq> stored_checksum
             then fail_read CountChecksum ''trace record checksum mismatch'' s
             else if fx_record_sequence h \<noteq> rp_expected_sequence s \<or>
               (fx_record_sequence h > 1 \<and> fx_monotonic_offset_ns h < rp_last_offset_ns s)
             then fail_read CountSequence ''trace record sequence or timestamp regressed'' s
             else case first_failure mem [unat (fx_channel_size h), unat (fx_type_size h),
                 unat (fx_payload_size h)] of
               Some what \<Rightarrow> fail_memory (''materialize trace record failed: '' @ what) s
             | None \<Rightarrow>
                 let r = materialize h record_data stored_checksum
                 in (Inr (Some r), accept_record r s)))"

definition NextLocked :: "allocator \<Rightarrow> Replayer \<Rightarrow> TraceRecord option Result \<times> Replayer" where
  "NextLocked mem s =
     (case rp_terminal_error s of
        Some e \<Rightarrow> (Inl e, s)
      | None \<Rightarrow>
        if rp_eof s then (Inr None, s)
        else case ReadExact (rp_input s) kRecordFixedBytes True of (rd, fixed, input) \<Rightarrow>
          let s = s\<lparr>rp_input := input\<rparr> in
          (case rd of
             StreamEof \<Rightarrow> (Inr None, s\<lparr>rp_eof := True\<rparr>)
           | StreamTruncated \<Rightarrow> fail_read CountTruncated ''trace record header is truncated'' s
           | StreamOk \<Rightarrow>
             (case decode_fixed fixed of
                None \<Rightarrow> fail_read CountFormat ''trace record decode failed'' s
              | Some h \<Rightarrow>
                (case check_frame (rp_limits s) h of
                   Some d \<Rightarrow> fail_read CountFormat d s
                 | None \<Rightarrow> NextBody mem fixed h s))))"

text \<open>\<open>Next\<close> is \<open>NextLocked\<close> under the reader's mutex.\<close>

definition Next :: "allocator \<Rightarrow> Replayer \<Rightarrow> TraceRecord option Result \<times> Replayer" where
  "Next = NextLocked"


subsection \<open>Opening and rewinding\<close>

text \<open>\<open>file\<close> is the content of the trace file, \<open>None\<close> when it cannot be opened.\<close>

definition OpenAndReadHeader ::
    "bytes option \<Rightarrow> TraceLimits \<Rightarrow> Replayer Result" where
  "OpenAndReadHeader file limits =
     (case file of
        None \<Rightarrow> Inl (mk_status NotFound ''open trace input failed'')
      | Some content \<Rightarrow>
        (case ReadExact \<lparr>file_bytes = content, file_pos = 0, eofbit = False, failbit = False\<rparr>
                kFileHeaderBytes False of (rd, header, input) \<Rightarrow>
           if rd \<noteq> StreamOk then Inl (TraceError ''trace header is truncated'')
           else case parse_file_header header of
             Inl e \<Rightarrow> Inl e
           | Inr info \<Rightarrow>
               Inr \<lparr>rp_limits = limits, rp_input = input, rp_info = info,
                 rp_expected_sequence = 1, rp_last_offset_ns = 0, rp_eof = False,
                 rp_terminal_error = None, rp_stats = zero_replay_stats\<rparr>))"

text \<open>\<open>thrown\<close> is an exception while the reader is built, such as an allocation failure.\<close>

definition Open :: "string option \<Rightarrow> string \<Rightarrow> bytes option \<Rightarrow> TraceLimits \<Rightarrow> Replayer Result" where
  "Open thrown path file limits =
     (if path = [] then Inl (mk_status InvalidArgument ''replayer requires a trace path'')
      else if \<not> ok (ValidateLimits limits) then Inl (ValidateLimits limits)
      else case thrown of
        Some what \<Rightarrow> Inl (mk_status TransportError (''open replayer failed: '' @ what))
      | None \<Rightarrow> OpenAndReadHeader file limits)"

text \<open>\<open>seek_ok\<close> tells whether \<open>seekg\<close> succeeded; \<open>clear\<close> has reset the state bits before it.\<close>

definition Reset :: "bool \<Rightarrow> Replayer \<Rightarrow> Status \<times> Replayer" where
  "Reset seek_ok s =
     (let cleared = (rp_input s)\<lparr>eofbit := False, failbit := False\<rparr> in
      if \<not> seek_ok
      then (TraceError ''seek trace input failed'', s\<lparr>rp_input := cleared\<lparr>failbit := True\<rparr>\<rparr>)
      else (OkStatus,
        s\<lparr>rp_input := cleared\<lparr>file_pos := kFileHeaderBytes\<rparr>,
          rp_expected_sequence := 1, rp_last_offset_ns := 0, rp_eof := False,
          rp_terminal_error := None, rp_stats := zero_replay_stats\<rparr>))"



subsection \<open>Reading from a stream in good state\<close>

definition trace_of :: "PendingRecord \<Rightarrow> TraceRecord" where
  "trace_of r =
     \<lparr>tr_record_sequence = pr_record_sequence r,
      tr_monotonic_offset_ns = pr_monotonic_offset_ns r,
      tr_channel = pr_channel r, tr_message_type = pr_message_type r,
      tr_message = pr_message r, tr_checksum = Crc32 (record_body r)\<rparr>"

definition pending_of :: "TraceRecord \<Rightarrow> PendingRecord" where
  "pending_of t =
     \<lparr>pr_record_sequence = tr_record_sequence t,
      pr_monotonic_offset_ns = tr_monotonic_offset_ns t,
      pr_channel = tr_channel t, pr_message_type = tr_message_type t,
      pr_message = tr_message t\<rparr>"

lemma pending_of_trace_of [simp]: "pending_of (trace_of r) = r"
  by (simp add: pending_of_def trace_of_def)

definition stream_at :: "ifstream \<Rightarrow> bytes \<Rightarrow> bool" where
  "stream_at input rest \<longleftrightarrow>
     \<not> eofbit input \<and> \<not> failbit input \<and> file_pos input \<le> length (file_bytes input) \<and>
     drop (file_pos input) (file_bytes input) = rest"

definition ready_at :: "Replayer \<Rightarrow> bytes \<Rightarrow> bool" where
  "ready_at s rest \<longleftrightarrow>
     rp_terminal_error s = None \<and> \<not> rp_eof s \<and> stream_at (rp_input s) rest"

definition skip_bytes :: "nat \<Rightarrow> ifstream \<Rightarrow> ifstream" where
  "skip_bytes n input = input\<lparr>file_pos := file_pos input + n\<rparr>"

definition advance :: "nat \<Rightarrow> Replayer \<Rightarrow> Replayer" where
  "advance n s = s\<lparr>rp_input := skip_bytes n (rp_input s)\<rparr>"

lemma skip_bytes_add [simp]: "skip_bytes m (skip_bytes n input) = skip_bytes (n + m) input"
  by (simp add: skip_bytes_def add.assoc)

lemma stream_at_skip:
  "stream_at input (xs @ rest) \<Longrightarrow> stream_at (skip_bytes (length xs) input) rest"
proof -
  assume a: "stream_at input (xs @ rest)"
  then have "length (file_bytes input) - file_pos input = length xs + length rest"
    by (simp add: stream_at_def flip: length_append length_drop)
  with a show ?thesis
    by (auto simp: stream_at_def skip_bytes_def add.commute simp flip: drop_drop)
qed

lemma ReadExact_ok:
  "stream_at input (xs @ rest) \<Longrightarrow>
     ReadExact input (length xs) f = (StreamOk, xs, skip_bytes (length xs) input)"
  by (auto simp: ReadExact_def stream_read_def stream_at_def skip_bytes_def Let_def)

lemma ReadExact_short:
  assumes "stream_at input rest" and "length rest < n"
  shows "ReadExact input n f =
     (if f \<and> rest = [] then StreamEof else StreamTruncated, rest,
      (skip_bytes (length rest) input)\<lparr>eofbit := True, failbit := True\<rparr>)"
  using assms
  by (auto simp: ReadExact_def stream_read_def stream_at_def skip_bytes_def Let_def)


subsection \<open>What the writer wrote is what the reader returns\<close>

lemma fixed_header_sizes:
  assumes "ok (ValidateLimits limits)" and "within_limits limits r"
  shows "unat (fx_total (fixed_header_of r)) = record_size r"
    and "unat (fx_channel_size (fixed_header_of r)) = length (pr_channel r)"
    and "unat (fx_type_size (fixed_header_of r)) = length (pr_message_type r)"
    and "unat (fx_payload_size (fixed_header_of r)) = length (payload (pr_message r))"
  using within_limits_sizes [OF assms]
  by (simp_all add: fixed_header_of_def Let_def unat_of_nat_less)

lemma unat_neq_0: "(w :: 'a::len word) \<noteq> 0" if "unat w \<noteq> 0"
  using that by auto

lemma check_frame_written:
  assumes "ok (ValidateLimits limits)" and "within_limits limits r"
  shows "check_frame limits (fixed_header_of r) = None"
proof -
  note sz = fixed_header_sizes [OF assms] within_limits_sizes [OF assms]
  have "fx_channel_size (fixed_header_of r) \<noteq> 0" and "fx_type_size (fixed_header_of r) \<noteq> 0"
    using assms(2) sz by (auto intro!: unat_neq_0 simp: within_limits_def)
  moreover have "kMinimumRecordBytes \<le> record_size r" by (simp add: record_size_def)
  moreover have "fx_magic (fixed_header_of r) = kRecordMagic"
    "fx_version (fixed_header_of r) = kRecordVersion" "fx_flags (fixed_header_of r) = 0"
    "fx_envelope_reserved (fixed_header_of r) = 0"
    by (simp_all add: fixed_header_of_def Let_def)
  ultimately show ?thesis
    using assms(2) sz
    by (simp add: check_frame_def checked_total_eq within_limits_def size_max_def
        flip: record_size_def)
qed

lemma materialize_written:
  assumes "ok (ValidateLimits limits)" and "within_limits limits r"
  shows "materialize (fixed_header_of r) (record_bytes r) (Crc32 (record_body r)) = trace_of r"
proof -
  note sz = fixed_header_sizes [OF assms]
  have "fx_record_sequence (fixed_header_of r) = pr_record_sequence r"
    "fx_monotonic_offset_ns (fixed_header_of r) = pr_monotonic_offset_ns r"
    by (simp_all add: fixed_header_of_def Let_def)
  moreover have
    "\<lparr>version = fx_envelope_version h, trace_id = fx_trace_id h,
      span_id = fx_span_id h, parent_span_id = fx_parent_span_id h,
      sequence = fx_sequence h, source_timestamp_ns = fx_source_timestamp_ns h,
      publish_timestamp_ns = fx_publish_timestamp_ns h,
      source_generation = fx_source_generation h, priority = fx_priority_bits h\<rparr> =
     envelope (pr_message r)" if "h = fixed_header_of r" for h
    by (simp add: that fixed_header_of_def Let_def)
  ultimately show ?thesis
    by (simp add: materialize_def trace_of_def sz Let_def record_bytes_def record_body_def
        codec_simps)
qed

lemma NextLocked_written:
  assumes at: "ready_at s (record_bytes r @ rest)"
    and lim: "ok (ValidateLimits (rp_limits s))" "within_limits (rp_limits s) r"
    and seq: "pr_record_sequence r = rp_expected_sequence s"
    and mono: "pr_record_sequence r > 1 \<longrightarrow> rp_last_offset_ns s \<le> pr_monotonic_offset_ns r"
    and mem: "\<And>n. mem n = None"
  shows "NextLocked mem s =
     (Inr (Some (trace_of r)), accept_record (trace_of r) (advance (record_size r) s))"
proof -
  let ?h = "fixed_header_of r"
  let ?fixed = "encode_fixed ?h"
  let ?tail = "bytes_of_string (pr_channel r) @ bytes_of_string (pr_message_type r) @
      payload (pr_message r) @ AppendU32 [] (Crc32 (record_body r))"
  have split: "record_bytes r = ?fixed @ ?tail"
    by (simp add: record_bytes_def record_body_def)
  have lt: "length ?tail = record_size r - kRecordFixedBytes"
    by (simp add: codec_simps record_size_def trace_consts)
  have ge: "kMinimumRecordBytes \<le> record_size r" by (simp add: record_size_def)
  have st: "stream_at (rp_input s) (?fixed @ ?tail @ rest)"
    using at by (simp add: ready_at_def split)
  have r1: "ReadExact (rp_input s) kRecordFixedBytes True =
      (StreamOk, ?fixed, skip_bytes kRecordFixedBytes (rp_input s))"
    using ReadExact_ok [OF st] by (simp add: codec_simps)
  have r2: "ReadExact (skip_bytes kRecordFixedBytes (rp_input s))
        (record_size r - kRecordFixedBytes) False =
      (StreamOk, ?tail, skip_bytes (record_size r) (rp_input s))"
    using ReadExact_ok [OF stream_at_skip [OF st], of False] ge
    unfolding lt length_encode_fixed skip_bytes_add by (simp add: trace_consts)
  have crc_at: "ReadU32 (record_bytes r) (record_size r - kChecksumBytes) =
      Some (Crc32 (record_body r), record_size r)"
    using ge by (simp add: record_bytes_def u32le.rd_shift length_record_body u32le.rd_only trace_consts)
  have body: "take (record_size r - kChecksumBytes) (record_bytes r) = record_body r"
    by (simp add: record_bytes_def length_record_body)
  have ff: "first_failure mem ns = None" for ns
    by (induction ns) (simp_all add: mem)
  have hs: "fx_record_sequence ?h = pr_record_sequence r"
    "fx_monotonic_offset_ns ?h = pr_monotonic_offset_ns r"
    by (simp_all add: fixed_header_of_def Let_def)
  have nm: "\<not> (rp_expected_sequence s > 1 \<and> pr_monotonic_offset_ns r < rp_last_offset_ns s)"
    using seq mono by auto
  have "NextLocked mem s = NextBody mem ?fixed ?h (advance kRecordFixedBytes s)"
    using at lim
    by (simp add: NextLocked_def ready_at_def r1 decode_encode_fixed check_frame_written advance_def)
  also have "\<dots> = (Inr (Some (trace_of r)), accept_record (trace_of r) (advance (record_size r) s))"
    using nm seq
    by (simp add: NextBody_def fixed_header_sizes [OF lim] mem advance_def r2 Let_def
        crc_at body hs ff materialize_written [OF lim] del: first_failure.simps flip: split) blast
  finally show ?thesis .
qed


subsection \<open>Errors are final\<close>

lemma NextLocked_sticky: "rp_terminal_error s = Some e \<Longrightarrow> NextLocked mem s = (Inl e, s)"
  by (simp add: NextLocked_def)

lemma NextBody_error:
  "NextBody mem fixed h s = (Inl e, s') \<Longrightarrow> rp_terminal_error s' = Some e"
  by (auto simp: NextBody_def fail_read_def fail_memory_def Let_def
      split: option.splits prod.splits if_splits)

lemma NextLocked_error:
  "NextLocked mem s = (Inl e, s') \<Longrightarrow> rp_terminal_error s' = Some e"
  by (auto simp: NextLocked_def fail_read_def Let_def dest: NextBody_error
      split: option.splits prod.splits StreamRead.splits if_splits)

lemma NextLocked_end:
  assumes "ready_at s []"
  shows "\<exists>s'. NextLocked mem s = (Inr None, s') \<and> NextLocked mem s' = (Inr None, s') \<and>
    rp_stats s' = rp_stats s"
  using assms ReadExact_short [of "rp_input s" "[]" kRecordFixedBytes True]
  by (auto simp: NextLocked_def ready_at_def kRecordFixedBytes_def Let_def)


subsection \<open>A torn tail is reported, never returned\<close>

definition torn_detail :: "nat \<Rightarrow> string" where
  "torn_detail k = (if k < kRecordFixedBytes then ''trace record header is truncated''
     else ''trace record body is truncated'')"

lemma NextLocked_torn:
  assumes at: "ready_at s (take k (record_bytes r))"
    and k: "0 < k" "k < record_size r"
    and lim: "ok (ValidateLimits (rp_limits s))" "within_limits (rp_limits s) r"
    and mem: "\<And>n. mem n = None"
  shows "\<exists>s'. NextLocked mem s = (Inl (TraceError (torn_detail k)), s') \<and>
    rp_stats s' = bump CountTruncated (rp_stats s)"
proof (cases "k < kRecordFixedBytes")
  case True
  have "length (take k (record_bytes r)) < kRecordFixedBytes"
    using True by simp
  moreover have "take k (record_bytes r) \<noteq> []"
    using k length_record_bytes [of r] by (cases "record_bytes r") auto
  ultimately show ?thesis
    using at ReadExact_short [of "rp_input s" "take k (record_bytes r)" kRecordFixedBytes True]
    by (auto simp: NextLocked_def ready_at_def fail_read_def Let_def torn_detail_def True)
next
  case False
  let ?h = "fixed_header_of r"
  let ?fixed = "encode_fixed ?h"
  let ?part = "take (k - kRecordFixedBytes) (drop kRecordFixedBytes (record_bytes r))"
  have "take kRecordFixedBytes (record_bytes r) = ?fixed"
    by (simp add: record_bytes_def record_body_def codec_simps)
  then have split: "take k (record_bytes r) = ?fixed @ ?part"
    using False take_add [of kRecordFixedBytes "k - kRecordFixedBytes" "record_bytes r"] by simp
  have st: "stream_at (rp_input s) (?fixed @ ?part)"
    using at by (simp add: ready_at_def split)
  have r1: "ReadExact (rp_input s) kRecordFixedBytes True =
      (StreamOk, ?fixed, skip_bytes kRecordFixedBytes (rp_input s))"
    using ReadExact_ok [OF st] by (simp add: codec_simps)
  have st2: "stream_at (skip_bytes kRecordFixedBytes (rp_input s)) ?part"
    using stream_at_skip [OF st] by (simp add: codec_simps)
  have "length ?part < record_size r - kRecordFixedBytes"
    using k False by (simp add: codec_simps)
  from ReadExact_short [OF st2 this, of False]
  have "fst (ReadExact (skip_bytes kRecordFixedBytes (rp_input s))
      (record_size r - kRecordFixedBytes) False) = StreamTruncated"
    by simp
  then obtain got input' where r2: "ReadExact (skip_bytes kRecordFixedBytes (rp_input s))
      (record_size r - kRecordFixedBytes) False = (StreamTruncated, got, input')"
    by (metis prod.collapse)
  have "NextLocked mem s = NextBody mem ?fixed ?h (advance kRecordFixedBytes s)"
    using at lim
    by (simp add: NextLocked_def ready_at_def r1 decode_encode_fixed check_frame_written advance_def)
  also have "\<dots> = fail_read CountTruncated ''trace record body is truncated''
      (s\<lparr>rp_input := input'\<rparr>)"
    by (simp add: NextBody_def fixed_header_sizes [OF lim] mem advance_def r2)
  finally show ?thesis using False by (auto simp: fail_read_def torn_detail_def)
qed


subsection \<open>Only well-formed records are returned\<close>

lemma encode_decode_fixed:
  assumes "decode_fixed fixed = Some h" and "length fixed = kRecordFixedBytes"
  shows "encode_fixed h = fixed"
proof -
  have last: "take 8 (drop 104 fixed) = drop 104 fixed"
    using assms(2) by (simp add: kRecordFixedBytes_def)
  have first: "take 4 fixed = take 4 (drop 0 fixed)" by simp
  from assms(1) have
    "encode_fixed h = take 4 (drop 0 fixed) @ take 2 (drop 4 fixed) @ take 2 (drop 6 fixed) @
       take 8 (drop 8 fixed) @ take 8 (drop 16 fixed) @ take 8 (drop 24 fixed) @
       take 2 (drop 32 fixed) @ take 2 (drop 34 fixed) @ take 4 (drop 36 fixed) @
       take 8 (drop 40 fixed) @ take 8 (drop 48 fixed) @ take 8 (drop 56 fixed) @
       take 8 (drop 64 fixed) @ take 8 (drop 72 fixed) @ take 8 (drop 80 fixed) @
       take 8 (drop 88 fixed) @ take 4 (drop 96 fixed) @ take 4 (drop 100 fixed) @
       take 8 (drop 104 fixed)"
    by (auto simp: decode_fixed_def encode_fixed_def bind_eq_Some_conv u16le.rd_Some_iff
        u32le.rd_Some_iff u64le.rd_Some_iff split: if_splits)
  also have "\<dots> = drop 0 fixed"
    unfolding last by (simp only: slice_step [of _ _ _ fixed] numeral_plus_numeral add_num_simps
        add_0 refl)
  finally show ?thesis by simp
qed

lemma check_frame_None:
  assumes "check_frame limits h = None"
  shows "fx_magic h = kRecordMagic" "fx_version h = kRecordVersion" "fx_flags h = 0"
    "fx_envelope_reserved h = 0" "fx_channel_size h \<noteq> 0" "fx_type_size h \<noteq> 0"
    "unat (fx_channel_size h) \<le> max_channel_bytes limits"
    "unat (fx_type_size h) \<le> max_message_type_bytes limits"
    "unat (fx_payload_size h) \<le> max_payload_bytes limits"
    "unat (fx_total h) = kMinimumRecordBytes + unat (fx_channel_size h) + unat (fx_type_size h) +
       unat (fx_payload_size h)"
  using assms by (auto simp: check_frame_def checked_total_eq split: if_splits)

lemma ReadExact_StreamOk:
  assumes "ReadExact input n f = (StreamOk, got, input')" and "0 < n"
  shows "got = take n (drop (file_pos input) (file_bytes input))" "length got = n"
    "input' = skip_bytes n input" "\<not> eofbit input" "\<not> failbit input"
  using assms
  by (auto simp: ReadExact_def stream_read_def skip_bytes_def Let_def split: if_splits)


lemma NextBody_Some:
  assumes "NextBody mem fixed h s = (Inr (Some t), s')"
  obtains remainder stored where
    "ReadExact (rp_input s) (unat (fx_total h) - kRecordFixedBytes) False =
       (StreamOk, remainder, rp_input s')"
    "ReadU32 (fixed @ remainder) (unat (fx_total h) - kChecksumBytes) = Some (stored, unat (fx_total h))"
    "Crc32 (take (unat (fx_total h) - kChecksumBytes) (fixed @ remainder)) = stored"
    "fx_record_sequence h = rp_expected_sequence s"
    "\<not> (fx_record_sequence h > 1 \<and> fx_monotonic_offset_ns h < rp_last_offset_ns s)"
    "t = materialize h (fixed @ remainder) stored"
    "s' = accept_record t (s\<lparr>rp_input := rp_input s'\<rparr>)"
  using assms
  by (auto simp: NextBody_def fail_read_def fail_memory_def accept_record_def Let_def
      split: option.splits prod.splits if_splits)

lemma NextLocked_Some:
  assumes "NextLocked mem s = (Inr (Some t), s')"
  obtains fixed h where
    "rp_terminal_error s = None" "\<not> rp_eof s"
    "ReadExact (rp_input s) kRecordFixedBytes True =
       (StreamOk, fixed, skip_bytes kRecordFixedBytes (rp_input s))"
    "decode_fixed fixed = Some h" "check_frame (rp_limits s) h = None"
    "NextBody mem fixed h (advance kRecordFixedBytes s) = (Inr (Some t), s')"
proof -
  obtain rd fixed input where rd: "ReadExact (rp_input s) kRecordFixedBytes True = (rd, fixed, input)"
    by (metis prod_cases3)
  from assms have ok: "rd = StreamOk"
    by (auto simp: NextLocked_def fail_read_def rd Let_def
        split: option.splits StreamRead.splits if_splits)
  from rd ok have "input = skip_bytes kRecordFixedBytes (rp_input s)"
    using ReadExact_StreamOk(3) [of "rp_input s" kRecordFixedBytes True fixed input]
    by (simp add: kRecordFixedBytes_def)
  with assms rd ok that show ?thesis
    by (auto simp: NextLocked_def fail_read_def advance_def Let_def
        split: option.splits if_splits)
qed

lemma pending_of_materialize:
  fixes stored :: u32
  assumes frame: "check_frame limits h = None"
    and len: "length record_data = unat (fx_total h)"
  defines "r \<equiv> pending_of (materialize h record_data stored)"
  shows "fixed_header_of r = h" "within_limits limits r" "record_size r = unat (fx_total h)"
    "drop kRecordFixedBytes (take (unat (fx_total h) - kChecksumBytes) record_data) =
       bytes_of_string (pr_channel r) @ bytes_of_string (pr_message_type r) @ payload (pr_message r)"
proof -
  note frame = check_frame_None [OF frame]
  let ?c = "unat (fx_channel_size h)" and ?t = "unat (fx_type_size h)"
    and ?p = "unat (fx_payload_size h)"
  have total_eq: "unat (fx_total h) = 116 + ?c + ?t + ?p"
    using frame(10) by (simp add: trace_consts)
  have ch: "bytes_of_string (pr_channel r) = take ?c (drop 112 record_data)"
    and ty: "bytes_of_string (pr_message_type r) = take ?t (drop (112 + ?c) record_data)"
    and pl: "payload (pr_message r) = take ?p (drop (112 + ?c + ?t) record_data)"
    by (simp_all add: r_def pending_of_def materialize_def Let_def kRecordFixedBytes_def)
  have lc: "length (pr_channel r) = ?c" and lt: "length (pr_message_type r) = ?t"
    and lp: "length (payload (pr_message r)) = ?p"
    using ch ty pl len total_eq
    by (simp_all add: r_def pending_of_def materialize_def Let_def kRecordFixedBytes_def)
  show sz: "record_size r = unat (fx_total h)"
    by (simp add: record_size_def lc lt lp total_eq trace_consts)
  show "fixed_header_of r = h"
    using frame(1-4)
    by (intro FixedHeader.equality)
      (simp_all add: fixed_header_of_def Let_def sz lc lt lp, simp_all add: r_def pending_of_def
        materialize_def Let_def)
  show "within_limits limits r"
    using frame lc lt lp by (auto simp: within_limits_def unat_eq_zero)
  have "drop 112 (take (112 + (?c + ?t + ?p)) record_data) =
      take (?c + ?t + ?p) (drop 112 record_data)"
    by (simp add: drop_take)
  also have "\<dots> = take ?c (drop 112 record_data) @ take ?t (drop (112 + ?c) record_data) @
      take ?p (drop (112 + ?c + ?t) record_data)"
    by (simp only: take_add drop_drop append_assoc) (simp add: ac_simps)
  finally show "drop kRecordFixedBytes (take (unat (fx_total h) - kChecksumBytes) record_data) =
      bytes_of_string (pr_channel r) @ bytes_of_string (pr_message_type r) @ payload (pr_message r)"
    by (simp add: ch ty pl total_eq kRecordFixedBytes_def kChecksumBytes_def ac_simps)
qed

lemma NextLocked_sound:
  assumes "NextLocked mem s = (Inr (Some t), s')"
  defines "r \<equiv> pending_of t"
  shows "take (record_size r) (drop (file_pos (rp_input s)) (file_bytes (rp_input s))) = record_bytes r"
    and "t = trace_of r" and "within_limits (rp_limits s) r"
    and "pr_record_sequence r = rp_expected_sequence s"
    and "pr_record_sequence r > 1 \<longrightarrow> rp_last_offset_ns s \<le> pr_monotonic_offset_ns r"
    and "s' = accept_record t (advance (record_size r) s)"
proof -
  obtain fixed h where good: "ReadExact (rp_input s) kRecordFixedBytes True =
       (StreamOk, fixed, skip_bytes kRecordFixedBytes (rp_input s))"
    and dec: "decode_fixed fixed = Some h" and frame: "check_frame (rp_limits s) h = None"
    and body: "NextBody mem fixed h (advance kRecordFixedBytes s) = (Inr (Some t), s')"
    using assms(1) by (rule NextLocked_Some)
  let ?n = "unat (fx_total h)"
  have n: "kRecordFixedBytes + 4 \<le> ?n"
    using check_frame_None(10) [OF frame] by (simp add: trace_consts)
  from body obtain remainder stored where
    rest: "ReadExact (skip_bytes kRecordFixedBytes (rp_input s)) (?n - kRecordFixedBytes) False =
       (StreamOk, remainder, rp_input s')"
    and crc_at: "ReadU32 (fixed @ remainder) (?n - kChecksumBytes) = Some (stored, ?n)"
    and crc: "Crc32 (take (?n - kChecksumBytes) (fixed @ remainder)) = stored"
    and sq: "fx_record_sequence h = rp_expected_sequence s"
    and mono: "\<not> (fx_record_sequence h > 1 \<and> fx_monotonic_offset_ns h < rp_last_offset_ns s)"
    and t: "t = materialize h (fixed @ remainder) stored"
    and s': "s' = accept_record t (s\<lparr>rp_input := rp_input s'\<rparr>)"
    by (elim NextBody_Some) (auto simp: advance_def)
  have pos: "0 < kRecordFixedBytes" "0 < ?n - kRecordFixedBytes"
    using n by (simp_all add: kRecordFixedBytes_def)
  note f = ReadExact_StreamOk [OF good pos(1)] and g = ReadExact_StreamOk [OF rest pos(2)]
  let ?file = "drop (file_pos (rp_input s)) (file_bytes (rp_input s))"
  let ?data = "fixed @ remainder"
  have data: "?data = take ?n ?file"
    using f(1) g(1) n take_add [of kRecordFixedBytes "?n - kRecordFixedBytes" ?file]
    by (simp add: skip_bytes_def add.commute)
  have len: "length ?data = ?n"
    using f(2) g(2) n by simp
  note m = pending_of_materialize [OF frame len, of stored, folded t, folded r_def]
  have fixed: "encode_fixed h = fixed"
    using dec f(2) by (rule encode_decode_fixed)
  have bd: "record_body r = take (?n - kChecksumBytes) ?data"
  proof -
    have "take (?n - kChecksumBytes) ?data =
        fixed @ drop kRecordFixedBytes (take (?n - kChecksumBytes) ?data)"
      using f(2) n by (simp add: trace_consts)
    then show ?thesis by (simp only: m(4) record_body_def m(1) fixed)
  qed
  have tail: "AppendU32 [] stored = drop (?n - kChecksumBytes) ?data"
    using crc_at len by (simp add: u32le.rd_Some_iff kChecksumBytes_def)
  have "record_bytes r = ?data"
    unfolding record_bytes_def bd crc tail by (rule append_take_drop_id)
  then show "take (record_size r) ?file = record_bytes r"
    by (simp add: m(3) data)
  show "t = trace_of r"
    using crc bd by (simp add: t r_def trace_of_def pending_of_def materialize_def Let_def)
  show "within_limits (rp_limits s) r" by (rule m(2))
  show "pr_record_sequence r = rp_expected_sequence s"
    "pr_record_sequence r > 1 \<longrightarrow> rp_last_offset_ns s \<le> pr_monotonic_offset_ns r"
    using sq mono m(1) by (auto simp: fixed_header_of_def Let_def)
  have "rp_input s' = skip_bytes ?n (rp_input s)"
    using g(3) n by (simp add: trace_consts)
  then show "s' = accept_record t (advance (record_size r) s)"
    using s' by (simp add: advance_def m(3))
qed


subsection \<open>Corruption of up to four consecutive bytes is detected\<close>

lemma result_option_cases:
  fixes p :: "'a option Result \<times> 's"
  obtains (failed) e s' where "p = (Inl e, s')"
  | (none) s' where "p = (Inr None, s')"
  | (some) t s' where "p = (Inr (Some t), s')"
  by (metis option.exhaust prod.collapse sum.exhaust)

lemma record_residue: "crc_update (record_bytes r) 0xffffffff = (crc_bit ^^ 32) 0xffffffff"
  by (simp add: record_bytes_def AppendU32_le crc_residue)

lemma record_slices:
  "take 8 (drop 8 (record_bytes r)) = le_bytes 8 (of_nat (record_size r) :: u64)"
  "take 16 (drop 96 (record_bytes r)) =
     le_bytes 4 (of_nat (length (pr_channel r)) :: u32) @
     le_bytes 4 (of_nat (length (pr_message_type r)) :: u32) @
     le_bytes 8 (of_nat (length (payload (pr_message r))) :: u64)"
  by (simp_all add: record_bytes_def record_body_def encode_fixed_def append_le fixed_header_of_def
      Let_def)

lemma record_size_slices:
  assumes "ok (ValidateLimits l)" "within_limits l r" "within_limits l r'"
    and "take 8 (drop 8 (record_bytes r)) = take 8 (drop 8 (record_bytes r')) \<or>
      take 16 (drop 96 (record_bytes r)) = take 16 (drop 96 (record_bytes r'))"
  shows "record_size r = record_size r'"
  using assms(4)
proof
  note sz = within_limits_sizes [OF assms(1,2)] within_limits_sizes [OF assms(1,3)]
  assume "take 8 (drop 8 (record_bytes r)) = take 8 (drop 8 (record_bytes r'))"
  then have "(of_nat (record_size r) :: u64) = of_nat (record_size r')"
    by (auto simp: record_slices dest: le_bytes_inj [rotated])
  then show ?thesis
    by (rule of_nat_word_inj) (use sz in simp_all)
next
  note sz = within_limits_sizes [OF assms(1,2)] within_limits_sizes [OF assms(1,3)]
  assume "take 16 (drop 96 (record_bytes r)) = take 16 (drop 96 (record_bytes r'))"
  then have eq: "(of_nat (length (pr_channel r)) :: u32) = of_nat (length (pr_channel r'))"
    "(of_nat (length (pr_message_type r)) :: u32) = of_nat (length (pr_message_type r'))"
    "(of_nat (length (payload (pr_message r))) :: u64) = of_nat (length (payload (pr_message r')))"
    by (auto simp: record_slices dest: le_bytes_inj [rotated])
  have "length (pr_channel r) = length (pr_channel r')"
    by (rule of_nat_word_inj [OF eq(1)]) (use sz in simp_all)
  moreover have "length (pr_message_type r) = length (pr_message_type r')"
    by (rule of_nat_word_inj [OF eq(2)]) (use sz in simp_all)
  moreover have "length (payload (pr_message r)) = length (payload (pr_message r'))"
    by (rule of_nat_word_inj [OF eq(3)]) (use sz in simp_all)
  ultimately show ?thesis by (simp add: record_size_def)
qed

lemma NextLocked_end_iff:
  assumes "ready_at s (b # rest)"
  shows "NextLocked mem s \<noteq> (Inr None, s')"
proof
  assume none: "NextLocked mem s = (Inr None, s')"
  have st: "stream_at (rp_input s) (b # rest)"
    using assms by (simp add: ready_at_def)
  have "fst (ReadExact (rp_input s) kRecordFixedBytes True) \<noteq> StreamEof"
    using ReadExact_short [OF st, of kRecordFixedBytes True]
      ReadExact_ok [of "rp_input s" "take kRecordFixedBytes (b # rest)"
        "drop kRecordFixedBytes (b # rest)" True] st
    by (cases "length (b # rest) < kRecordFixedBytes") (auto split: if_splits simp: min_def)
  with none assms show False
    by (auto simp: NextLocked_def ready_at_def fail_read_def NextBody_def fail_memory_def Let_def
        split: option.splits prod.splits StreamRead.splits if_splits)
qed

lemma NextLocked_burst:
  assumes at: "ready_at s (pre @ mid' @ post @ rest)"
    and wrote: "record_bytes r = pre @ mid @ post"
    and lim: "ok (ValidateLimits (rp_limits s))" "within_limits (rp_limits s) r"
    and burst: "length mid' = length mid" "length mid \<le> 4" "mid' \<noteq> mid"
  shows "\<exists>e s'. NextLocked mem s = (Inl e, s')"
proof (rule ccontr)
  assume contra: "\<nexists>e s'. NextLocked mem s = (Inl e, s')"
  let ?file = "pre @ mid' @ post @ rest"
  have content: "drop (file_pos (rp_input s)) (file_bytes (rp_input s)) = ?file"
    using at by (simp add: ready_at_def stream_at_def)
  have len: "length (pre @ mid @ post) = record_size r"
    by (simp flip: wrote add: length_record_bytes)
  have "length ?file \<noteq> 0" using burst by auto
  then obtain b bs where ne: "?file = b # bs" by (cases ?file) auto
  then obtain t s' where "NextLocked mem s = (Inr (Some t), s')"
    using contra NextLocked_end_iff [OF at [unfolded ne], of mem]
    by (cases "NextLocked mem s" rule: result_option_cases) blast+
  note sound = NextLocked_sound [OF this]
  define r' where "r' = pending_of t"
  have got: "record_bytes r' = take (record_size r') ?file" and lim': "within_limits (rp_limits s) r'"
    using sound by (simp_all add: r'_def content)
  have ge: "112 \<le> record_size q" for q by (simp add: record_size_def trace_consts)
  have here: "record_bytes r = take (record_size r) (pre @ mid @ post @ rest)"
    using len by (simp add: wrote)
  have slice: "take n (drop k (record_bytes r')) = take n (drop k ?file)" if "n + k \<le> 112" for n k
    unfolding got by (rule slice_take [OF order_trans [OF that ge]])
  have slice': "take n (drop k (record_bytes r)) = take n (drop k (pre @ mid @ post @ rest))"
    if "n + k \<le> 112" for n k
    unfolding here by (rule slice_take [OF order_trans [OF that ge]])
  have same: "take n (drop k (record_bytes r)) = take n (drop k (record_bytes r'))"
    if "n + k \<le> 112" "k + n \<le> length pre \<or> length pre + length mid \<le> k" for n k
    unfolding slice [OF that(1)] slice' [OF that(1)] using that(2) burst(1)
    by (intro slice_outside) simp_all
  have "8 + 8 \<le> length pre \<or> length pre + length mid \<le> 8 \<or>
      96 + 16 \<le> length pre \<or> length pre + length mid \<le> 96"
    using burst(2) by linarith
  then have "record_size r = record_size r'"
    using same [of 8 8] same [of 16 96]
    by (intro record_size_slices [OF lim lim']) auto
  then have "record_bytes r' = pre @ mid' @ post"
    using got len burst(1) by simp
  then have "crc_update (pre @ mid' @ post) 0xffffffff = crc_update (pre @ mid @ post) 0xffffffff"
    using record_residue [of r] record_residue [of r'] wrote by simp
  then have "mid' = mid"
    using burst by (intro crc_update_burst) simp_all
  with burst(3) show False by simp
qed


lemma ready_at_accept:
  assumes "ready_at s (record_bytes r @ rest)"
  shows "ready_at (accept_record t (advance (record_size r) s)) rest"
  using assms stream_at_skip [of "rp_input s" "record_bytes r" rest]
  by (simp add: ready_at_def accept_record_def advance_def length_record_bytes)

lemma ready_at_stats [simp]: "ready_at (s\<lparr>rp_stats := st\<rparr>) rest = ready_at s rest"
  by (simp add: ready_at_def)

lemma accept_record_simps [simp]:
  "rp_limits (accept_record t s) = rp_limits s"
  "rp_expected_sequence (accept_record t s) = rp_expected_sequence s + 1"
  "rp_last_offset_ns (accept_record t s) = tr_monotonic_offset_ns t"
  "records_delivered (rp_stats (accept_record t s)) = records_delivered (rp_stats s)"
  "records_read (rp_stats (accept_record t s)) = records_read (rp_stats s) + 1"
  by (simp_all add: accept_record_def)

lemma advance_simps [simp]:
  "rp_limits (advance n s) = rp_limits s"
  "rp_expected_sequence (advance n s) = rp_expected_sequence s"
  "rp_last_offset_ns (advance n s) = rp_last_offset_ns s"
  "rp_stats (advance n s) = rp_stats s"
  by (simp_all add: advance_def)




subsection \<open>Properties\<close>

definition demo_reader :: "bytes \<Rightarrow> Replayer" where
  "demo_reader content =
     \<lparr>rp_limits = demo_limits,
      rp_input = \<lparr>file_bytes = content, file_pos = 0, eofbit = False, failbit = False\<rparr>,
      rp_info = \<lparr>format_version = 1, wall_clock_start_ns = 0, monotonic_start_ns = 0\<rparr>,
      rp_expected_sequence = 1, rp_last_offset_ns = 0, rp_eof = False, rp_terminal_error = None,
      rp_stats = zero_replay_stats\<rparr>"

lemma demo_reader_ready: "ready_at (demo_reader content) content"
  by (simp add: ready_at_def stream_at_def demo_reader_def)

lemma demo_reader_limits [simp]:
  "rp_limits (demo_reader content) = demo_limits" "rp_expected_sequence (demo_reader content) = 1"
  "rp_last_offset_ns (demo_reader content) = 0"
  by (simp_all add: demo_reader_def)

lemma Open_written:
  assumes "path \<noteq> []" "ok (ValidateLimits limits)"
  shows "\<exists>s. Open None path (Some (BuildFileHeader wall_ns mono_ns @ rest)) limits = Inr s \<and>
    ready_at s rest \<and> rp_limits s = limits \<and> rp_expected_sequence s = 1 \<and>
    rp_last_offset_ns s = 0 \<and> file_bytes (rp_input s) = BuildFileHeader wall_ns mono_ns @ rest"
proof -
  let ?h = "BuildFileHeader wall_ns mono_ns"
  let ?in = "\<lparr>file_bytes = ?h @ rest, file_pos = 0, eofbit = False, failbit = False\<rparr>"
  have len: "length ?h = kFileHeaderBytes" by (rule length_BuildFileHeader)
  have at: "stream_at ?in (?h @ rest)" by (simp add: stream_at_def)
  have "ReadExact ?in kFileHeaderBytes False = (StreamOk, ?h, skip_bytes kFileHeaderBytes ?in)"
    using ReadExact_ok [OF at, of False] by (simp only: len)
  moreover have "stream_at (skip_bytes kFileHeaderBytes ?in) rest"
    using stream_at_skip [OF at] by (simp only: len)
  ultimately show ?thesis
    using assms
    by (simp add: Open_def OpenAndReadHeader_def parse_BuildFileHeader ready_at_def skip_bytes_def)
qed

text \<open>completeness of the reader. A record the writer serialised, with the expected sequence
  number and an offset that does not go back, is returned unchanged, the stream is left right
  behind it and the counters advance.\<close>

theorem next_reads_what_was_written:
  assumes "ready_at s (bs @ rest)" "SerializeRecord r = Inr bs"
    and "ok (ValidateLimits (rp_limits s))" "within_limits (rp_limits s) r"
    and "pr_record_sequence r = rp_expected_sequence s"
    and "pr_record_sequence r > 1 \<longrightarrow> rp_last_offset_ns s \<le> pr_monotonic_offset_ns r"
    and "\<And>n. mem n = None"
  shows "\<exists>s'. Next mem s = (Inr (Some (trace_of r)), s') \<and> ready_at s' rest \<and>
    rp_expected_sequence s' = rp_expected_sequence s + 1 \<and>
    records_read (rp_stats s') = records_read (rp_stats s) + 1"
proof -
  have bs: "bs = record_bytes r"
    using assms(2) SerializeRecord_within_limits [OF assms(3,4)] by simp
  show ?thesis
    using NextLocked_written [OF assms(1) [unfolded bs] assms(3-7)]
      ready_at_accept [OF assms(1) [unfolded bs]]
    by (simp add: Next_def)
qed

theorem next_reads_what_was_written_witness:
  "\<exists>s'. Next (\<lambda>_. None) (demo_reader (record_bytes demo_record @ [])) =
     (Inr (Some (trace_of demo_record)), s')"
proof -
  have "SerializeRecord demo_record = Inr (record_bytes demo_record)"
    using demo_limits_ok demo_record_ok by (rule SerializeRecord_within_limits)
  moreover have "pr_record_sequence demo_record = 1" by (simp add: demo_record_def)
  ultimately show ?thesis
    using next_reads_what_was_written
        [where bs = "record_bytes demo_record" and rest = "[]" and r = demo_record and
          mem = "\<lambda>_. None", OF demo_reader_ready]
      demo_limits_ok demo_record_ok by auto
qed

text \<open>C3: soundness of the reader. Whatever the bytes of the file, a record that is returned is
  exactly the serialisation found at the stream position, respects the limits, carries the
  expected sequence number, does not go back in time, and the stream moves right behind it.\<close>

theorem next_returns_only_what_is_there:
  assumes "Next mem s = (Inr (Some t), s')"
  shows "\<exists>r. t = trace_of r \<and> within_limits (rp_limits s) r \<and>
    take (record_size r) (drop (file_pos (rp_input s)) (file_bytes (rp_input s))) = record_bytes r \<and>
    tr_record_sequence t = rp_expected_sequence s \<and>
    (tr_record_sequence t > 1 \<longrightarrow> rp_last_offset_ns s \<le> tr_monotonic_offset_ns t) \<and>
    file_pos (rp_input s') = file_pos (rp_input s) + record_size r \<and>
    file_bytes (rp_input s') = file_bytes (rp_input s)"
proof -
  note sound = NextLocked_sound [OF assms [unfolded Next_def]]
  show ?thesis
    using sound
    by (intro exI [of _ "pending_of t"])
      (auto simp: pending_of_def accept_record_def advance_def skip_bytes_def)
qed

theorem next_returns_only_what_is_there_witness:
  "\<exists>r s'. Next (\<lambda>_. None) (demo_reader (record_bytes demo_record @ [])) =
       (Inr (Some (trace_of r)), s') \<and>
     take (record_size r) (record_bytes demo_record) = record_bytes r"
proof -
  let ?s = "demo_reader (record_bytes demo_record @ [])"
  have "NextLocked (\<lambda>_. None) ?s = (Inr (Some (trace_of demo_record)),
      accept_record (trace_of demo_record) (advance (record_size demo_record) ?s))"
    using demo_limits_ok demo_record_ok
    by (intro NextLocked_written [OF demo_reader_ready]) (simp_all add: demo_record_def)
  then have run: "Next (\<lambda>_. None) ?s = (Inr (Some (trace_of demo_record)),
      accept_record (trace_of demo_record) (advance (record_size demo_record) ?s))"
    by (simp add: Next_def)
  from next_returns_only_what_is_there [OF this] obtain r where
    "trace_of demo_record = trace_of r"
    "take (record_size r) (record_bytes demo_record) = record_bytes r"
    by (auto simp: demo_reader_def)
  with run show ?thesis by metis
qed

text \<open>C5: corruption. If up to four consecutive bytes of a written record, anywhere in it (framing,
  length fields, payload or the checksum itself), are replaced by different ones, the reader
  reports an error instead of a record, and so does every later read.\<close>

theorem next_detects_corruption:
  assumes "ready_at s (pre @ mid' @ post @ rest)" "record_bytes r = pre @ mid @ post"
    and "ok (ValidateLimits (rp_limits s))" "within_limits (rp_limits s) r"
    and "length mid' = length mid" "length mid \<le> 4" "mid' \<noteq> mid"
  shows "\<exists>e s'. Next mem s = (Inl e, s') \<and> Next mem' s' = (Inl e, s')"
proof -
  obtain e s' where "NextLocked mem s = (Inl e, s')"
    using NextLocked_burst [OF assms] by blast
  then show ?thesis
    using NextLocked_sticky [OF NextLocked_error] by (auto simp: Next_def)
qed

theorem next_detects_corruption_witness:
  "\<exists>e s'. Next (\<lambda>_. None) (demo_reader
     ([] @ [hd (record_bytes demo_record) + 1] @ tl (record_bytes demo_record) @ [])) = (Inl e, s') \<and>
     Next (\<lambda>_. None) s' = (Inl e, s')"
proof -
  have "record_bytes demo_record \<noteq> []"
    using length_record_bytes [of demo_record] by (auto simp: record_size_def trace_consts)
  then have "record_bytes demo_record =
      [] @ [hd (record_bytes demo_record)] @ tl (record_bytes demo_record)"
    by simp
  from next_detects_corruption [OF demo_reader_ready this, where mem = "\<lambda>_. None" and
      mem' = "\<lambda>_. None" and mid' = "[hd (record_bytes demo_record) + 1]" and rest = "[]"]
  show ?thesis using demo_limits_ok demo_record_ok by simp
qed

text \<open>errors are final, the end is final. After an error every further \<open>Next\<close> returns the same
  error and changes nothing; after the end of the file every further \<open>Next\<close> returns the end.\<close>

theorem next_errors_and_end_are_final:
  assumes "Next mem s = (res, s')" "\<nexists>t. res = Inr (Some t)"
  shows "Next mem' s' = (res, s')"
proof (cases res)
  case (Inl e)
  then show ?thesis
    using assms NextLocked_sticky [OF NextLocked_error] by (auto simp: Next_def)
next
  case (Inr found)
  then have "NextLocked mem s = (Inr None, s')"
    using assms by (cases found) (auto simp: Next_def)
  then have "rp_eof s' \<and> rp_terminal_error s' = None"
    by (auto simp: NextLocked_def fail_read_def NextBody_def fail_memory_def Let_def
        split: option.splits prod.splits StreamRead.splits if_splits)
  with Inr assms(2) show ?thesis
    by (cases found) (auto simp: Next_def NextLocked_def)
qed

theorem next_errors_and_end_are_final_witness:
  "\<exists>s'. Next (\<lambda>_. None) (demo_reader []) = (Inr None, s') \<and> Next (\<lambda>_. None) s' = (Inr None, s')"
proof -
  obtain s' where s': "Next (\<lambda>_. None) (demo_reader []) = (Inr None, s')"
    using NextLocked_end [OF demo_reader_ready, of "\<lambda>_. None"] by (auto simp: Next_def)
  from next_errors_and_end_are_final [OF this, of "\<lambda>_. None"] s' show ?thesis by auto
qed

text \<open>\<open>Reset\<close> makes a reader indistinguishable from one that was just opened on the same file,
  whatever was read and whatever error had been hit before.\<close>

theorem reset_reopens:
  assumes "Open None path (Some content) limits = Inr s0"
    and "file_bytes (rp_input s) = content" "rp_limits s = rp_limits s0" "rp_info s = rp_info s0"
  shows "Reset True s = (OkStatus, s0)"
proof -
  from assms(1) obtain header input info where
    rd: "ReadExact \<lparr>file_bytes = content, file_pos = 0, eofbit = False, failbit = False\<rparr>
      kFileHeaderBytes False = (StreamOk, header, input)"
    and s0: "s0 = \<lparr>rp_limits = limits, rp_input = input, rp_info = info,
      rp_expected_sequence = 1, rp_last_offset_ns = 0, rp_eof = False,
      rp_terminal_error = None, rp_stats = zero_replay_stats\<rparr>"
    by (auto simp: Open_def OpenAndReadHeader_def split: if_splits prod.splits sum.splits)
  have "input = \<lparr>file_bytes = content, file_pos = kFileHeaderBytes, eofbit = False, failbit = False\<rparr>"
    using ReadExact_StreamOk(3) [OF rd] by (simp add: skip_bytes_def kFileHeaderBytes_def)
  then show ?thesis
    using assms(2-4) s0 by (cases s) (cases "rp_input s", simp add: Reset_def Let_def)
qed

theorem reset_reopens_witness:
  "\<exists>s0 s. Open None ''t'' (Some (BuildFileHeader 5 10)) demo_limits = Inr s0 \<and>
     Next (\<lambda>_. None) s0 = (Inr None, s) \<and> s \<noteq> s0 \<and> Reset True s = (OkStatus, s0)"
proof -
  obtain s0 where s0: "Open None ''t'' (Some (BuildFileHeader 5 10)) demo_limits = Inr s0"
    "ready_at s0 []" "file_bytes (rp_input s0) = BuildFileHeader 5 10"
    using Open_written [OF _ demo_limits_ok, of "''t''" 5 10 "[]"] by auto
  let ?s = "s0\<lparr>rp_input := (rp_input s0)\<lparr>eofbit := True, failbit := True\<rparr>, rp_eof := True\<rparr>"
  have n: "NextLocked (\<lambda>_. None) s0 = (Inr None, ?s)"
    using s0(2) ReadExact_short [of "rp_input s0" "[]" kRecordFixedBytes True]
    by (auto simp: NextLocked_def ready_at_def kRecordFixedBytes_def skip_bytes_def Let_def)
  moreover have "?s \<noteq> s0"
    using s0(2) by (metis Replayer.select_convs(6) Replayer.surjective Replayer.update_convs(6) ready_at_def)
  moreover have "Reset True ?s = (OkStatus, s0)"
    by (rule reset_reopens [OF s0(1)]) (simp_all add: s0(3))
  ultimately show ?thesis using s0(1) by (auto simp: Next_def)
qed

end
