(* ===== verification/Replay_Loop.thy ===== *)
theory Replay_Loop
  imports Complex_Main Replayer
begin

text \<open>
  \<open>Replayer::Replay\<close> of \<open>record_replay.cpp\<close>: the loop that feeds the records of a trace to a
  callback, either as fast as possible or paced by the recorded offsets.

  The clock and the stop token are effects: \<open>clock_at env n\<close> is the \<open>n\<close>-th reading of
  \<open>steady_clock\<close> and \<open>stop_at env n\<close> the answer of the \<open>n\<close>-th \<open>stop_requested\<close>. The callback
  is a function of the record and of a state of its own; it is told how many readings of the
  clock precede it, so that it can observe the time. The speed of an accelerated replay is an
  exact rational, so the rounding of \<open>double\<close> and \<open>long double\<close> is not modelled. The pacing
  loop and the record loop carry fuel; the lemmas at the end say how much is enough.
\<close>

subsection \<open>Options, environment and state\<close>

datatype ReplayTiming = Original | Accelerated | AsFastAsPossible

datatype Speed = Finite rat | NonFinite

record ReplayOptions =
  timing :: ReplayTiming
  speed :: Speed

datatype CallbackOutcome = Returned Status | ThrewException string | ThrewUnknown

record ReplayEnv =
  clock_at :: "nat \<Rightarrow> time_point"
  stop_at :: "nat \<Rightarrow> bool"
  env_mem :: allocator

record 'u ReplayRun =
  run_reader :: Replayer
  run_ticks :: nat
  run_polls :: nat
  run_sleeps :: "duration list"
  run_user :: 'u

type_synonym 'u ReplayCallback = "TraceRecord \<Rightarrow> nat \<Rightarrow> 'u \<Rightarrow> CallbackOutcome \<times> 'u"

definition kWaitSlice :: duration where "kWaitSlice = 5000000"

definition tick :: "'u ReplayRun \<Rightarrow> 'u ReplayRun" where
  "tick w = w\<lparr>run_ticks := run_ticks w + 1\<rparr>"

definition poll :: "'u ReplayRun \<Rightarrow> 'u ReplayRun" where
  "poll w = w\<lparr>run_polls := run_polls w + 1\<rparr>"


subsection \<open>Pacing\<close>

definition speed_valid :: "ReplayOptions \<Rightarrow> bool" where
  "speed_valid opts =
     (case speed opts of
        NonFinite \<Rightarrow> False
      | Finite v \<Rightarrow> 0 < v \<and> (timing opts = Accelerated \<longrightarrow> 1 < v))"

definition divisor :: "ReplayOptions \<Rightarrow> rat" where
  "divisor opts =
     (case (timing opts, speed opts) of (Accelerated, Finite v) \<Rightarrow> v | _ \<Rightarrow> 1)"

text \<open>The time point a record is due at.\<close>

definition replay_target :: "ReplayOptions \<Rightarrow> time_point \<Rightarrow> u64 \<Rightarrow> u64 \<Rightarrow> time_point Result" where
  "replay_target opts replay_start first_offset offset_ns =
     (let relative_ns = offset_ns - first_offset;
          scaled = of_nat (unat relative_ns) / divisor opts in
      if scaled > of_int int64_max
      then Inl (TraceError ''replay timestamp exceeds nanosecond duration range'')
      else let scaled_duration = \<lfloor>scaled\<rfloor> in
        if scaled_duration > int64_max - replay_start
        then Inl (TraceError ''replay target time point would overflow'')
        else Inr (replay_start + scaled_duration))"

text \<open>One turn of the sleeping loop: at most five milliseconds of what remains.\<close>

definition wait_slice :: "ReplayEnv \<Rightarrow> time_point \<Rightarrow> 'u ReplayRun \<Rightarrow> 'u ReplayRun" where
  "wait_slice env target w =
     (let remaining = target - clock_at env (run_ticks w); w = tick w;
          slice = min remaining kWaitSlice in
      if slice > 0 then w\<lparr>run_sleeps := run_sleeps w @ [slice]\<rparr> else w)"

text \<open>The sleeping loop; \<open>True\<close> when the target is reached, \<open>False\<close> when cancelled.\<close>

fun wait_target :: "nat \<Rightarrow> ReplayEnv \<Rightarrow> time_point \<Rightarrow> 'u ReplayRun \<Rightarrow> (bool \<times> 'u ReplayRun) option" where
  "wait_target 0 env target w = None"
| "wait_target (Suc fuel) env target w =
     (if \<not> clock_at env (run_ticks w) < target then Some (True, tick w)
      else if stop_at env (run_polls w) then Some (False, poll (tick w))
      else wait_target fuel env target (wait_slice env target (poll (tick w))))"

definition observe_drift :: "ReplayEnv \<Rightarrow> time_point \<Rightarrow> 'u ReplayRun \<Rightarrow> 'u ReplayRun" where
  "observe_drift env target w =
     (let delivered_at = clock_at env (run_ticks w); w = tick w;
          drift = (if delivered_at > target then delivered_at - target else 0);
          s = run_reader w; st = rp_stats s in
      w\<lparr>run_reader := s\<lparr>rp_stats := st
        \<lparr>timing_observations := timing_observations st + 1,
         total_timing_drift := total_timing_drift st + drift,
         maximum_timing_drift := max (maximum_timing_drift st) drift\<rparr>\<rparr>\<rparr>)"

definition cancelled_status :: Status where
  "cancelled_status = mk_status Cancelled ''replay was cancelled''"

text \<open>Waiting for a record: \<open>Inl\<close> ends the replay with a status.\<close>

definition pace_record ::
    "nat \<Rightarrow> ReplayEnv \<Rightarrow> ReplayOptions \<Rightarrow> time_point \<Rightarrow> u64 \<Rightarrow> TraceRecord \<Rightarrow> 'u ReplayRun \<Rightarrow>
     (unit Result \<times> 'u ReplayRun) option" where
  "pace_record wait_fuel env opts replay_start first_offset r w =
     (case replay_target opts replay_start first_offset (tr_monotonic_offset_ns r) of
        Inl e \<Rightarrow> Some (Inl e, w)
      | Inr target \<Rightarrow>
        (case wait_target wait_fuel env target w of
           None \<Rightarrow> None
         | Some (False, w) \<Rightarrow> Some (Inl cancelled_status, w)
         | Some (True, w) \<Rightarrow> Some (Inr (), observe_drift env target w)))"

text \<open>The offset of the first record is the origin of the paced modes.\<close>

definition origin :: "u64 option \<Rightarrow> TraceRecord \<Rightarrow> u64" where
  "origin first_offset r =
     (case first_offset of None \<Rightarrow> tr_monotonic_offset_ns r | Some f \<Rightarrow> f)"

definition note_first :: "ReplayOptions \<Rightarrow> u64 option \<Rightarrow> TraceRecord \<Rightarrow> u64 option" where
  "note_first opts first_offset r =
     (if timing opts = AsFastAsPossible then first_offset else Some (origin first_offset r))"

definition maybe_pace ::
    "nat \<Rightarrow> ReplayEnv \<Rightarrow> ReplayOptions \<Rightarrow> time_point \<Rightarrow> u64 option \<Rightarrow> TraceRecord \<Rightarrow> 'u ReplayRun \<Rightarrow>
     (unit Result \<times> 'u ReplayRun) option" where
  "maybe_pace wait_fuel env opts replay_start first_offset r w =
     (if timing opts = AsFastAsPossible then Some (Inr (), w)
      else pace_record wait_fuel env opts replay_start (origin first_offset r) r w)"


subsection \<open>Delivering\<close>

definition callback_status :: "CallbackOutcome \<Rightarrow> Status" where
  "callback_status outcome =
     (case outcome of
        Returned st \<Rightarrow> st
      | ThrewException what \<Rightarrow> mk_status Internal (''replay callback threw: '' @ what)
      | ThrewUnknown \<Rightarrow> mk_status Internal ''replay callback threw'')"

definition deliver_record ::
    "'u ReplayCallback \<Rightarrow> TraceRecord \<Rightarrow> 'u ReplayRun \<Rightarrow> Status \<times> 'u ReplayRun" where
  "deliver_record callback r w =
     (case callback r (run_ticks w) (run_user w) of (outcome, user) \<Rightarrow>
      let st = callback_status outcome; w = w\<lparr>run_user := user\<rparr>; s = run_reader w in
      if \<not> ok st then (st, w)
      else (OkStatus,
        w\<lparr>run_reader := s\<lparr>rp_stats := (rp_stats s)
          \<lparr>records_delivered := records_delivered (rp_stats s) + 1\<rparr>\<rparr>\<rparr>))"

fun replay_loop ::
    "nat \<Rightarrow> nat \<Rightarrow> ReplayEnv \<Rightarrow> ReplayOptions \<Rightarrow> 'u ReplayCallback \<Rightarrow> time_point \<Rightarrow> u64 option \<Rightarrow>
     'u ReplayRun \<Rightarrow> (Status \<times> 'u ReplayRun) option" where
  "replay_loop wait_fuel 0 env opts callback replay_start first_offset w = None"
| "replay_loop wait_fuel (Suc fuel) env opts callback replay_start first_offset w =
     (let stop_requested = stop_at env (run_polls w); w = poll w in
      if stop_requested then Some (cancelled_status, w)
      else case Next (env_mem env) (run_reader w) of
        (Inl e, s) \<Rightarrow> Some (e, w\<lparr>run_reader := s\<rparr>)
      | (Inr None, s) \<Rightarrow> Some (OkStatus, w\<lparr>run_reader := s\<rparr>)
      | (Inr (Some r), s) \<Rightarrow>
        (case maybe_pace wait_fuel env opts replay_start first_offset r (w\<lparr>run_reader := s\<rparr>) of
           None \<Rightarrow> None
         | Some (Inl e, w) \<Rightarrow> Some (e, w)
         | Some (Inr _, w) \<Rightarrow>
           (case deliver_record callback r w of (st, w) \<Rightarrow>
              if \<not> ok st then Some (st, w)
              else replay_loop wait_fuel fuel env opts callback replay_start
                (note_first opts first_offset r) w)))"

definition Replay ::
    "nat \<Rightarrow> nat \<Rightarrow> ReplayEnv \<Rightarrow> ReplayOptions \<Rightarrow> 'u ReplayCallback option \<Rightarrow> 'u ReplayRun \<Rightarrow>
     (Status \<times> 'u ReplayRun) option" where
  "Replay wait_fuel fuel env opts callback w =
     (case callback of
        None \<Rightarrow> Some (mk_status InvalidArgument ''replay requires a callback'', w)
      | Some cb \<Rightarrow>
        if \<not> speed_valid opts
        then Some (mk_status InvalidArgument ''replay speed is invalid for the selected mode'', w)
        else replay_loop wait_fuel fuel env opts cb (clock_at env (run_ticks w)) None (tick w))"


subsection \<open>The waiting loop\<close>

lemma run_simps [simp]:
  "run_ticks (tick w) = run_ticks w + 1" "run_reader (tick w) = run_reader w"
  "run_user (tick w) = run_user w" "run_sleeps (tick w) = run_sleeps w"
  "run_polls (tick w) = run_polls w" "run_polls (poll w) = run_polls w + 1"
  "run_ticks (poll w) = run_ticks w" "run_reader (poll w) = run_reader w"
  "run_user (poll w) = run_user w" "run_sleeps (poll w) = run_sleeps w"
  by (simp_all add: tick_def poll_def)

lemma wait_slice_simps [simp]:
  "run_ticks (wait_slice env target w) = run_ticks w + 1"
  "run_reader (wait_slice env target w) = run_reader w"
  "run_user (wait_slice env target w) = run_user w"
  by (simp_all add: wait_slice_def Let_def)

lemma wait_target_reached:
  "wait_target fuel env target w = Some (b, w') \<Longrightarrow>
     run_reader w' = run_reader w \<and> run_user w' = run_user w \<and> run_ticks w < run_ticks w' \<and>
     (b \<longrightarrow> target \<le> clock_at env (run_ticks w' - 1))"
  by (induction fuel env target w rule: wait_target.induct)
    (auto split: if_splits)

text \<open>No single sleep is longer than the slice, so a stop request is seen within it.\<close>

lemma wait_slice_sleeps:
  "\<exists>zs. run_sleeps (wait_slice env target w) = run_sleeps w @ zs \<and>
     (\<forall>z\<in>set zs. 0 < z \<and> z \<le> kWaitSlice)"
  by (auto simp: wait_slice_def Let_def)

lemma wait_target_sleeps:
  "wait_target fuel env target w = Some (b, w') \<Longrightarrow>
     \<exists>zs. run_sleeps w' = run_sleeps w @ zs \<and> (\<forall>z\<in>set zs. 0 < z \<and> z \<le> kWaitSlice)"
proof (induction fuel env target w rule: wait_target.induct)
  case (2 fuel env target w)
  obtain zs where "run_sleeps (wait_slice env target (poll (tick w))) = run_sleeps w @ zs"
    "\<forall>z\<in>set zs. 0 < z \<and> z \<le> kWaitSlice"
    using wait_slice_sleeps [of env target "poll (tick w)"] by auto
  then show ?case
    using 2 by (force split: if_splits)
qed simp

lemma wait_target_total:
  assumes "mono (clock_at env)" and "target \<le> clock_at env N"
  shows "N < run_ticks w + fuel \<Longrightarrow> 0 < fuel \<Longrightarrow> \<exists>b w'. wait_target fuel env target w = Some (b, w')"
proof (induction fuel arbitrary: w)
  case (Suc fuel)
  show ?case
  proof (cases "clock_at env (run_ticks w) < target")
    case True
    then have "run_ticks w < N"
      using assms by (meson leD leI monoD order_trans)
    then have "N < run_ticks w + 2 + fuel" "0 < fuel" using Suc.prems by auto
    then show ?thesis
      using Suc.IH [of "wait_slice env target (poll (tick w))"] by auto
  qed auto
qed simp

lemma replay_target_bound:
  "replay_target opts start f off = Inr target \<Longrightarrow> target \<le> int64_max"
  by (auto simp: replay_target_def Let_def split: if_splits)

lemma pace_record_total:
  assumes "mono (clock_at env)" and "int64_max \<le> clock_at env N" and "N < wait_fuel"
  shows "\<exists>res w'. pace_record wait_fuel env opts start f r w = Some (res, w')"
proof (cases "replay_target opts start f (tr_monotonic_offset_ns r)")
  case (Inr target)
  then have "target \<le> clock_at env N"
    using replay_target_bound assms(2) by (metis order_trans)
  then obtain b w' where "wait_target wait_fuel env target w = Some (b, w')"
    using wait_target_total [OF assms(1), of target N w wait_fuel] assms(3) by auto
  then show ?thesis
    by (cases b) (simp_all add: pace_record_def Inr)
qed (simp add: pace_record_def)

lemma maybe_pace_total:
  assumes "timing opts = AsFastAsPossible \<or>
      mono (clock_at env) \<and> int64_max \<le> clock_at env N \<and> N < wait_fuel"
  shows "\<exists>res w'. maybe_pace wait_fuel env opts start first r w = Some (res, w')"
  using assms pace_record_total by (auto simp: maybe_pace_def)

lemma maybe_pace_reader:
  "maybe_pace wait_fuel env opts start first r w = Some (res, w') \<Longrightarrow>
     rp_input (run_reader w') = rp_input (run_reader w)"
  by (auto simp: maybe_pace_def pace_record_def observe_drift_def Let_def dest!: wait_target_reached
      split: sum.splits option.splits prod.splits bool.splits if_splits)


subsection \<open>The record loop ends\<close>

definition bytes_left :: "Replayer \<Rightarrow> nat" where
  "bytes_left s = length (file_bytes (rp_input s)) - file_pos (rp_input s)"

lemma NextLocked_progress:
  assumes "NextLocked mem s = (Inr (Some t), s')"
  shows "bytes_left s' + kMinimumRecordBytes \<le> bytes_left s"
proof -
  let ?r = "pending_of t"
  have "min (bytes_left s) (record_size ?r) = record_size ?r"
    using arg_cong [OF NextLocked_sound(1) [OF assms], of length]
    by (simp add: length_record_bytes bytes_left_def min.commute)
  then have "record_size ?r \<le> bytes_left s" by simp
  moreover have "kMinimumRecordBytes \<le> record_size ?r" by (simp add: record_size_def)
  ultimately show ?thesis
    using NextLocked_sound(6) [OF assms]
    by (simp add: bytes_left_def accept_record_def advance_def skip_bytes_def)
qed

lemma deliver_record_reader:
  "deliver_record cb r w = (st, w') \<Longrightarrow> rp_input (run_reader w') = rp_input (run_reader w)"
  by (auto simp: deliver_record_def Let_def split: prod.splits if_splits)

lemma replay_loop_total:
  assumes "timing opts = AsFastAsPossible \<or>
      mono (clock_at env) \<and> int64_max \<le> clock_at env N \<and> N < wait_fuel"
  shows "bytes_left (run_reader w) < fuel * kMinimumRecordBytes \<Longrightarrow>
      \<exists>st w'. replay_loop wait_fuel fuel env opts cb start first w = Some (st, w')"
proof (induction fuel arbitrary: first w)
  case (Suc fuel)
  show ?case
  proof (cases "NextLocked (env_mem env) (run_reader w)" rule: result_option_cases)
    case (some t s')
    obtain res w1 where p:
        "maybe_pace wait_fuel env opts start first t (poll w\<lparr>run_reader := s'\<rparr>) = Some (res, w1)"
      using maybe_pace_total [OF assms] by blast
    obtain st w2 where d: "deliver_record cb t w1 = (st, w2)" by fastforce
    have "bytes_left (run_reader w2) < fuel * kMinimumRecordBytes"
      using NextLocked_progress [OF some] Suc.prems deliver_record_reader [OF d]
        maybe_pace_reader [OF p]
      by (simp add: bytes_left_def)
    from Suc.IH [OF this, of "note_first opts first t"] show ?thesis
      using p d by (cases res) (auto simp: Let_def Next_def some)
  qed (simp_all add: Let_def Next_def)
qed simp


subsection \<open>What a replay delivers\<close>

text \<open>A well-formed sequence of records: within the limits, numbered consecutively from \<open>n\<close>,
  with offsets that never decrease.\<close>

fun record_chain :: "TraceLimits \<Rightarrow> u64 \<Rightarrow> u64 \<Rightarrow> PendingRecord list \<Rightarrow> bool" where
  "record_chain limits n last_offset [] = True"
| "record_chain limits n last_offset (r # rs) =
     (within_limits limits r \<and> pr_record_sequence r = n \<and>
      (n > 1 \<longrightarrow> last_offset \<le> pr_monotonic_offset_ns r) \<and>
      record_chain limits (n + 1) (pr_monotonic_offset_ns r) rs)"

text \<open>A callback that keeps the records it is given.\<close>

definition collect :: "TraceRecord list ReplayCallback" where
  "collect r k kept = (Returned OkStatus, kept @ [r])"

lemma replay_loop_records:
  assumes fast: "timing opts = AsFastAsPossible"
    and mem: "\<And>n. env_mem env n = None" and go: "\<And>n. \<not> stop_at env n"
  shows "ready_at (run_reader w) (concat (map record_bytes rs) @ tail) \<Longrightarrow>
    ok (ValidateLimits (rp_limits (run_reader w))) \<Longrightarrow>
    record_chain (rp_limits (run_reader w)) (rp_expected_sequence (run_reader w))
      (rp_last_offset_ns (run_reader w)) rs \<Longrightarrow>
    \<exists>w'. replay_loop wait_fuel (length rs + fuel) env opts collect start first w =
        replay_loop wait_fuel fuel env opts collect start first w' \<and>
      ready_at (run_reader w') tail \<and> rp_limits (run_reader w') = rp_limits (run_reader w) \<and>
      run_user w' = run_user w @ map trace_of rs \<and>
      records_delivered (rp_stats (run_reader w')) =
        records_delivered (rp_stats (run_reader w)) + of_nat (length rs)"
proof (induction rs arbitrary: w)
  case (Cons r rs)
  let ?s = "run_reader w"
  let ?s' = "accept_record (trace_of r) (advance (record_size r) ?s)"
  let ?w = "poll w\<lparr>run_user := run_user w @ [trace_of r],
      run_reader := ?s'\<lparr>rp_stats := (rp_stats ?s')
      \<lparr>records_delivered := records_delivered (rp_stats ?s') + 1\<rparr>\<rparr>\<rparr>"
  have at: "ready_at ?s (record_bytes r @ concat (map record_bytes rs) @ tail)"
    using Cons.prems(1) by simp
  have next_eq: "NextLocked (env_mem env) ?s = (Inr (Some (trace_of r)), ?s')"
    using Cons.prems by (intro NextLocked_written [OF at]) (auto simp: mem)
  have step: "replay_loop wait_fuel (length (r # rs) + fuel) env opts collect start first w =
      replay_loop wait_fuel (length rs + fuel) env opts collect start first ?w"
    by (simp add: Let_def go Next_def next_eq maybe_pace_def fast note_first_def deliver_record_def
        collect_def callback_status_def)
  have "tr_monotonic_offset_ns (trace_of r) = pr_monotonic_offset_ns r"
    by (simp add: trace_of_def)
  then have "\<exists>w'. replay_loop wait_fuel (length rs + fuel) env opts collect start first ?w =
        replay_loop wait_fuel fuel env opts collect start first w' \<and>
      ready_at (run_reader w') tail \<and> rp_limits (run_reader w') = rp_limits (run_reader ?w) \<and>
      run_user w' = run_user ?w @ map trace_of rs \<and>
      records_delivered (rp_stats (run_reader w')) =
        records_delivered (rp_stats (run_reader ?w)) + of_nat (length rs)"
    using Cons.prems ready_at_accept [OF at] by (intro Cons.IH) auto
  then show ?case
    unfolding step by (auto simp: ac_simps)
qed auto

lemma replay_loop_end:
  assumes "ready_at (run_reader w) []" and "\<And>n. \<not> stop_at env n"
  shows "\<exists>w'. replay_loop wait_fuel (Suc fuel) env opts cb start first w = Some (OkStatus, w') \<and>
    run_user w' = run_user w \<and> rp_stats (run_reader w') = rp_stats (run_reader w)"
  using NextLocked_end [OF assms(1), of "env_mem env"] assms(2)
  by (auto simp: Let_def Next_def)

lemma replay_loop_failed:
  assumes "NextLocked (env_mem env) (run_reader w) = (Inl e, s')" and "\<And>n. \<not> stop_at env n"
  shows "\<exists>w'. replay_loop wait_fuel (Suc fuel) env opts cb start first w = Some (e, w') \<and>
    run_user w' = run_user w \<and> run_reader w' = s'"
  using assms by (auto simp: Let_def Next_def)


subsection \<open>Paced replay never delivers early\<close>

definition due :: "ReplayEnv \<Rightarrow> ReplayOptions \<Rightarrow> time_point \<Rightarrow> u64 \<Rightarrow> TraceRecord \<Rightarrow> nat \<Rightarrow> bool" where
  "due env opts start f r k \<longleftrightarrow>
     start + \<lfloor>of_nat (unat (tr_monotonic_offset_ns r - f)) / divisor opts\<rfloor> \<le> clock_at env (k - 1)"

lemma maybe_pace_due:
  assumes "maybe_pace wait_fuel env opts start first r w = Some (Inr u, w')"
    and "timing opts \<noteq> AsFastAsPossible" and "mono (clock_at env)"
  shows "due env opts start (origin first r) r (run_ticks w')" "run_user w' = run_user w"
proof -
  from assms(1,2) obtain target w1 where
    t: "replay_target opts start (origin first r) (tr_monotonic_offset_ns r) = Inr target"
    and wt: "wait_target wait_fuel env target w = Some (True, w1)"
    and w': "w' = observe_drift env target w1"
    by (auto simp: maybe_pace_def pace_record_def
        split: sum.splits option.splits prod.splits bool.splits)
  note reached = wait_target_reached [OF wt]
  have "clock_at env (run_ticks w1 - 1) \<le> clock_at env (run_ticks w1)"
    using assms(3) by (simp add: monoD)
  then show "due env opts start (origin first r) r (run_ticks w')"
    using t reached w'
    by (auto simp: due_def replay_target_def observe_drift_def Let_def split: if_splits)
  show "run_user w' = run_user w"
    using reached w' by (simp add: observe_drift_def Let_def)
qed

lemma maybe_pace_user:
  "maybe_pace wait_fuel env opts start first r w = Some (res, w') \<Longrightarrow> run_user w' = run_user w"
  by (auto simp: maybe_pace_def pace_record_def observe_drift_def Let_def dest!: wait_target_reached
      split: sum.splits option.splits prod.splits bool.splits if_splits)

lemma deliver_record_user:
  "deliver_record cb r w = (st, w') \<Longrightarrow> run_user w' = snd (cb r (run_ticks w) (run_user w))"
  by (auto simp: deliver_record_def Let_def split: prod.splits if_splits)

text \<open>One turn of the loop ends it without a delivery, or delivers one record and goes on
  unless the callback failed.\<close>

lemma replay_loop_cases:
  assumes "replay_loop wait_fuel (Suc fuel) env opts cb start first w = Some (st, w')"
  obtains (ended) "run_user w' = run_user w"
  | (delivered) r s w1 w2 st1 where
      "maybe_pace wait_fuel env opts start first r (poll w\<lparr>run_reader := s\<rparr>) = Some (Inr (), w1)"
      "run_user w1 = run_user w" "deliver_record cb r w1 = (st1, w2)"
      "w' = w2 \<or> replay_loop wait_fuel fuel env opts cb start (note_first opts first r) w2 = Some (st, w')"
proof (cases "stop_at env (run_polls w)")
  case False
  show thesis
  proof (cases "NextLocked (env_mem env) (run_reader w)" rule: result_option_cases)
    case (some r s)
    with assms False obtain res w1 where m:
      "maybe_pace wait_fuel env opts start first r (poll w\<lparr>run_reader := s\<rparr>) = Some (res, w1)"
      by (auto simp: Let_def Next_def split: option.splits)
    have user: "run_user w1 = run_user w" using maybe_pace_user [OF m] by simp
    show thesis
    proof (cases res)
      case (Inl e)
      then show thesis
        using assms False some m user by (intro ended) (simp add: Let_def Next_def)
    next
      case (Inr u)
      obtain st1 w2 where d: "deliver_record cb r w1 = (st1, w2)" by fastforce
      show thesis
        using assms False some m Inr d user
        by (intro delivered [of r s w1 st1 w2]) (auto simp: Let_def Next_def split: if_splits)
    qed
  qed (use assms False ended in \<open>auto simp: Let_def Next_def\<close>)
qed (use assms ended in \<open>auto simp: Let_def\<close>)

lemma replay_loop_due:
  assumes paced: "timing opts \<noteq> AsFastAsPossible" "mono (clock_at env)"
    and cb: "\<And>r k u. due env opts start f r k \<Longrightarrow> P u \<Longrightarrow> P (snd (cb r k u))"
  shows "replay_loop wait_fuel fuel env opts cb start (Some f) w = Some (st, w') \<Longrightarrow>
    P (run_user w) \<Longrightarrow> P (run_user w')"
proof (induction fuel arbitrary: w)
  case (Suc fuel)
  from Suc.prems(1) show ?case
  proof (cases rule: replay_loop_cases)
    case ended
    then show ?thesis using Suc.prems(2) by simp
  next
    case (delivered r s w1 w2 st1)
    have "due env opts start f r (run_ticks w1)"
      using maybe_pace_due(1) [OF delivered(1) paced] by (simp add: origin_def)
    then have "P (run_user w2)"
      using cb deliver_record_user [OF delivered(3)] delivered(2) Suc.prems(2) by simp
    moreover have "note_first opts (Some f) r = Some f"
      using paced(1) by (simp add: note_first_def origin_def)
    ultimately show ?thesis
      using delivered(4) Suc.IH by auto
  qed
qed simp

text \<open>A callback that keeps each record with the number of clock readings that preceded it.\<close>

definition log_at :: "(TraceRecord \<times> nat) list ReplayCallback" where
  "log_at r k kept = (Returned OkStatus, kept @ [(r, k)])"

lemma replay_loop_log_due:
  assumes paced: "timing opts \<noteq> AsFastAsPossible" "mono (clock_at env)"
    and run: "replay_loop wait_fuel fuel env opts log_at start None w = Some (st, w')"
    and empty: "run_user w = []"
  shows "\<forall>(r, k) \<in> set (run_user w').
    due env opts start (tr_monotonic_offset_ns (fst (hd (run_user w')))) r k"
proof (cases fuel)
  case (Suc n)
  from run [unfolded Suc] show ?thesis
  proof (cases rule: replay_loop_cases)
    case (delivered r s w1 w2 st1)
    let ?f = "tr_monotonic_offset_ns r"
    define P where "P kept \<longleftrightarrow> kept \<noteq> [] \<and> fst (hd kept) = r \<and>
        (\<forall>(q, k) \<in> set kept. due env opts start ?f q k)" for kept
    have "due env opts start ?f r (run_ticks w1)"
      using maybe_pace_due(1) [OF delivered(1) paced] by (simp add: origin_def)
    then have "P (run_user w2)"
      using deliver_record_user [OF delivered(3)] delivered(2) empty by (simp add: P_def log_at_def)
    moreover have "note_first opts None r = Some ?f"
      using paced(1) by (simp add: note_first_def origin_def)
    moreover have "P (snd (log_at q k u))" if "due env opts start ?f q k" "P u" for q k u
      using that by (auto simp: P_def log_at_def)
    ultimately have "P (run_user w')"
      using delivered(4) replay_loop_due [OF paced, of start ?f P log_at] by auto
    then show ?thesis by (simp add: P_def)
  qed (use empty in simp)
qed (use run in simp)

subsection \<open>A concrete environment\<close>

text \<open>A clock that advances by a second per reading, no stop request, enough memory.\<close>

definition demo_env :: ReplayEnv where
  "demo_env = \<lparr>clock_at = (\<lambda>n. int n * 1000000000), stop_at = (\<lambda>_. False), env_mem = (\<lambda>_. None)\<rparr>"


subsection \<open>Properties\<close>

definition short_sleeps :: "'u ReplayRun \<Rightarrow> bool" where
  "short_sleeps w \<longleftrightarrow> (\<forall>z \<in> set (run_sleeps w). 0 < z \<and> z \<le> kWaitSlice)"

lemma wait_target_short: "wait_target fuel env target w = Some (b, w') \<Longrightarrow> short_sleeps w \<Longrightarrow> short_sleeps w'"
  using wait_target_sleeps [of fuel env target w b w'] by (auto simp: short_sleeps_def)

lemma maybe_pace_short:
  assumes "maybe_pace wait_fuel env opts start first r w = Some (res, w')" "short_sleeps w"
  shows "short_sleeps w'"
proof -
  have drift: "short_sleeps (observe_drift env target v) = short_sleeps v" for target v
    by (simp add: short_sleeps_def observe_drift_def Let_def)
  show ?thesis
    using assms
    by (auto simp: maybe_pace_def pace_record_def drift dest: wait_target_short
        split: if_splits sum.splits option.splits prod.splits bool.splits)
qed

lemma deliver_record_short: "deliver_record cb r w = (st, w') \<Longrightarrow> short_sleeps w' = short_sleeps w"
  by (auto simp: deliver_record_def short_sleeps_def Let_def split: prod.splits if_splits)

lemma short_sleeps_reader [simp]:
  "short_sleeps (w\<lparr>run_reader := s\<rparr>) = short_sleeps w" "short_sleeps (poll w) = short_sleeps w"
  "short_sleeps (tick w) = short_sleeps w"
  by (simp_all add: short_sleeps_def)

lemma replay_loop_short:
  "replay_loop wait_fuel fuel env opts cb start first w = Some (st, w') \<Longrightarrow> short_sleeps w \<Longrightarrow>
     short_sleeps w'"
proof (induction fuel arbitrary: first w)
  case (Suc fuel)
  show ?case
  proof (cases "stop_at env (run_polls w)")
    case False
    note run = Suc.prems(1) [unfolded replay_loop.simps Let_def Next_def if_not_P [OF False]]
    show ?thesis
    proof (cases "NextLocked (env_mem env) (run_reader w)" rule: result_option_cases)
      case (some r s)
      with run False obtain res w1 where m:
        "maybe_pace wait_fuel env opts start first r (poll w\<lparr>run_reader := s\<rparr>) = Some (res, w1)"
        by (auto split: option.splits)
      have w1: "short_sleeps w1" using maybe_pace_short [OF m] Suc.prems(2) by simp
      obtain st1 w2 where d: "deliver_record cb r w1 = (st1, w2)" by fastforce
      have w2: "short_sleeps w2" using deliver_record_short [OF d] w1 by simp
      show ?thesis
        using run False some m d w1 w2 Suc.IH by (cases res) (auto split: if_splits)
    qed (use run False Suc.prems(2) in auto)
  qed (use Suc.prems in \<open>auto simp: Let_def\<close>)
qed simp

text \<open>C38: a paced replay never delivers early. With a monotonic clock, every record reaches the
  callback after a clock reading that is at or past the start of the replay plus the record's
  offset from the first delivered record, divided by the speed; the callback here keeps each
  record with the index of the next clock reading.\<close>

theorem replay_never_early:
  assumes "timing opts \<noteq> AsFastAsPossible" "mono (clock_at env)"
    and "Replay wait_fuel fuel env opts (Some log_at) w = Some (st, w')" "run_user w = []"
  shows "\<forall>(r, k) \<in> set (run_user w').
    clock_at env (run_ticks w) +
      \<lfloor>of_nat (unat (tr_monotonic_offset_ns r - tr_monotonic_offset_ns (fst (hd (run_user w'))))) /
        divisor opts\<rfloor> \<le> clock_at env (k - 1)"
proof (cases "speed_valid opts")
  case True
  then have run: "replay_loop wait_fuel fuel env opts log_at (clock_at env (run_ticks w)) None (tick w) =
      Some (st, w')"
    using assms(3) by (simp add: Replay_def)
  have "run_user (tick w) = []" using assms(4) by simp
  from replay_loop_log_due [OF assms(1,2) run this] show ?thesis by (simp add: due_def)
next
  case False
  then show ?thesis using assms(3,4) by (auto simp: Replay_def)
qed

text \<open>C39: a replay returns. As fast as possible it needs one turn per record and one for the end, and
  a record takes at least \<open>kMinimumRecordBytes\<close> bytes; paced, it needs in addition a monotonic
  clock that reaches the largest time point within the fuel of one wait.\<close>

theorem replay_returns:
  assumes "timing opts = AsFastAsPossible \<or>
      mono (clock_at env) \<and> int64_max \<le> clock_at env N \<and> N < wait_fuel"
    and "bytes_left (run_reader w) < fuel * kMinimumRecordBytes"
  shows "\<exists>st w'. Replay wait_fuel fuel env opts cb w = Some (st, w')"
  using replay_loop_total [OF assms(1), of "tick w" fuel] assms(2)
  by (cases cb) (auto simp: Replay_def)

text \<open>a stop request is noticed quickly: no sleep of a replay lasts longer than five
  milliseconds, and the stop token is polled before each of them.\<close>

theorem replay_sleeps_in_slices:
  assumes "Replay wait_fuel fuel env opts cb w = Some (st, w')" "run_sleeps w = []"
  shows "\<forall>z \<in> set (run_sleeps w'). 0 < z \<and> z \<le> 5000000"
proof -
  have "short_sleeps w" using assms(2) by (simp add: short_sleeps_def)
  then have "short_sleeps w'"
    using assms(1) replay_loop_short [of wait_fuel fuel env opts _ _ None "tick w" st w']
    by (cases cb) (auto simp: Replay_def split: if_splits)
  then show ?thesis by (simp add: short_sleeps_def kWaitSlice_def)
qed

definition paced_options :: ReplayOptions where
  "paced_options = \<lparr>timing = Accelerated, speed = Finite 2\<rparr>"

definition demo_replay :: "nat \<Rightarrow> 'u \<Rightarrow> 'u ReplayRun" where
  "demo_replay n u = \<lparr>run_reader = demo_reader (record_bytes demo_record), run_ticks = n,
     run_polls = 0, run_sleeps = [], run_user = u\<rparr>"

lemma demo_clock: "mono (clock_at demo_env)" "int64_max \<le> clock_at demo_env 10000000000"
  by (auto simp: demo_env_def mono_def int64_max_def)

lemma demo_replay_fuel: "bytes_left (run_reader (demo_replay n u)) < 2 * kMinimumRecordBytes"
  by (simp add: bytes_left_def demo_replay_def demo_reader_def length_record_bytes record_size_def
      demo_record_def demo_message_def trace_consts)

theorem replay_returns_witness:
  "\<exists>st w'. Replay 10000000001 2 demo_env paced_options (Some log_at) (demo_replay 0 []) = Some (st, w')"
  by (rule replay_returns [of _ _ 10000000000]) (use demo_clock demo_replay_fuel in auto)

lemma demo_replay_runs:
  "\<exists>st w'. Replay 10000000001 2 demo_env paced_options (Some log_at) (demo_replay 0 []) = Some (st, w')"
proof -
  have "\<exists>st w'. replay_loop 10000000001 2 demo_env paced_options log_at (clock_at demo_env 0) None
      (tick (demo_replay 0 [])) = Some (st, w')"
    by (rule replay_loop_total [of _ _ 10000000000])
      (use demo_clock demo_replay_fuel in \<open>auto simp: demo_replay_def\<close>)
  then show ?thesis
    by (simp add: Replay_def speed_valid_def paced_options_def demo_replay_def)
qed

theorem replay_never_early_witness:
  "\<exists>st w'. Replay 10000000001 2 demo_env paced_options (Some log_at) (demo_replay 0 []) = Some (st, w') \<and>
     list_all (\<lambda>(r, k). \<lfloor>of_nat (unat (tr_monotonic_offset_ns r -
        tr_monotonic_offset_ns (fst (hd (run_user w'))))) / divisor paced_options\<rfloor> \<le>
        clock_at demo_env (k - 1)) (run_user w')"
proof -
  obtain st w' where run:
    "Replay 10000000001 2 demo_env paced_options (Some log_at) (demo_replay 0 []) = Some (st, w')"
    using demo_replay_runs by blast
  have "clock_at demo_env (run_ticks (demo_replay 0 [])) = 0"
    by (simp add: demo_env_def demo_replay_def)
  with replay_never_early [OF _ demo_clock(1) run] run show ?thesis
    by (simp add: paced_options_def demo_replay_def list_all_iff)
qed

theorem replay_sleeps_in_slices_witness:
  "\<exists>st w'. Replay 10000000001 2 demo_env paced_options (Some log_at) (demo_replay 0 []) = Some (st, w') \<and>
     list_all (\<lambda>z. 0 < z \<and> z \<le> 5000000) (run_sleeps w')"
proof -
  obtain st w' where run:
    "Replay 10000000001 2 demo_env paced_options (Some log_at) (demo_replay 0 []) = Some (st, w')"
    using demo_replay_runs by blast
  with replay_sleeps_in_slices [OF run] show ?thesis by (simp add: demo_replay_def list_all_iff)
qed

end
