(* ===== verification/Recorder.thy ===== *)
theory Recorder
  imports Replay_Loop "HOL-Library.Sublist"
begin

text \<open>
  The writer of trace files: \<open>Recorder\<close> of \<open>record_replay.cpp\<close>. Clients append records to a
  bounded queue under the recorder's mutex; a writer thread takes them one at a time, serialises
  them and writes them to the output file; \<open>Stop\<close> lets the writer drain the queue and waits.

  Every critical section is one operation on the state; the interleavings of clients, writer and
  \<open>Stop\<close> are the step relation \<open>rec_step\<close>. System calls are effects whose outcomes are
  arguments: the results of the \<open>write\<close> calls, the errors of \<open>open\<close>, \<open>fsync\<close> and \<open>close\<close>.
\<close>

subsection \<open>State\<close>

datatype RecorderOverflowPolicy = BlockWhenFull | DropNewest

record RecorderConfig =
  cfg_path :: string
  cfg_queue_capacity :: nat
  cfg_limits :: TraceLimits
  cfg_overflow_policy :: RecorderOverflowPolicy
  cfg_enqueue_timeout :: duration
  cfg_synchronize_on_stop :: bool

record RecorderStats =
  accepted_records :: u64
  written_records :: u64
  dropped_records :: u64
  enqueue_timeouts :: u64
  io_errors :: u64
  bytes_written :: u64
  queue_depth :: nat
  queue_high_watermark :: nat
  st_stopping :: bool
  st_stopped :: bool

text \<open>Where the writer thread is: waiting for work, holding a record it took from the queue, out
  of its loop, or finished.\<close>

datatype WriterPc = WriterWaiting | WriterHolds PendingRecord | WriterLeft | WriterFinished

record Recorder =
  rec_config :: RecorderConfig
  rec_wall_clock_start_ns :: u64
  rec_monotonic_start_ns :: u64
  rec_queue :: "PendingRecord list"
  rec_output :: bytes
  rec_output_open :: bool
  rec_next_record_sequence :: u64
  rec_last_record_offset_ns :: u64
  rec_stopping :: bool
  rec_writer_finished :: bool
  rec_writer_status :: Status
  rec_stats :: RecorderStats
  rec_pc :: WriterPc


subsection \<open>Writing a buffer to the descriptor\<close>

datatype WriteResult = Wrote nat | WriteInterrupted | WriteFailed string

text \<open>\<open>WriteAll outcomes data content\<close> appends \<open>data\<close> to the file \<open>content\<close>; \<open>outcomes\<close> are
  the results of the successive \<open>write\<close> calls, and \<open>None\<close> means that they do not finish it.\<close>

fun WriteAll :: "WriteResult list \<Rightarrow> bytes \<Rightarrow> bytes \<Rightarrow> (Status \<times> bytes) option" where
  "WriteAll outcomes [] content = Some (OkStatus, content)"
| "WriteAll [] (b # bs) content = None"
| "WriteAll (WriteInterrupted # outcomes) (b # bs) content = WriteAll outcomes (b # bs) content"
| "WriteAll (WriteFailed err # outcomes) (b # bs) content =
     Some (mk_status TransportError (''write trace failed: '' @ err), content)"
| "WriteAll (Wrote n # outcomes) (b # bs) content =
     (if n = 0 then Some (mk_status TransportError ''write trace made no progress'', content)
      else WriteAll outcomes (drop n (b # bs)) (content @ take n (b # bs)))"


subsection \<open>Creation\<close>

definition zero_recorder_stats :: RecorderStats where
  "zero_recorder_stats =
     \<lparr>accepted_records = 0, written_records = 0, dropped_records = 0, enqueue_timeouts = 0,
      io_errors = 0, bytes_written = 0, queue_depth = 0, queue_high_watermark = 0,
      st_stopping = False, st_stopped = False\<rparr>"

datatype OpenResult = Opened | OpenExists | OpenFailed string

definition new_recorder :: "RecorderConfig \<Rightarrow> u64 \<Rightarrow> u64 \<Rightarrow> Recorder" where
  "new_recorder config wall_ns mono_ns =
     (let header = BuildFileHeader wall_ns mono_ns in
      \<lparr>rec_config = config, rec_wall_clock_start_ns = wall_ns, rec_monotonic_start_ns = mono_ns,
       rec_queue = [], rec_output = header, rec_output_open = True, rec_next_record_sequence = 1,
       rec_last_record_offset_ns = 0, rec_stopping = False, rec_writer_finished = False,
       rec_writer_status = OkStatus,
       rec_stats = zero_recorder_stats\<lparr>bytes_written := of_nat (length header)\<rparr>,
       rec_pc = WriterWaiting\<rparr>)"

text \<open>\<open>what\<close> renders the text of a \<open>std::system_error\<close>, \<open>thread_error\<close> is the failure to start
  the writer thread.\<close>

definition Create ::
    "(string \<Rightarrow> string) \<Rightarrow> RecorderConfig \<Rightarrow> u64 \<Rightarrow> u64 \<Rightarrow> OpenResult \<Rightarrow> WriteResult list \<Rightarrow>
     string option \<Rightarrow> Recorder Result option" where
  "Create what config wall_ns mono_ns opened outcomes thread_error =
     (if cfg_path config = [] \<or> cfg_queue_capacity config = 0
      then Some (Inl (mk_status InvalidArgument ''recorder requires a path and nonzero queue capacity''))
      else if \<not> ok (ValidateLimits (cfg_limits config))
      then Some (Inl (ValidateLimits (cfg_limits config)))
      else if cfg_overflow_policy config = BlockWhenFull \<and> cfg_enqueue_timeout config \<le> 0
      then Some (Inl (mk_status InvalidArgument ''blocking recorder requires a positive enqueue timeout''))
      else case opened of
        OpenExists \<Rightarrow> Some (Inl (mk_status AlreadyExists ''trace output already exists''))
      | OpenFailed err \<Rightarrow> Some (Inl (mk_status TransportError (what (''create trace output: '' @ err))))
      | Opened \<Rightarrow>
        (case WriteAll outcomes (BuildFileHeader wall_ns mono_ns) [] of
           None \<Rightarrow> None
         | Some (st, content) \<Rightarrow>
           if \<not> ok st then Some (Inl (mk_status TransportError (what (detail st))))
           else case thread_error of
             Some err \<Rightarrow> Some (Inl (mk_status TransportError (what err)))
           | None \<Rightarrow> Some (Inr ((new_recorder config wall_ns mono_ns)\<lparr>rec_output := content\<rparr>))))"


subsection \<open>Record\<close>

text \<open>A client either gets its answer at once or blocks, with the record, its capture time and the
  deadline of the wait.\<close>

datatype RecordPhase = RecordDone Status | RecordBlocked PendingRecord u64 time_point

definition make_pending :: "string \<Rightarrow> string \<Rightarrow> Message \<Rightarrow> PendingRecord" where
  "make_pending channel message_type message =
     \<lparr>pr_record_sequence = 0, pr_monotonic_offset_ns = 0, pr_channel = channel,
      pr_message_type = message_type, pr_message = message\<rparr>"

definition enqueue_record :: "PendingRecord \<Rightarrow> u64 \<Rightarrow> Recorder \<Rightarrow> Status \<times> Recorder" where
  "enqueue_record record capture_now s =
     (let captured_offset =
            (if capture_now \<ge> rec_monotonic_start_ns s then capture_now - rec_monotonic_start_ns s
             else 0);
          offset_ns = max captured_offset (rec_last_record_offset_ns s);
          record = record\<lparr>pr_monotonic_offset_ns := offset_ns,
            pr_record_sequence := rec_next_record_sequence s\<rparr>;
          queue = rec_queue s @ [record] in
      (OkStatus,
       s\<lparr>rec_last_record_offset_ns := offset_ns,
         rec_next_record_sequence := rec_next_record_sequence s + 1,
         rec_queue := queue,
         rec_stats := (rec_stats s)
           \<lparr>accepted_records := accepted_records (rec_stats s) + 1,
            queue_depth := length queue,
            queue_high_watermark := max (queue_high_watermark (rec_stats s)) (length queue)\<rparr>\<rparr>))"

text \<open>The early returns of \<open>Record\<close> before it takes the lock, and the two that follow it;
  \<open>copy_error\<close> is the failure to copy the record.\<close>

definition record_rejected ::
    "string \<Rightarrow> string \<Rightarrow> Message \<Rightarrow> string option \<Rightarrow> TraceLimits \<Rightarrow> Status option" where
  "record_rejected channel message_type message copy_error limits =
     (if channel = [] \<or> message_type = []
      then Some (mk_status InvalidArgument ''trace record requires channel and message type'')
      else if length channel > max_channel_bytes limits \<or>
        length message_type > max_message_type_bytes limits \<or>
        length (payload message) > max_payload_bytes limits
      then Some (mk_status InvalidArgument ''trace record exceeds configured limits'')
      else case copy_error of
        Some what \<Rightarrow> Some (mk_status Internal (''copy trace record failed: '' @ what))
      | None \<Rightarrow> None)"

definition recorder_closed :: "Recorder \<Rightarrow> Status option" where
  "recorder_closed s =
     (if rec_stopping s then Some (mk_status Closed ''recorder is stopping'')
      else if \<not> ok (rec_writer_status s) then Some (rec_writer_status s)
      else None)"

text \<open>\<open>Record\<close> up to the wait for room in the queue.\<close>

definition Record_begin ::
    "string \<Rightarrow> string \<Rightarrow> Message \<Rightarrow> string option \<Rightarrow> u64 \<Rightarrow> time_point \<Rightarrow> Recorder \<Rightarrow>
     RecordPhase \<times> Recorder" where
  "Record_begin channel message_type message copy_error capture_now now s =
     (case record_rejected channel message_type message copy_error (cfg_limits (rec_config s)) of
        Some st \<Rightarrow> (RecordDone st, s)
      | None \<Rightarrow>
        (case recorder_closed s of
           Some st \<Rightarrow> (RecordDone st, s)
         | None \<Rightarrow>
           if length (rec_queue s) \<ge> cfg_queue_capacity (rec_config s)
           then if cfg_overflow_policy (rec_config s) = DropNewest
             then (RecordDone (mk_status Dropped ''recorder queue is full''),
               s\<lparr>rec_stats := (rec_stats s)
                 \<lparr>dropped_records := dropped_records (rec_stats s) + 1\<rparr>\<rparr>)
             else (RecordBlocked (make_pending channel message_type message) capture_now
               (now + cfg_enqueue_timeout (rec_config s)), s)
           else case enqueue_record (make_pending channel message_type message) capture_now s of
             (st, s) \<Rightarrow> (RecordDone st, s)))"

text \<open>The predicate the blocked client waits for, and the part of \<open>Record\<close> after the wait.\<close>

definition can_resume :: "Recorder \<Rightarrow> bool" where
  "can_resume s =
     (rec_stopping s \<or> \<not> ok (rec_writer_status s) \<or>
      length (rec_queue s) < cfg_queue_capacity (rec_config s))"

definition Record_resume :: "PendingRecord \<Rightarrow> u64 \<Rightarrow> Recorder \<Rightarrow> Status \<times> Recorder" where
  "Record_resume record capture_now s =
     (case recorder_closed s of
        Some st \<Rightarrow> (st, s)
      | None \<Rightarrow> enqueue_record record capture_now s)"

definition Record_timeout :: "Recorder \<Rightarrow> Status \<times> Recorder" where
  "Record_timeout s =
     (mk_status Timeout ''recorder queue wait timed out'',
      s\<lparr>rec_stats := (rec_stats s)\<lparr>enqueue_timeouts := enqueue_timeouts (rec_stats s) + 1\<rparr>\<rparr>)"


subsection \<open>The writer thread\<close>

definition FailWriter :: "string \<Rightarrow> Recorder \<Rightarrow> Recorder" where
  "FailWriter d s =
     s\<lparr>rec_queue := [], rec_writer_status := mk_status TransportError d, rec_stopping := True,
       rec_stats := (rec_stats s)
         \<lparr>io_errors := io_errors (rec_stats s) + 1,
          dropped_records := dropped_records (rec_stats s) + (of_nat (length (rec_queue s)) + 1),
          queue_depth := 0, st_stopping := True\<rparr>\<rparr>"

text \<open>Waking up: take the front of the queue, or leave the loop when stopping with an empty queue.
  \<open>None\<close> while the wait condition does not hold.\<close>

definition writer_wake :: "Recorder \<Rightarrow> Recorder option" where
  "writer_wake s =
     (case rec_queue s of
        [] \<Rightarrow> if rec_stopping s then Some (s\<lparr>rec_pc := WriterLeft\<rparr>) else None
      | record # rest \<Rightarrow>
          Some (s\<lparr>rec_queue := rest, rec_pc := WriterHolds record,
            rec_stats := (rec_stats s)\<lparr>queue_depth := length rest\<rparr>\<rparr>))"

text \<open>Serialising and writing the record the writer holds; \<open>alloc_error\<close> is an allocation failure
  while serialising.\<close>

definition writer_write ::
    "string option \<Rightarrow> WriteResult list \<Rightarrow> PendingRecord \<Rightarrow> Recorder \<Rightarrow> Recorder option" where
  "writer_write alloc_error outcomes record s =
     (case (case alloc_error of Some what \<Rightarrow> Inl what | None \<Rightarrow> SerializeRecord record) of
        Inl what \<Rightarrow>
          Some ((FailWriter (''serialize trace record failed: '' @ what) s)\<lparr>rec_pc := WriterLeft\<rparr>)
      | Inr serialized \<Rightarrow>
        (case WriteAll outcomes serialized (rec_output s) of
           None \<Rightarrow> None
         | Some (st, content) \<Rightarrow>
           let s = s\<lparr>rec_output := content\<rparr> in
           if \<not> ok st then Some ((FailWriter (detail st) s)\<lparr>rec_pc := WriterLeft\<rparr>)
           else Some (s\<lparr>rec_pc := WriterWaiting,
             rec_stats := (rec_stats s)
               \<lparr>written_records := written_records (rec_stats s) + 1,
                bytes_written := bytes_written (rec_stats s) + of_nat (length serialized)\<rparr>\<rparr>)))"

text \<open>The end of \<open>WriterLoop\<close>: synchronise, close, publish the final status. The errors of
  \<open>fsync\<close> and \<open>close\<close> are \<open>Some\<close> text.\<close>

definition writer_finish :: "string option \<Rightarrow> string option \<Rightarrow> Recorder \<Rightarrow> Recorder" where
  "writer_finish fsync_error close_error s =
     (let synchronization_error =
            (if cfg_synchronize_on_stop (rec_config s) \<and> rec_output_open s then fsync_error else None);
          closing_error = (if rec_output_open s then close_error else None);
          failure = (case synchronization_error of Some e \<Rightarrow> Some e | None \<Rightarrow> closing_error);
          s = s\<lparr>rec_output_open := False\<rparr>;
          s = (case failure of
             Some e \<Rightarrow>
               if ok (rec_writer_status s)
               then s\<lparr>rec_writer_status :=
                   mk_status TransportError (''synchronize trace output failed: '' @ e),
                 rec_stats := (rec_stats s)\<lparr>io_errors := io_errors (rec_stats s) + 1\<rparr>\<rparr>
               else s
           | None \<Rightarrow> s) in
      s\<lparr>rec_writer_finished := True, rec_pc := WriterFinished,
        rec_stats := (rec_stats s)\<lparr>st_stopped := True, st_stopping := True\<rparr>\<rparr>)"


subsection \<open>Stop\<close>

definition Stop_request :: "Recorder \<Rightarrow> Recorder" where
  "Stop_request s =
     (if rec_stopping s then s
      else s\<lparr>rec_stopping := True, rec_stats := (rec_stats s)\<lparr>st_stopping := True\<rparr>\<rparr>)"

text \<open>The answer of \<open>Stop\<close> at time \<open>now\<close>; \<open>None\<close> while it keeps waiting.\<close>

definition Stop_answer :: "Deadline \<Rightarrow> time_point \<Rightarrow> Recorder \<Rightarrow> Status option" where
  "Stop_answer deadline now s =
     (if rec_writer_finished s then Some (rec_writer_status s)
      else if is_infinite deadline then None
      else if time_point deadline \<le> now
      then Some (mk_status Timeout ''recorder flush deadline expired'')
      else None)"

definition Recorder_Stats :: "Recorder \<Rightarrow> RecorderStats" where
  "Recorder_Stats s = rec_stats s"

subsection \<open>WriteAll\<close>

lemma WriteAll_ok:
  "WriteAll outcomes xs content = Some (st, content') \<Longrightarrow> ok st \<Longrightarrow> content' = content @ xs"
  by (induction outcomes xs content rule: WriteAll.induct) (auto split: if_splits)

lemma WriteAll_prefix:
  "WriteAll outcomes xs content = Some (st, content') \<Longrightarrow> \<not> ok st \<Longrightarrow>
     \<exists>part. content' = content @ part \<and> strict_prefix part xs"
proof (induction outcomes xs content rule: WriteAll.induct)
  case (5 n outcomes b bs content)
  show ?case
  proof (cases "n = 0")
    case True
    then show ?thesis using 5(2) by auto
  next
    case False
    then obtain part where "content' = (content @ take n (b # bs)) @ part"
      "strict_prefix part (drop n (b # bs))"
      using 5 by auto
    moreover from this(2) have "strict_prefix (take n (b # bs) @ part) (take n (b # bs) @ drop n (b # bs))"
      by (simp only: strict_prefix_def same_prefix_prefix same_append_eq) simp
    ultimately show ?thesis
      by (intro exI [of _ "take n (b # bs) @ part"]) (simp only: append_assoc append_take_drop_id)
  qed
qed auto

text \<open>Interrupted calls are retried and short ones continued: as many effective calls as there are
  bytes always finish the write.\<close>

definition effective :: "WriteResult \<Rightarrow> bool" where
  "effective r = (r \<noteq> WriteInterrupted)"

lemma WriteAll_total:
  "length xs \<le> length (filter effective outcomes) \<Longrightarrow> WriteAll outcomes xs content \<noteq> None"
  by (induction outcomes xs content rule: WriteAll.induct) (auto simp: effective_def)


subsection \<open>The system of clients, writer and Stop\<close>

text \<open>Besides the recorder: the blocked clients, and as history variables the records \<open>Record\<close>
  accepted, in order, and the number of those it dropped for a full queue.\<close>

record RecSystem =
  sys_rec :: Recorder
  sys_waiting :: "(PendingRecord \<times> u64) list"
  sys_accepted :: "PendingRecord list"
  sys_refused :: nat

definition answered :: "Status \<Rightarrow> Recorder \<Rightarrow> RecSystem \<Rightarrow> RecSystem" where
  "answered st r s =
     s\<lparr>sys_rec := r,
       sys_accepted := (if ok st then sys_accepted s @ [last (rec_queue r)] else sys_accepted s),
       sys_refused := (if code st = Dropped then sys_refused s + 1 else sys_refused s)\<rparr>"

inductive rec_step :: "RecSystem \<Rightarrow> RecSystem \<Rightarrow> bool" where
  client_done:
    "Record_begin channel message_type message copy_error capture now (sys_rec s) =
       (RecordDone st, r) \<Longrightarrow> rec_step s (answered st r s)"
| client_blocks:
    "Record_begin channel message_type message copy_error capture now (sys_rec s) =
       (RecordBlocked p c deadline, r) \<Longrightarrow>
     rec_step s (s\<lparr>sys_rec := r, sys_waiting := (p, c) # sys_waiting s\<rparr>)"
| client_resumes:
    "(p, c) \<in> set (sys_waiting s) \<Longrightarrow> can_resume (sys_rec s) \<Longrightarrow>
     Record_resume p c (sys_rec s) = (st, r) \<Longrightarrow>
     rec_step s (answered st r (s\<lparr>sys_waiting := remove1 (p, c) (sys_waiting s)\<rparr>))"
| client_times_out:
    "(p, c) \<in> set (sys_waiting s) \<Longrightarrow> \<not> can_resume (sys_rec s) \<Longrightarrow>
     Record_timeout (sys_rec s) = (st, r) \<Longrightarrow>
     rec_step s (answered st r (s\<lparr>sys_waiting := remove1 (p, c) (sys_waiting s)\<rparr>))"
| writer_wakes:
    "rec_pc (sys_rec s) = WriterWaiting \<Longrightarrow> writer_wake (sys_rec s) = Some r \<Longrightarrow>
     rec_step s (s\<lparr>sys_rec := r\<rparr>)"
| writer_writes:
    "rec_pc (sys_rec s) = WriterHolds p \<Longrightarrow> writer_write alloc_error outcomes p (sys_rec s) = Some r \<Longrightarrow>
     rec_step s (s\<lparr>sys_rec := r\<rparr>)"
| writer_finishes:
    "rec_pc (sys_rec s) = WriterLeft \<Longrightarrow>
     rec_step s (s\<lparr>sys_rec := writer_finish fsync_error close_error (sys_rec s)\<rparr>)"
| stop_requested:
    "rec_step s (s\<lparr>sys_rec := Stop_request (sys_rec s)\<rparr>)"

inductive_cases rec_stepE: "rec_step s t"

text \<open>A freshly created recorder with a valid configuration.\<close>

definition rec_init :: "RecSystem \<Rightarrow> bool" where
  "rec_init s \<longleftrightarrow>
     (\<exists>what config wall_ns mono_ns outcomes.
        Create what config wall_ns mono_ns Opened outcomes None = Some (Inr (sys_rec s))) \<and>
     sys_waiting s = [] \<and> sys_accepted s = [] \<and> sys_refused s = 0"


subsection \<open>Invariant\<close>

definition held :: "Recorder \<Rightarrow> PendingRecord list" where
  "held r = (case rec_pc r of WriterHolds p \<Rightarrow> [p] | _ \<Rightarrow> [])"

definition chain_last :: "u64 \<Rightarrow> PendingRecord list \<Rightarrow> u64" where
  "chain_last n rs = (if rs = [] then n else pr_monotonic_offset_ns (last rs))"

definition header_of :: "Recorder \<Rightarrow> bytes" where
  "header_of r = BuildFileHeader (rec_wall_clock_start_ns r) (rec_monotonic_start_ns r)"

text \<open>The queue is bounded and its statistics are exact; the writer leaves its loop only when
  stopping with an empty queue; a failed writer is stopping.\<close>

definition control_ok :: "Recorder \<Rightarrow> bool" where
  "control_ok r \<longleftrightarrow>
     ok (ValidateLimits (cfg_limits (rec_config r))) \<and>
     length (rec_queue r) \<le> cfg_queue_capacity (rec_config r) \<and>
     queue_depth (rec_stats r) = length (rec_queue r) \<and>
     length (rec_queue r) \<le> queue_high_watermark (rec_stats r) \<and>
     queue_high_watermark (rec_stats r) \<le> cfg_queue_capacity (rec_config r) \<and>
     (rec_pc r \<in> {WriterLeft, WriterFinished} \<longrightarrow> rec_stopping r \<and> rec_queue r = []) \<and>
     (rec_writer_finished r \<longleftrightarrow> rec_pc r = WriterFinished) \<and>
     (\<not> ok (rec_writer_status r) \<longrightarrow> rec_pc r \<in> {WriterLeft, WriterFinished})"

text \<open>The accepted records are numbered from one, with offsets that never decrease.\<close>

definition history_ok :: "Recorder \<Rightarrow> PendingRecord list \<Rightarrow> bool" where
  "history_ok r accepted \<longleftrightarrow>
     record_chain (cfg_limits (rec_config r)) 1 0 accepted \<and>
     rec_next_record_sequence r = 1 + of_nat (length accepted) \<and>
     rec_last_record_offset_ns r = chain_last 0 accepted \<and>
     accepted_records (rec_stats r) = of_nat (length accepted)"

text \<open>Every accepted record is in the file, in the writer's hand, in the queue or lost to a write
  error, in this order, and the counters say how many.\<close>

definition output_split ::
    "Recorder \<Rightarrow> PendingRecord list \<Rightarrow> nat \<Rightarrow> PendingRecord list \<Rightarrow> PendingRecord list \<Rightarrow> bytes \<Rightarrow> bool" where
  "output_split r accepted refused written lost part \<longleftrightarrow>
     accepted = written @ held r @ rec_queue r @ lost \<and>
     rec_output r = header_of r @ concat (map record_bytes written) @ part \<and>
     (lost = [] \<longrightarrow> part = []) \<and>
     (lost \<noteq> [] \<longrightarrow> \<not> ok (rec_writer_status r) \<and> strict_prefix part (record_bytes (hd lost))) \<and>
     written_records (rec_stats r) = of_nat (length written) \<and>
     bytes_written (rec_stats r) =
       of_nat (length (header_of r @ concat (map record_bytes written))) \<and>
     dropped_records (rec_stats r) = of_nat (refused + length lost)"

definition rec_inv :: "RecSystem \<Rightarrow> bool" where
  "rec_inv s \<longleftrightarrow>
     control_ok (sys_rec s) \<and> history_ok (sys_rec s) (sys_accepted s) \<and>
     (\<exists>written lost part.
        output_split (sys_rec s) (sys_accepted s) (sys_refused s) written lost part) \<and>
     (\<forall>(p, c) \<in> set (sys_waiting s). within_limits (cfg_limits (rec_config (sys_rec s))) p)"

lemma record_chain_snoc:
  "record_chain limits n off (rs @ [r]) \<longleftrightarrow>
     record_chain limits n off rs \<and> within_limits limits r \<and>
     pr_record_sequence r = n + of_nat (length rs) \<and>
     (n + of_nat (length rs) > 1 \<longrightarrow> chain_last off rs \<le> pr_monotonic_offset_ns r)"
  by (induction rs arbitrary: n off) (auto simp: chain_last_def ac_simps)

lemma rec_init_inv: "rec_init s \<Longrightarrow> rec_inv s"
proof -
  assume "rec_init s"
  then obtain what config wall_ns mono_ns outcomes where
    c: "Create what config wall_ns mono_ns Opened outcomes None = Some (Inr (sys_rec s))"
    and e: "sys_waiting s = []" "sys_accepted s = []" "sys_refused s = 0"
    by (auto simp: rec_init_def)
  let ?r = "new_recorder config wall_ns mono_ns"
  from c obtain content where v: "ok (ValidateLimits (cfg_limits config))"
    and r: "sys_rec s = ?r\<lparr>rec_output := content\<rparr>"
    and w: "\<exists>st. ok st \<and> WriteAll outcomes (BuildFileHeader wall_ns mono_ns) [] = Some (st, content)"
    by (auto simp: Create_def split: if_splits option.splits prod.splits)
  from w have "content = BuildFileHeader wall_ns mono_ns"
    by (auto dest: WriteAll_ok)
  then have "output_split (sys_rec s) [] 0 [] [] []"
    by (simp add: r output_split_def held_def new_recorder_def Let_def header_of_def
        zero_recorder_stats_def)
  moreover have "control_ok (sys_rec s)" "history_ok (sys_rec s) []"
    using v by (simp_all add: r control_ok_def history_ok_def new_recorder_def Let_def
        zero_recorder_stats_def chain_last_def)
  ultimately show ?thesis
    by (auto simp: rec_inv_def e)
qed


lemma control_ok_enqueue:
  assumes "control_ok r" "enqueue_record p c r = (st, r')"
    and "length (rec_queue r) < cfg_queue_capacity (rec_config r)" "\<not> rec_stopping r"
  shows "control_ok r'"
  using assms by (auto simp: control_ok_def enqueue_record_def Let_def)

lemma history_ok_enqueue:
  assumes "history_ok r accepted" "enqueue_record p c r = (st, r')"
    and "within_limits (cfg_limits (rec_config r)) p"
  shows "history_ok r' (accepted @ [last (rec_queue r')])" "ok st" "code st \<noteq> Dropped"
  using assms
  by (auto simp: history_ok_def enqueue_record_def Let_def record_chain_snoc within_limits_def
      chain_last_def)

lemma output_split_enqueue:
  assumes "output_split r accepted refused written lost part" "enqueue_record p c r = (st, r')"
    and "ok (rec_writer_status r)"
  shows "output_split r' (accepted @ [last (rec_queue r')]) refused written lost part"
  using assms
  by (auto simp: output_split_def enqueue_record_def Let_def held_def header_of_def)

lemma enqueue_config: "enqueue_record p c r = (st, r') \<Longrightarrow> rec_config r' = rec_config r"
  by (auto simp: enqueue_record_def Let_def)

lemma rec_inv_enqueue:
  assumes "rec_inv s" "enqueue_record p c (sys_rec s) = (st, r')"
    and "length (rec_queue (sys_rec s)) < cfg_queue_capacity (rec_config (sys_rec s))"
    and "\<not> rec_stopping (sys_rec s)" "ok (rec_writer_status (sys_rec s))"
    and "within_limits (cfg_limits (rec_config (sys_rec s))) p"
    and "set ws \<subseteq> set (sys_waiting s)"
  shows "rec_inv (answered st r' (s\<lparr>sys_waiting := ws\<rparr>))"
proof -
  note h = history_ok_enqueue [OF _ assms(2,6)]
  have "ok st" "code st \<noteq> Dropped" using assms(1) h by (auto simp: rec_inv_def)
  then show ?thesis
    using assms(1,7) h(1) control_ok_enqueue [OF _ assms(2,3,4)]
      output_split_enqueue [OF _ assms(2,5)] enqueue_config [OF assms(2)]
    by (fastforce simp: rec_inv_def answered_def)
qed

text \<open>Answers that leave the recorder as it is, but for counters of their own.\<close>

lemma rec_inv_waiting:
  "rec_inv s \<Longrightarrow> set ws \<subseteq> set (sys_waiting s) \<Longrightarrow> rec_inv (s\<lparr>sys_waiting := ws\<rparr>)"
  by (auto simp: rec_inv_def)

lemma rec_inv_refused:
  "rec_inv s \<Longrightarrow> \<not> ok st \<Longrightarrow> code st \<noteq> Dropped \<Longrightarrow> rec_inv (answered st (sys_rec s) s)"
  by (simp add: rec_inv_def answered_def)

lemma writer_status_code:
  "control_ok r \<Longrightarrow> \<not> rec_stopping r \<Longrightarrow> ok (rec_writer_status r)"
  by (auto simp: control_ok_def)

lemma rec_inv_dropped:
  assumes "rec_inv s" "code st = Dropped"
  shows "rec_inv (answered st (sys_rec s\<lparr>rec_stats := (rec_stats (sys_rec s))
     \<lparr>dropped_records := dropped_records (rec_stats (sys_rec s)) + 1\<rparr>\<rparr>) s)"
proof -
  have "\<not> ok st" using assms(2) by (simp add: ok_def)
  with assms show ?thesis
    by (auto simp: rec_inv_def answered_def control_ok_def history_ok_def output_split_def held_def
        header_of_def)
qed


lemma Record_begin_cases:
  assumes "Record_begin channel message_type message copy_error capture now r = (phase, r')"
  obtains (refused) st where "phase = RecordDone st" "r' = r" "\<not> ok st"
      "rec_stopping r \<or> ok (rec_writer_status r) \<longrightarrow> code st \<noteq> Dropped"
  | (dropped) st where "phase = RecordDone st" "code st = Dropped" "\<not> rec_stopping r"
      "cfg_overflow_policy (rec_config r) = DropNewest"
      "cfg_queue_capacity (rec_config r) \<le> length (rec_queue r)"
      "r' = r\<lparr>rec_stats := (rec_stats r)\<lparr>dropped_records := dropped_records (rec_stats r) + 1\<rparr>\<rparr>"
  | (blocked) deadline where
      "phase = RecordBlocked (make_pending channel message_type message) capture deadline" "r' = r"
      "within_limits (cfg_limits (rec_config r)) (make_pending channel message_type message)"
      "cfg_overflow_policy (rec_config r) = BlockWhenFull" "\<not> rec_stopping r"
  | (accepted) st where "phase = RecordDone st" "\<not> rec_stopping r" "ok (rec_writer_status r)"
      "length (rec_queue r) < cfg_queue_capacity (rec_config r)"
      "within_limits (cfg_limits (rec_config r)) (make_pending channel message_type message)"
      "enqueue_record (make_pending channel message_type message) capture r = (st, r')"
proof (cases "record_rejected channel message_type message copy_error (cfg_limits (rec_config r))")
  case (Some st)
  then have "\<not> ok st" "code st \<noteq> Dropped"
    by (auto simp: record_rejected_def split: if_splits option.splits)
  moreover have "phase = RecordDone st" "r' = r"
    using Some assms by (simp_all add: Record_begin_def)
  ultimately show thesis by (intro refused) blast+
next
  case None
  then have lim: "within_limits (cfg_limits (rec_config r)) (make_pending channel message_type message)"
    by (auto simp: record_rejected_def within_limits_def make_pending_def split: if_splits)
  show thesis
  proof (cases "recorder_closed r")
    case (Some st)
    then have "\<not> ok st" "rec_stopping r \<or> ok (rec_writer_status r) \<longrightarrow> code st \<noteq> Dropped"
      by (auto simp: recorder_closed_def split: if_splits)
    moreover have "phase = RecordDone st" "r' = r"
      using Some None assms by (simp_all add: Record_begin_def)
    ultimately show thesis by (intro refused) blast+
  next
    case closed: None
    then have run: "\<not> rec_stopping r" "ok (rec_writer_status r)"
      by (auto simp: recorder_closed_def split: if_splits)
    note start = assms [unfolded Record_begin_def None closed option.case]
    show thesis
    proof (cases "length (rec_queue r) < cfg_queue_capacity (rec_config r)")
      case True
      obtain st q where e: "enqueue_record (make_pending channel message_type message) capture r = (st, q)"
        by fastforce
      show thesis
        by (rule accepted [OF _ run True lim, of st]) (use start True e in simp_all)
    next
      case False
      then have full: "cfg_queue_capacity (rec_config r) \<le> length (rec_queue r)" by simp
      show thesis
      proof (cases "cfg_overflow_policy (rec_config r)")
        case BlockWhenFull
        show thesis
          by (rule blocked [of "now + cfg_enqueue_timeout (rec_config r)", OF _ _ lim BlockWhenFull run(1)])
            (use start full BlockWhenFull in auto)
      next
        case DropNewest
        show thesis
          by (rule dropped [of "mk_status Dropped ''recorder queue is full''", OF _ _ run(1) DropNewest full])
            (use start full DropNewest in auto)
      qed
    qed
  qed
qed

lemma rec_inv_begin_done:
  assumes "rec_inv s"
    and "Record_begin channel message_type message copy_error capture now (sys_rec s) = (RecordDone st, r)"
  shows "rec_inv (answered st r s)"
  using assms(2)
proof (cases rule: Record_begin_cases)
  case (refused st')
  have "rec_stopping (sys_rec s) \<or> ok (rec_writer_status (sys_rec s))"
    using assms(1) writer_status_code by (auto simp: rec_inv_def)
  then show ?thesis
    using refused rec_inv_refused [OF assms(1)] by auto
next
  case (dropped st')
  then show ?thesis using rec_inv_dropped [OF assms(1)] by auto
next
  case (accepted st')
  then show ?thesis
    using rec_inv_enqueue [OF assms(1) accepted(6), of "sys_waiting s"] by simp
qed simp

lemma rec_inv_begin_blocked:
  assumes "rec_inv s"
    and "Record_begin channel message_type message copy_error capture now (sys_rec s) =
      (RecordBlocked p c deadline, r)"
  shows "rec_inv (s\<lparr>sys_rec := r, sys_waiting := (p, c) # sys_waiting s\<rparr>)"
  using assms(2)
  by (cases rule: Record_begin_cases) (use assms(1) in \<open>auto simp: rec_inv_def\<close>)

lemma rec_inv_resume:
  assumes "rec_inv s" "(p, c) \<in> set (sys_waiting s)" "can_resume (sys_rec s)"
    and "Record_resume p c (sys_rec s) = (st, r)"
  shows "rec_inv (answered st r (s\<lparr>sys_waiting := remove1 (p, c) (sys_waiting s)\<rparr>))"
proof -
  let ?s = "s\<lparr>sys_waiting := remove1 (p, c) (sys_waiting s)\<rparr>"
  have inv: "rec_inv ?s"
    using assms(1) set_remove1_subset by (rule rec_inv_waiting)
  show ?thesis
  proof (cases "rec_stopping (sys_rec s)")
    case True
    then show ?thesis
      using assms(4) rec_inv_refused [OF inv, of st] by (auto simp: Record_resume_def recorder_closed_def)
  next
    case False
    moreover have good: "ok (rec_writer_status (sys_rec s))"
      using False assms(1) writer_status_code by (auto simp: rec_inv_def)
    moreover have "within_limits (cfg_limits (rec_config (sys_rec s))) p"
      using assms(1,2) by (auto simp: rec_inv_def)
    ultimately show ?thesis
      using assms(3,4)
      by (intro rec_inv_enqueue [OF assms(1)])
        (auto simp: Record_resume_def recorder_closed_def can_resume_def dest: set_remove1_subset [THEN subsetD])
  qed
qed

lemma rec_inv_timeout:
  assumes "rec_inv s" "Record_timeout (sys_rec s) = (st, r)"
  shows "rec_inv (answered st r (s\<lparr>sys_waiting := remove1 x (sys_waiting s)\<rparr>))"
proof -
  let ?q = "sys_rec s"
  have r: "r = ?q\<lparr>rec_stats := (rec_stats ?q)\<lparr>enqueue_timeouts := enqueue_timeouts (rec_stats ?q) + 1\<rparr>\<rparr>"
    and st: "\<not> ok st" "code st \<noteq> Dropped"
    using assms(2) by (auto simp: Record_timeout_def)
  have "control_ok r = control_ok ?q" "history_ok r = history_ok ?q"
    "output_split r = output_split ?q" "rec_config r = rec_config ?q"
    by (simp_all add: r control_ok_def history_ok_def output_split_def held_def header_of_def fun_eq_iff)
  with rec_inv_waiting [OF assms(1) set_remove1_subset] st show ?thesis
    by (simp add: rec_inv_def answered_def)
qed

text \<open>A step of the writer or of \<open>Stop\<close>: enough to look at the recorder.\<close>

lemma rec_inv_recorder:
  assumes "rec_inv s"
    and "control_ok (sys_rec s) \<Longrightarrow> control_ok r" "rec_config r = rec_config (sys_rec s)"
    and "history_ok r = history_ok (sys_rec s)"
    and "\<And>a f w l p. control_ok (sys_rec s) \<Longrightarrow> history_ok (sys_rec s) a \<Longrightarrow>
      output_split (sys_rec s) a f w l p \<Longrightarrow> \<exists>w l p. output_split r a f w l p"
  shows "rec_inv (s\<lparr>sys_rec := r\<rparr>)"
proof -
  obtain w l p where "output_split (sys_rec s) (sys_accepted s) (sys_refused s) w l p"
    and ok: "control_ok (sys_rec s)" "history_ok (sys_rec s) (sys_accepted s)"
    using assms(1) by (auto simp: rec_inv_def)
  then have "\<exists>w l p. output_split r (sys_accepted s) (sys_refused s) w l p"
    by (rule assms(5) [rotated 2])
  with assms(1-4) ok show ?thesis by (simp add: rec_inv_def)
qed

lemmas recorder_parts = control_ok_def history_ok_def output_split_def held_def header_of_def fun_eq_iff

lemma rec_inv_wake:
  assumes "rec_inv s" "rec_pc (sys_rec s) = WriterWaiting" "writer_wake (sys_rec s) = Some r"
  shows "rec_inv (s\<lparr>sys_rec := r\<rparr>)"
proof (rule rec_inv_recorder [OF assms(1)])
  fix a f w l p
  assume "output_split (sys_rec s) a f w l p"
  with assms(2,3) have "output_split r a f w l p"
    by (auto simp: writer_wake_def recorder_parts split: list.splits if_splits)
  then show "\<exists>w l p. output_split r a f w l p" by blast
qed (use assms(2,3) in \<open>auto simp: writer_wake_def recorder_parts split: list.splits if_splits\<close>)

lemma rec_inv_stop:
  assumes "rec_inv s"
  shows "rec_inv (s\<lparr>sys_rec := Stop_request (sys_rec s)\<rparr>)"
proof (rule rec_inv_recorder [OF assms])
  fix a f w l p
  assume "output_split (sys_rec s) a f w l p"
  then have "output_split (Stop_request (sys_rec s)) a f w l p"
    by (auto simp: Stop_request_def recorder_parts)
  then show "\<exists>w l p. output_split (Stop_request (sys_rec s)) a f w l p" by blast
qed (auto simp: Stop_request_def recorder_parts)

lemma rec_inv_finish:
  assumes "rec_inv s" "rec_pc (sys_rec s) = WriterLeft"
  shows "rec_inv (s\<lparr>sys_rec := writer_finish fsync_error close_error (sys_rec s)\<rparr>)"
    (is "rec_inv (s\<lparr>sys_rec := ?r\<rparr>)")
proof (rule rec_inv_recorder [OF assms(1)])
  fix a f w l p
  assume "output_split (sys_rec s) a f w l p"
  then have "output_split ?r a f w l p"
    using assms(2) by (auto simp: writer_finish_def Let_def recorder_parts split: option.splits)
  then show "\<exists>w l p. output_split ?r a f w l p" by blast
qed (use assms(2) in \<open>auto simp: writer_finish_def Let_def recorder_parts split: option.splits\<close>)

text \<open>The writer either appends exactly the bytes of the record, or fails and leaves a strict prefix
  of them behind.\<close>

lemma writer_write_cases:
  assumes "writer_write alloc_error outcomes p r = Some r'"
    and lim: "ok (ValidateLimits limits)" "within_limits limits p"
  obtains (wrote) "r' = r\<lparr>rec_output := rec_output r @ record_bytes p, rec_pc := WriterWaiting,
      rec_stats := (rec_stats r)\<lparr>written_records := written_records (rec_stats r) + 1,
        bytes_written := bytes_written (rec_stats r) + of_nat (length (record_bytes p))\<rparr>\<rparr>"
  | (failed) part d where "strict_prefix part (record_bytes p)"
      "r' = (FailWriter d (r\<lparr>rec_output := rec_output r @ part\<rparr>))\<lparr>rec_pc := WriterLeft\<rparr>"
proof (cases "alloc_error")
  case (Some what)
  have "strict_prefix [] (record_bytes p)"
    using length_record_bytes [of p] by (cases "record_bytes p") (auto simp: record_size_def trace_consts)
  with Some assms(1) show thesis
    by (intro failed) (auto simp: writer_write_def)
next
  case None
  have ser: "SerializeRecord p = Inr (record_bytes p)"
    by (rule SerializeRecord_within_limits [OF lim])
  with assms(1) None obtain st content where w:
    "WriteAll outcomes (record_bytes p) (rec_output r) = Some (st, content)"
    by (auto simp: writer_write_def split: option.splits prod.splits)
  show thesis
  proof (cases "ok st")
    case True
    then show thesis
      using assms(1) None ser w WriteAll_ok [OF w] by (intro wrote) (simp add: writer_write_def Let_def)
  next
    case False
    obtain part where "content = rec_output r @ part" "strict_prefix part (record_bytes p)"
      using WriteAll_prefix [OF w False] by blast
    then show thesis
      using assms(1) None ser w False
      by (intro failed [of part "detail st"]) (simp_all add: writer_write_def Let_def)
  qed
qed


lemma record_chain_limits: "record_chain limits n off rs \<Longrightarrow> r \<in> set rs \<Longrightarrow> within_limits limits r"
  by (induction rs arbitrary: n off) auto

lemma rec_inv_write:
  assumes "rec_inv s" and pc: "rec_pc (sys_rec s) = WriterHolds p"
    and "writer_write alloc_error outcomes p (sys_rec s) = Some r"
  shows "rec_inv (s\<lparr>sys_rec := r\<rparr>)"
proof -
  let ?q = "sys_rec s"
  have c: "control_ok ?q" and h: "history_ok ?q (sys_accepted s)"
    and "p \<in> set (sys_accepted s)"
    using assms(1) pc by (auto simp: rec_inv_def output_split_def held_def)
  then have lim: "ok (ValidateLimits (cfg_limits (rec_config ?q)))"
    "within_limits (cfg_limits (rec_config ?q)) p"
    by (auto simp: control_ok_def history_ok_def dest: record_chain_limits)
  from assms(3) lim show ?thesis
  proof (cases rule: writer_write_cases)
    case wrote
    show ?thesis
    proof (rule rec_inv_recorder [OF assms(1)])
      fix a f w l part
      assume "output_split ?q a f w l part" "control_ok ?q"
      then have "output_split r a f (w @ [p]) l part"
        using pc by (auto simp: wrote output_split_def held_def header_of_def control_ok_def)
      then show "\<exists>w l p. output_split r a f w l p" by blast
    qed (use pc in \<open>auto simp: wrote control_ok_def history_ok_def\<close>)
  next
    case (failed part d)
    show ?thesis
    proof (rule rec_inv_recorder [OF assms(1)])
      fix a f w l part'
      assume "output_split ?q a f w l part'" "control_ok ?q"
      then have "output_split r a f w (p # rec_queue ?q) part"
        using pc failed(1)
        by (auto simp: failed(2) FailWriter_def output_split_def held_def header_of_def control_ok_def)
      then show "\<exists>w l p. output_split r a f w l p" by blast
    qed (use pc in \<open>auto simp: failed(2) FailWriter_def control_ok_def history_ok_def fun_eq_iff\<close>)
  qed
qed

lemma rec_step_inv: "rec_step s t \<Longrightarrow> rec_inv s \<Longrightarrow> rec_inv t"
  by (induction rule: rec_step.induct)
    (rule rec_inv_begin_done rec_inv_begin_blocked rec_inv_resume rec_inv_timeout rec_inv_wake
      rec_inv_write rec_inv_finish rec_inv_stop; assumption)+

interpretation recorder_run: step_invariant rec_init rec_step rec_inv
  by unfold_locales (auto intro: rec_init_inv rec_step_inv)

end
