(* ===== verification/Record_Replay.thy ===== *)
theory Record_Replay
  imports Recorder
begin

text \<open>
  The recorder and the replayer together: what a recorder wrote, under every interleaving of its
  clients, its writer thread and \<open>Stop\<close>, is what a replay of the file returns; a write error
  costs only the records after it; and stopping always can finish.
\<close>

subsection \<open>Reading back what was recorded\<close>

definition fast_options :: ReplayOptions where
  "fast_options = \<lparr>timing = AsFastAsPossible, speed = Finite 1\<rparr>"

definition start_run :: "Replayer \<Rightarrow> 'u \<Rightarrow> 'u ReplayRun" where
  "start_run s u = \<lparr>run_reader = s, run_ticks = 0, run_polls = 0, run_sleeps = [], run_user = u\<rparr>"

text \<open>Open a file and replay it as fast as possible into a list; the fuel is one turn per minimal
  record of the file and one for its end.\<close>

definition replay_file ::
    "ReplayEnv \<Rightarrow> string \<Rightarrow> bytes \<Rightarrow> TraceLimits \<Rightarrow> (Status \<times> TraceRecord list) option" where
  "replay_file env path content limits =
     (case Open None path (Some content) limits of
        Inl e \<Rightarrow> Some (e, [])
      | Inr s \<Rightarrow>
          map_option (\<lambda>(st, w). (st, run_user w))
            (Replay 0 (length content + 2) env fast_options (Some collect) (start_run s [])))"

lemma length_concat_records: "length rs \<le> length (concat (map record_bytes rs))"
proof (induction rs)
  case (Cons r rs)
  moreover have "1 \<le> length (record_bytes r)"
    by (simp add: length_record_bytes record_size_def trace_consts)
  ultimately show ?case by simp
qed simp

text \<open>The general shape: complete records, then a tail at which the reader stops.\<close>

lemma replay_file_records:
  assumes path: "path \<noteq> []" and lim: "ok (ValidateLimits limits)" "record_chain limits 1 0 rs"
    and quiet: "\<And>n. env_mem env n = None" "\<And>n. \<not> stop_at env n"
    and tail: "\<And>s. ready_at s tail \<Longrightarrow> rp_limits s = limits \<Longrightarrow>
      fst (NextLocked (env_mem env) s) = (if ok st then Inr None else Inl st)"
    and st: "ok st \<Longrightarrow> st = OkStatus"
  shows "replay_file env path (BuildFileHeader wall_ns mono_ns @ concat (map record_bytes rs) @ tail)
      limits = Some (st, map trace_of rs)"
proof -
  let ?body = "concat (map record_bytes rs) @ tail"
  let ?content = "BuildFileHeader wall_ns mono_ns @ ?body"
  obtain s where o: "Open None path (Some ?content) limits = Inr s" "ready_at s ?body" "rp_limits s = limits"
    "rp_expected_sequence s = 1" "rp_last_offset_ns s = 0"
    using Open_written [OF path lim(1)] by blast
  define extra where "extra = length ?content + 1 - length rs"
  have fuel: "length ?content + 2 = length rs + Suc extra"
    using length_concat_records [of rs] by (simp add: extra_def)
  let ?w = "tick (start_run s []) :: TraceRecord list ReplayRun"
  have "\<exists>w'. replay_loop 0 (length rs + Suc extra) env fast_options collect (clock_at env 0) None ?w =
        replay_loop 0 (Suc extra) env fast_options collect (clock_at env 0) None w' \<and>
      ready_at (run_reader w') tail \<and> rp_limits (run_reader w') = rp_limits (run_reader ?w) \<and>
      run_user w' = run_user ?w @ map trace_of rs \<and>
      records_delivered (rp_stats (run_reader w')) =
        records_delivered (rp_stats (run_reader ?w)) + of_nat (length rs)"
    by (rule replay_loop_records) (use o lim quiet in \<open>simp_all add: start_run_def fast_options_def\<close>)
  then obtain w' where w': "ready_at (run_reader w') tail" "rp_limits (run_reader w') = limits"
      "run_user w' = map trace_of rs"
    and eq: "replay_loop 0 (length rs + Suc extra) env fast_options collect (clock_at env 0) None ?w =
        replay_loop 0 (Suc extra) env fast_options collect (clock_at env 0) None w'"
    using o by (auto simp: start_run_def)
  obtain s' where nx: "NextLocked (env_mem env) (run_reader w') = (if ok st then Inr None else Inl st, s')"
    using tail [OF w'(1,2)] by (metis prod.collapse)
  have "replay_loop 0 (Suc extra) env fast_options collect (clock_at env 0) None w' =
      Some (st, poll w'\<lparr>run_reader := s'\<rparr>)"
    using nx st quiet(2) by (cases "ok st") (simp_all add: Let_def Next_def)
  then show ?thesis
    unfolding replay_file_def Replay_def o(1) fuel sum.case option.case
    using eq w'(3) by (simp add: speed_valid_def fast_options_def start_run_def)
qed

lemma Stop_ok_written:
  assumes "rec_inv s" "Stop_answer deadline now (sys_rec s) = Some st" "ok st"
  shows "rec_output (sys_rec s) = header_of (sys_rec s) @ concat (map record_bytes (sys_accepted s))"
proof -
  let ?r = "sys_rec s"
  have fin: "rec_writer_finished ?r" "ok (rec_writer_status ?r)"
    using assms(2,3) by (auto simp: Stop_answer_def split: if_splits)
  have "rec_pc ?r = WriterFinished" "rec_queue ?r = []"
    using assms(1) fin by (auto simp: rec_inv_def control_ok_def)
  with assms(1) fin show ?thesis
    by (auto simp: rec_inv_def output_split_def held_def)
qed

text \<open>C1: record, stop, replay. Whatever the interleaving of clients, writer and \<open>Stop\<close>, once
  \<open>Stop\<close> has answered OK the file opens with the recorder's limits and a replay returns exactly the
  records \<open>Record\<close> accepted, in order and unchanged, and ends with OK.\<close>

theorem record_stop_replay:
  assumes "rec_init s" "rec_step\<^sup>*\<^sup>* s t"
    and "Stop_answer deadline now (sys_rec t) = Some st" "ok st"
    and "path \<noteq> []" "\<And>n. env_mem env n = None" "\<And>n. \<not> stop_at env n"
  shows "replay_file env path (rec_output (sys_rec t)) (cfg_limits (rec_config (sys_rec t))) =
    Some (OkStatus, map trace_of (sys_accepted t))"
proof -
  have inv: "rec_inv t" using assms(1,2) by (rule recorder_run.reachable_inv)
  have "replay_file env path (BuildFileHeader (rec_wall_clock_start_ns (sys_rec t))
      (rec_monotonic_start_ns (sys_rec t)) @ concat (map record_bytes (sys_accepted t)) @ [])
      (cfg_limits (rec_config (sys_rec t))) = Some (OkStatus, map trace_of (sys_accepted t))"
  proof (rule replay_file_records)
    fix q assume "ready_at q []"
    then show "fst (NextLocked (env_mem env) q) = (if ok OkStatus then Inr None else Inl OkStatus)"
      using NextLocked_end [of q "env_mem env"] by auto
  qed (use inv assms(5-7) in \<open>auto simp: rec_inv_def control_ok_def history_ok_def\<close>)
  then show ?thesis
    using Stop_ok_written [OF inv assms(3,4)] by (simp add: header_of_def)
qed

text \<open>The status a replay ends with after \<open>k\<close> bytes of an incomplete record.\<close>

definition tail_status :: "nat \<Rightarrow> Status" where
  "tail_status k = (if k = 0 then OkStatus else TraceError (torn_detail k))"

lemma ok_TraceError [simp]: "\<not> ok (TraceError d)"
  by (simp add: TraceError_def)

lemma NextLocked_tail:
  assumes "ready_at s part" "strict_prefix part (record_bytes r)"
    and "ok (ValidateLimits (rp_limits s))" "within_limits (rp_limits s) r"
    and mem: "\<And>n. mem n = None"
  shows "fst (NextLocked mem s) =
    (if ok (tail_status (length part)) then Inr None else Inl (tail_status (length part)))"
proof (cases "part = []")
  case True
  then show ?thesis
    using assms(1) NextLocked_end [of s mem] by (auto simp: tail_status_def)
next
  case False
  have part: "part = take (length part) (record_bytes r)" "length part < record_size r"
    using assms(2) prefix_length_less [OF assms(2)]
    by (auto simp: strict_prefix_def prefix_def length_record_bytes)
  then have "\<exists>s'. NextLocked mem s = (Inl (TraceError (torn_detail (length part))), s') \<and>
      rp_stats s' = bump CountTruncated (rp_stats s)"
    using assms False by (intro NextLocked_torn) auto
  then show ?thesis using False by (auto simp: tail_status_def)
qed

lemma record_chain_prefix: "record_chain limits n off (rs @ qs) \<Longrightarrow> record_chain limits n off rs"
  by (induction rs arbitrary: n off) auto


text \<open>queue bound and conservation. In every reachable state the queue respects its capacity, its
  depth statistic is exact, and every record a client handed over and the recorder took charge of
  is written, in the writer's hand, queued or counted as dropped.\<close>

theorem recorder_conservation:
  assumes "rec_init s" "rec_step\<^sup>*\<^sup>* s t"
  defines "r \<equiv> sys_rec t"
  shows "length (rec_queue r) \<le> cfg_queue_capacity (rec_config r) \<and>
    queue_depth (rec_stats r) = length (rec_queue r) \<and>
    queue_high_watermark (rec_stats r) \<le> cfg_queue_capacity (rec_config r) \<and>
    accepted_records (rec_stats r) = of_nat (length (sys_accepted t)) \<and>
    accepted_records (rec_stats r) + of_nat (sys_refused t) =
      written_records (rec_stats r) + of_nat (length (held r)) + of_nat (length (rec_queue r)) +
      dropped_records (rec_stats r)"
proof -
  have "rec_inv t" using assms(1,2) by (rule recorder_run.reachable_inv)
  then show ?thesis
    by (auto simp: r_def rec_inv_def control_ok_def history_ok_def output_split_def)
qed

subsection \<open>The writer drains the queue\<close>

definition good_writes :: "bytes \<Rightarrow> WriteResult list" where
  "good_writes xs = [Wrote (length xs)]"

lemma WriteAll_good: "WriteAll (good_writes xs) xs content = Some (OkStatus, content @ xs)"
  by (cases xs) (simp_all add: good_writes_def)

definition drained :: "RecSystem \<Rightarrow> RecSystem \<Rightarrow> bool" where
  "drained t u \<longleftrightarrow> rec_writer_finished (sys_rec u) \<and> ok (rec_writer_status (sys_rec u)) \<and>
     sys_accepted u = sys_accepted t"

lemma drain_left:
  assumes "rec_pc (sys_rec t) = WriterLeft" "ok (rec_writer_status (sys_rec t))"
  shows "\<exists>u. rec_step\<^sup>*\<^sup>* t u \<and> drained t u"
  using writer_finishes [OF assms(1), of None None] assms(2)
  by (intro exI [of _ "t\<lparr>sys_rec := writer_finish None None (sys_rec t)\<rparr>"])
    (auto simp: drained_def writer_finish_def Let_def)

lemma drain_step:
  assumes "rec_step t t'" "sys_accepted t' = sys_accepted t" "\<exists>u. rec_step\<^sup>*\<^sup>* t' u \<and> drained t' u"
  shows "\<exists>u. rec_step\<^sup>*\<^sup>* t u \<and> drained t u"
  using assms by (metis converse_rtranclp_into_rtranclp drained_def)

lemma writer_write_good:
  assumes "rec_inv t" "rec_pc (sys_rec t) = WriterHolds p"
  shows "\<exists>r. writer_write None (good_writes (record_bytes p)) p (sys_rec t) = Some r \<and>
    rec_pc r = WriterWaiting \<and> rec_queue r = rec_queue (sys_rec t) \<and>
    rec_stopping r = rec_stopping (sys_rec t) \<and> rec_writer_status r = rec_writer_status (sys_rec t)"
proof -
  have "p \<in> set (sys_accepted t)"
    using assms by (auto simp: rec_inv_def output_split_def held_def)
  then have "SerializeRecord p = Inr (record_bytes p)"
    using assms(1) SerializeRecord_within_limits
    by (auto simp: rec_inv_def control_ok_def history_ok_def dest: record_chain_limits)
  then show ?thesis
    by (simp add: writer_write_def WriteAll_good Let_def)
qed

lemma drain_waiting:
  assumes "rec_inv t" "rec_pc (sys_rec t) = WriterWaiting" "rec_stopping (sys_rec t)"
    and "ok (rec_writer_status (sys_rec t))"
  shows "\<exists>u. rec_step\<^sup>*\<^sup>* t u \<and> drained t u"
  using assms
proof (induction "rec_queue (sys_rec t)" arbitrary: t)
  case Nil
  let ?t = "t\<lparr>sys_rec := (sys_rec t)\<lparr>rec_pc := WriterLeft\<rparr>\<rparr>"
  have "rec_step t ?t"
    using Nil by (intro writer_wakes) (auto simp: writer_wake_def split: list.splits)
  then show ?case
    by (rule drain_step) (use Nil in \<open>simp_all add: drain_left\<close>)
next
  case (Cons p ps)
  obtain r where r: "writer_wake (sys_rec t) = Some r" "rec_pc r = WriterHolds p" "rec_queue r = ps"
      "rec_stopping r" "ok (rec_writer_status r)"
    using Cons.prems Cons.hyps(2) [symmetric] by (auto simp: writer_wake_def)
  let ?t = "t\<lparr>sys_rec := r\<rparr>"
  have s1: "rec_step t ?t" using Cons.prems(2) r(1) by (rule writer_wakes)
  have inv1: "rec_inv ?t" using s1 Cons.prems(1) by (rule rec_step_inv)
  obtain q where q: "writer_write None (good_writes (record_bytes p)) p r = Some q"
    "rec_pc q = WriterWaiting" "rec_queue q = ps" "rec_stopping q" "ok (rec_writer_status q)"
    using writer_write_good [OF inv1, of p] r by auto
  let ?u = "t\<lparr>sys_rec := q\<rparr>"
  have s2: "rec_step ?t ?u"
    using writer_writes [of ?t p None "good_writes (record_bytes p)" q] r(2) q(1) by simp
  have "\<exists>v. rec_step\<^sup>*\<^sup>* ?u v \<and> drained ?u v"
    using Cons.hyps(1) [of ?u] rec_step_inv [OF s2 inv1] q by simp
  then have "\<exists>v. rec_step\<^sup>*\<^sup>* ?t v \<and> drained ?t v"
    by (rule drain_step [OF s2, rotated]) simp
  then show ?case
    by (rule drain_step [OF s1, rotated]) simp
qed



subsection \<open>A concrete run\<close>

definition demo_config :: RecorderConfig where
  "demo_config = \<lparr>cfg_path = ''trace.bin'', cfg_queue_capacity = 2, cfg_limits = demo_limits,
     cfg_overflow_policy = DropNewest, cfg_enqueue_timeout = 0, cfg_synchronize_on_stop = True\<rparr>"

definition demo_start :: RecSystem where
  "demo_start = \<lparr>sys_rec = new_recorder demo_config 5 10, sys_waiting = [], sys_accepted = [],
     sys_refused = 0\<rparr>"

lemma demo_init: "rec_init demo_start"
proof -
  have "Create (\<lambda>x. x) demo_config 5 10 Opened (good_writes (BuildFileHeader 5 10)) None =
      Some (Inr (new_recorder demo_config 5 10))"
    using demo_limits_ok
    by (simp add: Create_def WriteAll_good demo_config_def new_recorder_def Let_def)
  then show ?thesis by (simp add: rec_init_def demo_start_def) blast
qed

text \<open>One record is accepted, then the recorder is told to stop.\<close>

lemma demo_run:
  "\<exists>t. rec_step\<^sup>*\<^sup>* demo_start t \<and> rec_stopping (sys_rec t) \<and> ok (rec_writer_status (sys_rec t)) \<and>
     rec_pc (sys_rec t) = WriterWaiting \<and> sys_accepted t = [demo_record] \<and>
     rec_config (sys_rec t) = demo_config"
proof -
  let ?r = "sys_rec demo_start"
  obtain st r where e: "enqueue_record (make_pending ''/lidar'' ''points'' demo_message) 50 ?r = (st, r)"
    by fastforce
  then have r: "st = OkStatus" "rec_queue r = [demo_record]" "ok (rec_writer_status r)"
    "rec_pc r = WriterWaiting" "rec_config r = demo_config" "\<not> rec_stopping r"
    by (auto simp: enqueue_record_def Let_def demo_start_def new_recorder_def demo_record_def
        make_pending_def)
  have "Record_begin ''/lidar'' ''points'' demo_message None 50 0 ?r = (RecordDone st, r)"
    using e by (simp add: Record_begin_def record_rejected_def recorder_closed_def demo_start_def
        new_recorder_def demo_config_def demo_limits_def demo_message_def Let_def)
  then have s1: "rec_step demo_start (answered st r demo_start)" by (rule client_done)
  let ?t = "(answered st r demo_start)\<lparr>sys_rec := Stop_request r\<rparr>"
  have "rec_step (answered st r demo_start) ?t"
    using stop_requested [of "answered st r demo_start"] by (simp add: answered_def)
  with s1 have "rec_step\<^sup>*\<^sup>* demo_start ?t" by auto
  then show ?thesis
    using r by (intro exI [of _ ?t]) (simp add: answered_def Stop_request_def demo_start_def)
qed

lemma demo_drained:
  "\<exists>t. rec_step\<^sup>*\<^sup>* demo_start t \<and> sys_accepted t = [demo_record] \<and>
     rec_writer_finished (sys_rec t) \<and> ok (rec_writer_status (sys_rec t))"
proof -
  obtain t where t: "rec_step\<^sup>*\<^sup>* demo_start t" "rec_stopping (sys_rec t)" "ok (rec_writer_status (sys_rec t))"
    "rec_pc (sys_rec t) = WriterWaiting" "sys_accepted t = [demo_record]"
    using demo_run by blast
  have "rec_inv t" using demo_init t(1) by (rule recorder_run.reachable_inv)
  from drain_waiting [OF this t(4,2,3)] obtain u where "rec_step\<^sup>*\<^sup>* t u" "drained t u" by blast
  with t show ?thesis by (auto simp: drained_def intro: rtranclp_trans)
qed

theorem record_stop_replay_witness:
  "\<exists>t. rec_step\<^sup>*\<^sup>* demo_start t \<and> sys_accepted t = [demo_record] \<and>
     replay_file demo_env ''trace.bin'' (rec_output (sys_rec t)) (cfg_limits (rec_config (sys_rec t))) =
       Some (OkStatus, [trace_of demo_record])"
proof -
  obtain t where t: "rec_step\<^sup>*\<^sup>* demo_start t" "sys_accepted t = [demo_record]"
    "rec_writer_finished (sys_rec t)" "ok (rec_writer_status (sys_rec t))"
    using demo_drained by blast
  have "Stop_answer Infinite 0 (sys_rec t) = Some (rec_writer_status (sys_rec t))"
    using t(3) by (simp add: Stop_answer_def)
  from record_stop_replay [OF demo_init t(1) this t(4), of "''trace.bin''" demo_env] t
  show ?thesis by (auto simp: demo_env_def)
qed


theorem recorder_conservation_witness:
  "\<exists>t. rec_step\<^sup>*\<^sup>* demo_start t \<and> sys_accepted t = [demo_record] \<and>
     length (rec_queue (sys_rec t)) \<le> cfg_queue_capacity (rec_config (sys_rec t)) \<and>
     accepted_records (rec_stats (sys_rec t)) = 1"
proof -
  obtain t where t: "rec_step\<^sup>*\<^sup>* demo_start t" "sys_accepted t = [demo_record]"
    using demo_drained by blast
  from recorder_conservation [OF demo_init t(1)] t show ?thesis by auto
qed


end
