(* ===== verification/In_Memory_Transport.thy ===== *)
theory In_Memory_Transport
  imports Runtime_Core
begin

text \<open>
  The transport interface of \<open>transport.hpp\<close> (QoS profile, statistics, the loan and sample
  handles) and its in-process implementation \<open>in_memory_transport.cpp\<close>.

  A callback is a value of an arbitrary type, and an invocation function says what calling it does
  to the rest of the world and whether it throws. The order in which an \<open>unordered_map\<close> is
  traversed is not specified; the subscriptions are kept as a list and the traversal follows it.
\<close>

subsection \<open>Interface types\<close>

datatype Reliability = Reliable | BestEffort

datatype HistoryKind = KeepLast | KeepAll

datatype LivelinessKind = Automatic | ManualByTopic

record QosProfile =
  reliability :: Reliability
  history :: HistoryKind
  depth :: nat
  qos_deadline :: duration
  liveliness :: LivelinessKind
  liveliness_lease :: duration

record TransportStats =
  published_messages :: u64
  delivered_messages :: u64
  dropped_messages :: u64
  publish_failures :: u64
  rpc_requests :: u64
  rpc_failures :: u64

definition zero_transport_stats :: TransportStats where
  "zero_transport_stats = \<lparr>published_messages = 0, delivered_messages = 0, dropped_messages = 0,
     publish_failures = 0, rpc_requests = 0, rpc_failures = 0\<rparr>"

text \<open>What a callback may do: return or throw.\<close>

type_synonym ('cb, 'w) message_callback = "'cb \<Rightarrow> Message \<Rightarrow> 'w \<Rightarrow> bool \<times> 'w"

type_synonym ('sv, 'w) service_callback =
  "'sv \<Rightarrow> Message \<Rightarrow> Deadline \<Rightarrow> 'w \<Rightarrow> Message Result option \<times> 'w"


subsection \<open>Loans and samples\<close>

text \<open>A loan and a sample own a backend that is handed over at most once: publishing, abandoning or
  releasing takes it out of the handle. \<open>'b\<close> is the state of the backend; its two operations
  are arguments.\<close>

record 'b TransportPublisherLoan =
  loan_backend :: "'b option"

definition loan_Publish ::
    "('b \<Rightarrow> MessageEnvelope \<Rightarrow> Status) \<Rightarrow> MessageEnvelope \<Rightarrow> 'b TransportPublisherLoan \<Rightarrow>
     Status \<times> 'b TransportPublisherLoan" where
  "loan_Publish publish env loan =
     (case loan_backend loan of
        None \<Rightarrow> (mk_status Closed ''publisher loan is empty'', loan)
      | Some b \<Rightarrow> (publish b env, loan\<lparr>loan_backend := None\<rparr>))"

definition loan_Abandon ::
    "('b \<Rightarrow> Status) \<Rightarrow> 'b TransportPublisherLoan \<Rightarrow> Status \<times> 'b TransportPublisherLoan" where
  "loan_Abandon abandon loan =
     (case loan_backend loan of
        None \<Rightarrow> (OkStatus, loan)
      | Some b \<Rightarrow> (abandon b, loan\<lparr>loan_backend := None\<rparr>))"

record 'b TransportSubscriberSample =
  sample_envelope :: MessageEnvelope
  sample_backend :: "'b option"

definition sample_Release ::
    "('b \<Rightarrow> Status) \<Rightarrow> 'b TransportSubscriberSample \<Rightarrow> Status \<times> 'b TransportSubscriberSample" where
  "sample_Release release sample =
     (case sample_backend sample of
        None \<Rightarrow> (OkStatus, sample)
      | Some b \<Rightarrow> (release b, sample\<lparr>sample_backend := None\<rparr>))"

definition sample_ContinueTrace :: "'b TransportSubscriberSample \<Rightarrow> TraceContext" where
  "sample_ContinueTrace sample =
     \<lparr>ctx_trace_id = trace_id (sample_envelope sample),
      ctx_parent_span_id = span_id (sample_envelope sample),
      ctx_origin_timestamp_ns = source_timestamp_ns (sample_envelope sample)\<rparr>"


subsection \<open>State of the in-memory transport\<close>

record 'cb SubscriptionEntry =
  sub_id :: u64
  sub_topic :: string
  sub_qos :: QosProfile
  sub_callback :: 'cb

record 'sv ServiceEntry =
  svc_id :: u64
  svc_name :: string
  svc_callback :: 'sv

record ('cb, 'sv) InMemoryTransport =
  imt_closed :: bool
  imt_next_subscription_id :: u64
  imt_next_service_id :: u64
  imt_subscriptions :: "(u64 \<times> 'cb SubscriptionEntry) list"
  imt_services :: "u64 \<rightharpoonup> 'sv ServiceEntry"
  imt_service_names :: "string \<rightharpoonup> u64"
  imt_stats :: TransportStats

definition InMemoryTransport_new :: "('cb, 'sv) InMemoryTransport" where
  "InMemoryTransport_new =
     \<lparr>imt_closed = False, imt_next_subscription_id = 1, imt_next_service_id = 1,
      imt_subscriptions = [], imt_services = Map.empty, imt_service_names = Map.empty,
      imt_stats = zero_transport_stats\<rparr>"


subsection \<open>Publish and subscribe\<close>

fun run_callbacks ::
    "('cb, 'w) message_callback \<Rightarrow> Message \<Rightarrow> 'cb list \<Rightarrow> 'w \<Rightarrow> u64 \<times> u64 \<times> 'w" where
  "run_callbacks invoke message [] w = (0, 0, w)"
| "run_callbacks invoke message (cb # cbs) w =
     (case invoke cb message w of (returned, w) \<Rightarrow>
      case run_callbacks invoke message cbs w of (delivered, failed, w) \<Rightarrow>
        if returned then (delivered + 1, failed, w) else (delivered, failed + 1, w))"

definition matching_callbacks :: "string \<Rightarrow> ('cb, 'sv) InMemoryTransport \<Rightarrow> 'cb list" where
  "matching_callbacks topic s =
     map (\<lambda>(i, e). sub_callback e) (filter (\<lambda>(i, e). sub_topic e = topic) (imt_subscriptions s))"

text \<open>The section of \<open>Publish\<close> under the lock before the callbacks run, and the one after.\<close>

definition Publish_begin ::
    "string \<Rightarrow> ('cb, 'sv) InMemoryTransport \<Rightarrow> 'cb list Result \<times> ('cb, 'sv) InMemoryTransport" where
  "Publish_begin topic s =
     (let st = imt_stats s in
      if imt_closed s
      then (Inl (mk_status Closed ''transport is closed''),
        s\<lparr>imt_stats := st\<lparr>publish_failures := publish_failures st + 1\<rparr>\<rparr>)
      else (Inr (matching_callbacks topic s),
        s\<lparr>imt_stats := st\<lparr>published_messages := published_messages st + 1\<rparr>\<rparr>))"

definition Publish_end ::
    "u64 \<Rightarrow> u64 \<Rightarrow> ('cb, 'sv) InMemoryTransport \<Rightarrow> Status \<times> ('cb, 'sv) InMemoryTransport" where
  "Publish_end delivered failed s =
     (let st = imt_stats s in
      (if failed \<noteq> 0 then mk_status Internal ''one or more in-memory subscribers threw'' else OkStatus,
       s\<lparr>imt_stats := st
         \<lparr>delivered_messages := delivered_messages st + delivered,
          dropped_messages := dropped_messages st + failed\<rparr>\<rparr>))"

definition imt_Publish ::
    "('cb, 'w) message_callback \<Rightarrow> string \<Rightarrow> Message \<Rightarrow> QosProfile \<Rightarrow>
     ('cb, 'sv) InMemoryTransport \<times> 'w \<Rightarrow> Status \<times> ('cb, 'sv) InMemoryTransport \<times> 'w" where
  "imt_Publish invoke topic message qos = (\<lambda>(s, w).
     if topic = [] then (mk_status InvalidArgument ''topic must not be empty'', s, w)
     else case Publish_begin topic s of
       (Inl e, s) \<Rightarrow> (e, s, w)
     | (Inr callbacks, s) \<Rightarrow>
       (case run_callbacks invoke message callbacks w of (delivered, failed, w) \<Rightarrow>
        case Publish_end delivered failed s of (st, s) \<Rightarrow> (st, s, w)))"

definition imt_Subscribe ::
    "string \<Rightarrow> QosProfile \<Rightarrow> 'cb option \<Rightarrow> ('cb, 'sv) InMemoryTransport \<Rightarrow>
     u64 Result \<times> ('cb, 'sv) InMemoryTransport" where
  "imt_Subscribe topic qos callback s =
     (case callback of
        None \<Rightarrow> (Inl (mk_status InvalidArgument ''subscription requires topic, callback, and depth''), s)
      | Some cb \<Rightarrow>
        if topic = [] \<or> depth qos = 0
        then (Inl (mk_status InvalidArgument ''subscription requires topic, callback, and depth''), s)
        else if imt_closed s then (Inl (mk_status Closed ''transport is closed''), s)
        else let i = imt_next_subscription_id s;
                 e = \<lparr>sub_id = i, sub_topic = topic, sub_qos = qos, sub_callback = cb\<rparr> in
          (Inr i, s\<lparr>imt_next_subscription_id := i + 1,
             imt_subscriptions := (if i \<in> fst ` set (imt_subscriptions s) then imt_subscriptions s
               else imt_subscriptions s @ [(i, e)])\<rparr>))"

definition imt_Unsubscribe ::
    "u64 \<Rightarrow> ('cb, 'sv) InMemoryTransport \<Rightarrow> Status \<times> ('cb, 'sv) InMemoryTransport" where
  "imt_Unsubscribe i s =
     (if i \<notin> fst ` set (imt_subscriptions s)
      then (mk_status NotFound ''subscription does not exist'', s)
      else (OkStatus, s\<lparr>imt_subscriptions := filter (\<lambda>(j, e). j \<noteq> i) (imt_subscriptions s)\<rparr>))"


subsection \<open>Services\<close>

definition imt_AdvertiseService ::
    "string \<Rightarrow> 'sv option \<Rightarrow> ('cb, 'sv) InMemoryTransport \<Rightarrow>
     u64 Result \<times> ('cb, 'sv) InMemoryTransport" where
  "imt_AdvertiseService service_name callback s =
     (case callback of
        None \<Rightarrow> (Inl (mk_status InvalidArgument ''service requires name and callback''), s)
      | Some cb \<Rightarrow>
        if service_name = []
        then (Inl (mk_status InvalidArgument ''service requires name and callback''), s)
        else if imt_closed s then (Inl (mk_status Closed ''transport is closed''), s)
        else if imt_service_names s service_name \<noteq> None
        then (Inl (mk_status AlreadyExists ''service name is already advertised''), s)
        else let i = imt_next_service_id s;
                 e = \<lparr>svc_id = i, svc_name = service_name, svc_callback = cb\<rparr> in
          (Inr i, s\<lparr>imt_next_service_id := i + 1,
             imt_service_names := (imt_service_names s)(service_name \<mapsto> i),
             imt_services := (if imt_services s i = None then (imt_services s)(i \<mapsto> e)
               else imt_services s)\<rparr>))"

definition imt_RemoveService ::
    "u64 \<Rightarrow> ('cb, 'sv) InMemoryTransport \<Rightarrow> Status \<times> ('cb, 'sv) InMemoryTransport" where
  "imt_RemoveService i s =
     (case imt_services s i of
        None \<Rightarrow> (mk_status NotFound ''service does not exist'', s)
      | Some e \<Rightarrow>
        (OkStatus, s\<lparr>imt_service_names := (imt_service_names s)(svc_name e := None),
           imt_services := (imt_services s)(i := None)\<rparr>))"

text \<open>The lookup of \<open>Request\<close>: \<open>None\<close> is the exception \<open>services.at\<close> would throw.\<close>

definition Request_begin ::
    "string \<Rightarrow> ('cb, 'sv) InMemoryTransport \<Rightarrow> ('sv Result \<times> ('cb, 'sv) InMemoryTransport) option" where
  "Request_begin service_name s =
     (let st = imt_stats s; failed = s\<lparr>imt_stats := st\<lparr>rpc_failures := rpc_failures st + 1\<rparr>\<rparr> in
      if imt_closed s then Some (Inl (mk_status Closed ''transport is closed''), failed)
      else case imt_service_names s service_name of
        None \<Rightarrow> Some (Inl (mk_status NotFound ''service is not advertised''), failed)
      | Some i \<Rightarrow>
        (case imt_services s i of
           None \<Rightarrow> None
         | Some e \<Rightarrow>
           Some (Inr (svc_callback e), s\<lparr>imt_stats := st\<lparr>rpc_requests := rpc_requests st + 1\<rparr>\<rparr>)))"

definition count_rpc_failure :: "('cb, 'sv) InMemoryTransport \<Rightarrow> ('cb, 'sv) InMemoryTransport" where
  "count_rpc_failure s =
     s\<lparr>imt_stats := (imt_stats s)\<lparr>rpc_failures := rpc_failures (imt_stats s) + 1\<rparr>\<rparr>"

definition imt_Request ::
    "('sv, 'w) service_callback \<Rightarrow> time_point \<Rightarrow> string \<Rightarrow> Message \<Rightarrow> Deadline \<Rightarrow>
     ('cb, 'sv) InMemoryTransport \<times> 'w \<Rightarrow>
     (Message Result \<times> ('cb, 'sv) InMemoryTransport \<times> 'w) option" where
  "imt_Request call now service_name request deadline = (\<lambda>(s, w).
     if expired now deadline
     then Some (Inl (mk_status Timeout ''request deadline already expired''), s, w)
     else case Request_begin service_name s of
       None \<Rightarrow> None
     | Some (Inl e, s) \<Rightarrow> Some (Inl e, s, w)
     | Some (Inr callback, s) \<Rightarrow>
       (case call callback request deadline w of
          (None, w) \<Rightarrow>
            Some (Inl (mk_status Internal ''service callback threw''), count_rpc_failure s, w)
        | (Some result, w) \<Rightarrow>
            Some (result, if result_ok result then s else count_rpc_failure s, w)))"

definition imt_Close ::
    "('cb, 'sv) InMemoryTransport \<Rightarrow> Status \<times> ('cb, 'sv) InMemoryTransport" where
  "imt_Close s =
     (if imt_closed s then (OkStatus, s)
      else (OkStatus, s\<lparr>imt_closed := True, imt_subscriptions := [], imt_services := Map.empty,
        imt_service_names := Map.empty\<rparr>))"


subsection \<open>What a transport promises about closing\<close>

text \<open>A sequence of publish calls.\<close>

fun publish_all ::
    "(string \<Rightarrow> Message \<Rightarrow> QosProfile \<Rightarrow> 's \<Rightarrow> Status \<times> 's) \<Rightarrow>
     (string \<times> Message \<times> QosProfile) list \<Rightarrow> 's \<Rightarrow> Status list \<times> 's" where
  "publish_all publish [] s = ([], s)"
| "publish_all publish ((topic, m, qos) # reqs) s =
     (case publish topic m qos s of (st, s) \<Rightarrow>
      case publish_all publish reqs s of (sts, s) \<Rightarrow> (st # sts, s))"

text \<open>The part of the contract its users rely on: \<open>Close\<close> closes for good and is idempotent, and a
  closed transport refuses to publish and stays closed.\<close>

locale closing_transport =
  fixes publish :: "string \<Rightarrow> Message \<Rightarrow> QosProfile \<Rightarrow> 's \<Rightarrow> Status \<times> 's"
    and close :: "'s \<Rightarrow> Status \<times> 's"
    and is_closed :: "'s \<Rightarrow> bool"
    and inv :: "'s \<Rightarrow> bool"
  assumes publish_inv: "inv s \<Longrightarrow> inv (snd (publish topic m qos s))"
    and close_inv: "inv s \<Longrightarrow> inv (snd (close s))"
    and close_closes: "inv s \<Longrightarrow> is_closed (snd (close s))"
    and close_again: "inv s \<Longrightarrow> is_closed s \<Longrightarrow> close s = (OkStatus, s)"
    and closed_refuses: "inv s \<Longrightarrow> is_closed s \<Longrightarrow> \<not> ok (fst (publish topic m qos s))"
    and closed_stays: "inv s \<Longrightarrow> is_closed s \<Longrightarrow> is_closed (snd (publish topic m qos s))"
begin

lemma closed_refuses_all:
  "inv s \<Longrightarrow> is_closed s \<Longrightarrow> publish_all publish reqs s = (sts, s') \<Longrightarrow>
     (\<forall>st \<in> set sts. \<not> ok st) \<and> is_closed s' \<and> inv s'"
proof (induction reqs arbitrary: s sts)
  case (Cons req reqs)
  obtain topic m qos where req: "req = (topic, m, qos)" by (metis prod_cases3)
  show ?case
    using Cons.IH [of "snd (publish topic m qos s)"] Cons.prems closed_refuses [of s topic m qos]
      closed_stays [of s topic m qos] publish_inv [of s topic m qos]
    by (auto simp: req split: prod.splits)
qed simp

lemma refuses_after_close:
  assumes "inv s" "publish_all publish reqs (snd (close s)) = (sts, s')"
  shows "(\<forall>st \<in> set sts. \<not> ok st) \<and> is_closed s' \<and> close s' = (OkStatus, s')"
  using closed_refuses_all [OF close_inv [OF assms(1)] close_closes [OF assms(1)] assms(2)]
    close_again by blast

end

definition imt_Close_world ::
    "('cb, 'sv) InMemoryTransport \<times> 'w \<Rightarrow> Status \<times> ('cb, 'sv) InMemoryTransport \<times> 'w" where
  "imt_Close_world = (\<lambda>(s, w). case imt_Close s of (st, s) \<Rightarrow> (st, s, w))"

lemma imt_Publish_when_closed:
  "imt_closed (fst s) \<Longrightarrow> \<not> ok (fst (imt_Publish invoke topic m qos s)) \<and>
     imt_closed (fst (snd (imt_Publish invoke topic m qos s)))"
  by (cases s) (auto simp: imt_Publish_def Publish_begin_def Let_def)

interpretation imt: closing_transport
  "imt_Publish invoke" imt_Close_world "\<lambda>s. imt_closed (fst s)" "\<lambda>_. True"
  by unfold_locales
    (auto simp: imt_Publish_when_closed imt_Close_world_def imt_Close_def split: prod.splits)


subsection \<open>Invariant\<close>

definition linked :: "(string \<rightharpoonup> u64) \<Rightarrow> (u64 \<rightharpoonup> 'sv ServiceEntry) \<Rightarrow> bool" where
  "linked names services \<longleftrightarrow>
     (\<forall>name i. names name = Some i \<longleftrightarrow> (\<exists>e. services i = Some e \<and> svc_name e = name))"

lemma linked_add:
  "linked names services \<Longrightarrow> names (svc_name e) = None \<Longrightarrow> services i = None \<Longrightarrow>
     linked (names(svc_name e \<mapsto> i)) (services(i \<mapsto> e))"
  by (simp add: linked_def) (metis option.distinct(1))

lemma linked_remove:
  "linked names services \<Longrightarrow> services i = Some e \<Longrightarrow>
     linked (names(svc_name e := None)) (services(i := None))"
  by (simp add: linked_def) (metis option.inject)

definition imt_inv :: "('cb, 'sv) InMemoryTransport \<Rightarrow> bool" where
  "imt_inv s \<longleftrightarrow>
     distinct (map fst (imt_subscriptions s)) \<and>
     (\<forall>(i, e) \<in> set (imt_subscriptions s). sub_id e = i \<and> i < imt_next_subscription_id s) \<and>
     linked (imt_service_names s) (imt_services s) \<and>
     (\<forall>i e. imt_services s i = Some e \<longrightarrow> svc_id e = i \<and> i < imt_next_service_id s) \<and>
     (imt_closed s \<longrightarrow> imt_subscriptions s = [] \<and> imt_services s = Map.empty)"

text \<open>The operations of the transport as steps; identifiers are not reused as long as the sixty-four
  bit counters do not wrap.\<close>

inductive imt_step :: "('cb, 'sv) InMemoryTransport \<Rightarrow> ('cb, 'sv) InMemoryTransport \<Rightarrow> bool" where
  publish_begins: "imt_step s (snd (Publish_begin topic s))"
| publish_ends: "imt_step s (snd (Publish_end delivered failed s))"
| subscribes: "imt_next_subscription_id s \<noteq> - 1 \<Longrightarrow> imt_step s (snd (imt_Subscribe topic qos cb s))"
| unsubscribes: "imt_step s (snd (imt_Unsubscribe i s))"
| advertises: "imt_next_service_id s \<noteq> - 1 \<Longrightarrow> imt_step s (snd (imt_AdvertiseService name sv s))"
| removes: "imt_step s (snd (imt_RemoveService i s))"
| requests: "Request_begin name s = Some (res, t) \<Longrightarrow> imt_step s t"
| request_fails: "imt_step s (count_rpc_failure s)"
| closes: "imt_step s (snd (imt_Close s))"

lemma word_less_Suc: "i \<noteq> - 1 \<Longrightarrow> i < i + (1 :: u64)"
  by (metis inc_less_eq_triv_imp not_le)

lemma imt_inv_stats: "imt_inv (s\<lparr>imt_stats := st\<rparr>) = imt_inv s"
  by (simp add: imt_inv_def)


lemma imt_inv_Subscribe:
  assumes "imt_inv s" "imt_next_subscription_id s \<noteq> - 1"
  shows "imt_inv (snd (imt_Subscribe topic qos cb s))"
proof -
  have "imt_next_subscription_id s \<notin> fst ` set (imt_subscriptions s)"
    using assms(1) by (auto simp: imt_inv_def)
  then show ?thesis
    using assms word_less_Suc [OF assms(2)]
    by (auto simp: imt_inv_def imt_Subscribe_def Let_def split: option.split dest: less_trans)
qed

lemma imt_inv_Unsubscribe: "imt_inv s \<Longrightarrow> imt_inv (snd (imt_Unsubscribe i s))"
  by (auto simp: imt_inv_def imt_Unsubscribe_def distinct_map_filter)

lemma imt_inv_AdvertiseService:
  assumes "imt_inv s" "imt_next_service_id s \<noteq> - 1"
  shows "imt_inv (snd (imt_AdvertiseService name sv s))"
proof -
  have "imt_services s (imt_next_service_id s) = None"
    using assms(1) by (cases "imt_services s (imt_next_service_id s)") (auto simp: imt_inv_def)
  moreover from this have "linked ((imt_service_names s)(name \<mapsto> imt_next_service_id s))
      ((imt_services s)(imt_next_service_id s \<mapsto>
        \<lparr>svc_id = imt_next_service_id s, svc_name = name, svc_callback = cb\<rparr>))"
    if "imt_service_names s name = None" for cb
    using linked_add [of "imt_service_names s" "imt_services s"
        "\<lparr>svc_id = imt_next_service_id s, svc_name = name, svc_callback = cb\<rparr>"] assms(1) that
    by (simp add: imt_inv_def)
  moreover have "i < imt_next_service_id s + 1" if "imt_services s i = Some e" for i e
    using assms(1) that by (auto simp: imt_inv_def intro: less_trans [OF _ word_less_Suc [OF assms(2)]])
  ultimately show ?thesis
    using assms(1) word_less_Suc [OF assms(2)]
    by (auto simp: imt_inv_def imt_AdvertiseService_def Let_def split: option.split)
qed

lemma imt_inv_RemoveService: "imt_inv s \<Longrightarrow> imt_inv (snd (imt_RemoveService i s))"
  by (auto simp: imt_inv_def imt_RemoveService_def linked_remove split: option.split)

lemma imt_step_inv: "imt_step s t \<Longrightarrow> imt_inv s \<Longrightarrow> imt_inv t"
proof (induction rule: imt_step.induct)
  case (requests name s res t)
  then show ?case
    by (auto simp: Request_begin_def imt_inv_stats Let_def split: if_splits option.splits)
next
  case (closes s)
  then show ?case by (auto simp: imt_Close_def imt_inv_def linked_def)
qed (auto simp: Publish_begin_def Publish_end_def count_rpc_failure_def imt_inv_stats Let_def
    intro: imt_inv_Subscribe imt_inv_Unsubscribe imt_inv_AdvertiseService imt_inv_RemoveService)

lemma imt_inv_new: "imt_inv InMemoryTransport_new"
  by (simp add: imt_inv_def InMemoryTransport_new_def linked_def)

interpretation imt_run: step_invariant "\<lambda>s. s = InMemoryTransport_new" imt_step imt_inv
  by unfold_locales (auto intro: imt_step_inv imt_inv_new)


subsection \<open>Delivery\<close>

lemma run_callbacks_counts:
  "run_callbacks invoke m cbs w = (delivered, failed, w') \<Longrightarrow>
     delivered + failed = of_nat (length cbs)"
  by (induction cbs arbitrary: w delivered failed)
    (auto split: prod.splits if_splits simp: ac_simps, metis add.commute add.left_commute)

text \<open>A world that records the calls, with subscribers that never throw.\<close>

definition record_call :: "('cb, ('cb \<times> Message) list) message_callback" where
  "record_call cb m calls = (True, calls @ [(cb, m)])"

lemma run_callbacks_record:
  "run_callbacks record_call m cbs calls = (of_nat (length cbs), 0, calls @ map (\<lambda>cb. (cb, m)) cbs)"
  by (induction cbs arbitrary: calls) (simp_all add: record_call_def)


subsection \<open>Properties\<close>

text \<open>C40: bookkeeping. In every state reachable from a new transport subscription identifiers are
  unique, and names and services refer to each other one to one, so the \<open>services.at\<close> of
  \<open>Request\<close> never throws.\<close>

theorem imt_request_lookup_safe:
  assumes "imt_step\<^sup>*\<^sup>* InMemoryTransport_new s"
  shows "distinct (map fst (imt_subscriptions s)) \<and>
    (\<forall>name. Request_begin name s \<noteq> None) \<and>
    (\<forall>name i. imt_service_names s name = Some i \<longleftrightarrow>
       (\<exists>e. imt_services s i = Some e \<and> svc_name e = name))"
proof -
  have inv: "imt_inv s" by (rule imt_run.reachable_inv [OF refl assms])
  then have "Request_begin name s \<noteq> None" for name
    by (auto simp: Request_begin_def imt_inv_def linked_def Let_def split: option.splits)
  with inv show ?thesis by (simp add: imt_inv_def linked_def)
qed

text \<open>publishing on an open transport reaches every subscriber of the topic exactly once and no
  other, counts one published message, and counts as delivered those that did not throw and as
  dropped those that did.\<close>

theorem imt_publish_delivers:
  assumes "topic \<noteq> []" "\<not> imt_closed s" "imt_Publish invoke topic m qos (s, w) = (st, t, w')"
  shows "snd (snd (imt_Publish record_call topic m qos (s, calls))) =
      calls @ map (\<lambda>cb. (cb, m)) (matching_callbacks topic s) \<and>
    published_messages (imt_stats t) = published_messages (imt_stats s) + 1 \<and>
    delivered_messages (imt_stats t) + dropped_messages (imt_stats t) =
      delivered_messages (imt_stats s) + dropped_messages (imt_stats s) +
      of_nat (length (matching_callbacks topic s))"
  using assms
  by (auto simp: imt_Publish_def Publish_begin_def Publish_end_def Let_def algebra_simps
      run_callbacks_record dest!: run_callbacks_counts [THEN sym] split: prod.splits)

text \<open>a closed transport refuses every later publish and stays closed, whatever is published and
  whatever the subscribers would do.\<close>

theorem imt_closed_refuses_all:
  assumes "publish_all (imt_Publish invoke) reqs (snd (imt_Close_world (s, w))) = (sts, s')"
  shows "(\<forall>st \<in> set sts. \<not> ok st) \<and> imt_closed (fst s') \<and> imt_Close_world s' = (OkStatus, s')"
  by (rule imt.refuses_after_close [OF TrueI assms])


definition demo_qos :: QosProfile where
  "demo_qos = \<lparr>reliability = Reliable, history = KeepLast, depth = 16, qos_deadline = 0,
      liveliness = Automatic, liveliness_lease = 0\<rparr>"

definition demo_transport :: "(nat, nat) InMemoryTransport" where
  "demo_transport = snd (imt_Subscribe ''/lidar'' demo_qos (Some 7) InMemoryTransport_new)"

lemma demo_transport_reached: "imt_step\<^sup>*\<^sup>* InMemoryTransport_new demo_transport"
  unfolding demo_transport_def
  by (intro r_into_rtranclp subscribes) (simp add: InMemoryTransport_new_def)

theorem imt_request_lookup_safe_witness:
  "distinct (map fst (imt_subscriptions demo_transport)) \<and> Request_begin ''x'' demo_transport \<noteq> None"
  using imt_request_lookup_safe [OF demo_transport_reached] by simp

theorem imt_publish_delivers_witness:
  "snd (snd (imt_Publish record_call ''/lidar'' demo_message demo_qos (demo_transport, []))) =
     [(7, demo_message)]"
proof -
  have "matching_callbacks ''/lidar'' demo_transport = [7]" "\<not> imt_closed demo_transport"
    by (simp_all add: matching_callbacks_def demo_transport_def imt_Subscribe_def demo_qos_def
        InMemoryTransport_new_def Let_def)
  moreover obtain st t w' where
    "imt_Publish record_call ''/lidar'' demo_message demo_qos (demo_transport, []) = (st, t, w')"
    by (metis prod_cases3)
  ultimately show ?thesis
    using imt_publish_delivers [where calls = "[]"] by fastforce
qed

theorem imt_closed_refuses_all_witness:
  "list_all (\<lambda>st. \<not> ok st) (fst (publish_all (imt_Publish record_call)
     [(''/lidar'', demo_message, demo_qos)] (snd (imt_Close_world (demo_transport, [])))))"
  using imt_closed_refuses_all [OF prod.collapse [symmetric], of record_call
      "[(''/lidar'', demo_message, demo_qos)]" demo_transport "[]"]
  unfolding list_all_iff by blast

end
