(* ===== verification/Recording_Transport.thy ===== *)
theory Recording_Transport
  imports Record_Replay In_Memory_Transport
begin

text \<open>
  \<open>RecordingTransport\<close> of \<open>record_replay.cpp\<close>: a transport that records every published message
  before it forwards it to another transport. The recorder and the inner transport are parameters
  of its operations, as they are abstract interfaces in the code; the properties at the end
  instantiate them with the models of \<open>Recorder\<close> and of the in-memory transport.
\<close>

subsection \<open>State and operations\<close>

datatype RecordingFailurePolicy = RequireRecord | ContinueWithoutRecord

text \<open>A resolver gives a message type or throws, with or without a text.\<close>

datatype ResolverOutcome = Resolved string | ResolverThrew string | ResolverThrewUnknown

record RecordingTransportConfig =
  default_message_type :: string
  message_type_resolver :: "(string \<Rightarrow> ResolverOutcome) option"
  failure_policy :: RecordingFailurePolicy
  stop_recorder_on_close :: bool

record ('r, 't) RecordingTransport =
  rt_config :: RecordingTransportConfig
  rt_closed :: bool
  rt_record_failures :: u64
  rt_last_record_status :: Status
  rt_recorder :: 'r
  rt_transport :: 't

text \<open>The constructor; \<open>None\<close> is the \<open>std::invalid_argument\<close> it throws. The two shared pointers
  may be null.\<close>

definition RecordingTransport_new ::
    "RecordingTransportConfig \<Rightarrow> 'r option \<Rightarrow> 't option \<Rightarrow> ('r, 't) RecordingTransport option" where
  "RecordingTransport_new config recorder transport =
     (case (transport, recorder) of
        (Some t, Some r) \<Rightarrow>
          if message_type_resolver config = None \<and> default_message_type config = [] then None
          else Some \<lparr>rt_config = config, rt_closed = False, rt_record_failures = 0,
            rt_last_record_status = OkStatus, rt_recorder = r, rt_transport = t\<rparr>
      | _ \<Rightarrow> None)"

definition MessageType :: "RecordingTransportConfig \<Rightarrow> string \<Rightarrow> ResolverOutcome" where
  "MessageType config topic =
     (case message_type_resolver config of
        Some resolve \<Rightarrow> resolve topic
      | None \<Rightarrow> Resolved (default_message_type config))"

definition RecordFailure ::
    "Status \<Rightarrow> ('r, 't) RecordingTransport \<Rightarrow> ('r, 't) RecordingTransport" where
  "RecordFailure st s =
     s\<lparr>rt_record_failures := rt_record_failures s + 1, rt_last_record_status := st\<rparr>"

definition record_message ::
    "(string \<Rightarrow> string \<Rightarrow> Message \<Rightarrow> 'r \<Rightarrow> Status \<times> 'r) \<Rightarrow> string \<Rightarrow> Message \<Rightarrow>
     ('r, 't) RecordingTransport \<Rightarrow> Status \<times> ('r, 't) RecordingTransport" where
  "record_message Record topic message s =
     (case MessageType (rt_config s) topic of
        Resolved message_type \<Rightarrow>
          (case Record topic message_type message (rt_recorder s) of
             (st, r) \<Rightarrow> (st, s\<lparr>rt_recorder := r\<rparr>))
      | ResolverThrew what \<Rightarrow> (mk_status Internal (''message type resolver threw: '' @ what), s)
      | ResolverThrewUnknown \<Rightarrow> (mk_status Internal ''message type resolver threw'', s))"

definition rt_Publish ::
    "(string \<Rightarrow> string \<Rightarrow> Message \<Rightarrow> 'r \<Rightarrow> Status \<times> 'r) \<Rightarrow>
     (string \<Rightarrow> Message \<Rightarrow> QosProfile \<Rightarrow> 't \<Rightarrow> Status \<times> 't) \<Rightarrow>
     string \<Rightarrow> Message \<Rightarrow> QosProfile \<Rightarrow> ('r, 't) RecordingTransport \<Rightarrow>
     Status \<times> ('r, 't) RecordingTransport" where
  "rt_Publish Record publish topic message qos s =
     (case record_message Record topic message s of (record_status, s) \<Rightarrow>
      let s = (if ok record_status then s else RecordFailure record_status s) in
      if \<not> ok record_status \<and> failure_policy (rt_config s) = RequireRecord then (record_status, s)
      else case publish topic message qos (rt_transport s) of
        (st, t) \<Rightarrow> (st, s\<lparr>rt_transport := t\<rparr>))"

definition rt_CaptureStats :: "('r, 't) RecordingTransport \<Rightarrow> u64 \<times> Status" where
  "rt_CaptureStats s = (rt_record_failures s, rt_last_record_status s)"

definition rt_Close ::
    "('r \<Rightarrow> Status \<times> 'r) \<Rightarrow> ('t \<Rightarrow> Status \<times> 't) \<Rightarrow> ('r, 't) RecordingTransport \<Rightarrow>
     Status \<times> ('r, 't) RecordingTransport" where
  "rt_Close stop close s =
     (if rt_closed s then (OkStatus, s)
      else let s = s\<lparr>rt_closed := True\<rparr> in
        case (if stop_recorder_on_close (rt_config s) then stop (rt_recorder s)
              else (OkStatus, rt_recorder s)) of
          (recorder_status, r) \<Rightarrow>
        (case close (rt_transport s) of
          (transport_status, t) \<Rightarrow>
            (if \<not> ok recorder_status then recorder_status else transport_status,
             s\<lparr>rt_recorder := r, rt_transport := t\<rparr>)))"

text \<open>The remaining operations only forward to the inner transport.\<close>

definition rt_forward ::
    "('t \<Rightarrow> 'a \<times> 't) \<Rightarrow> ('r, 't) RecordingTransport \<Rightarrow> 'a \<times> ('r, 't) RecordingTransport" where
  "rt_forward f s = (case f (rt_transport s) of (a, t) \<Rightarrow> (a, s\<lparr>rt_transport := t\<rparr>))"


subsection \<open>A whole call of Record\<close>

text \<open>\<open>meanwhile\<close> is what the other threads do to the recorder while a blocked client waits.\<close>

definition Record_call ::
    "(Recorder \<Rightarrow> Recorder) \<Rightarrow> u64 \<Rightarrow> time_point \<Rightarrow> string \<Rightarrow> string \<Rightarrow> Message \<Rightarrow> Recorder \<Rightarrow>
     Status \<times> Recorder" where
  "Record_call meanwhile capture_now now channel message_type message s =
     (case Record_begin channel message_type message None capture_now now s of
        (RecordDone st, s) \<Rightarrow> (st, s)
      | (RecordBlocked record capture deadline, s) \<Rightarrow>
          let s = meanwhile s in
          if can_resume s then Record_resume record capture s else Record_timeout s)"

lemma enqueue_last:
  "enqueue_record p c r = (st, r') \<Longrightarrow> rec_queue r' \<noteq> [] \<and>
     pr_channel (last (rec_queue r')) = pr_channel p \<and>
     pr_message_type (last (rec_queue r')) = pr_message_type p \<and>
     pr_message (last (rec_queue r')) = pr_message p"
  by (auto simp: enqueue_record_def Let_def)

lemma Record_call_ok:
  assumes "Record_call meanwhile capture now channel message_type message r = (st, r')" "ok st"
  shows "rec_queue r' \<noteq> [] \<and> pr_channel (last (rec_queue r')) = channel \<and>
    pr_message_type (last (rec_queue r')) = message_type \<and>
    pr_message (last (rec_queue r')) = message"
proof -
  obtain phase q where b: "Record_begin channel message_type message None capture now r = (phase, q)"
    by fastforce
  from b show ?thesis
  proof (cases rule: Record_begin_cases)
    case (dropped st')
    then have "\<not> ok st'" by (simp add: ok_def)
    with dropped show ?thesis using assms b by (simp add: Record_call_def)
  next
    case (blocked deadline)
    then show ?thesis
      using assms b enqueue_last
      by (fastforce simp: Record_call_def Let_def Record_resume_def Record_timeout_def make_pending_def
          recorder_closed_def split: if_splits)
  next
    case (accepted st')
    then show ?thesis
      using assms b enqueue_last by (fastforce simp: Record_call_def make_pending_def)
  qed (use assms b in \<open>simp add: Record_call_def\<close>)
qed


subsection \<open>A recording transport is a transport\<close>

locale recording_over = closing_transport publish close is_closed inv
  for publish :: "string \<Rightarrow> Message \<Rightarrow> QosProfile \<Rightarrow> 't \<Rightarrow> Status \<times> 't"
    and close :: "'t \<Rightarrow> Status \<times> 't" and is_closed :: "'t \<Rightarrow> bool" and inv :: "'t \<Rightarrow> bool" +
  fixes Record :: "string \<Rightarrow> string \<Rightarrow> Message \<Rightarrow> 'r \<Rightarrow> Status \<times> 'r"
    and stop :: "'r \<Rightarrow> Status \<times> 'r"
begin

lemma record_message_transport:
  "rt_transport (snd (record_message Record topic m s)) = rt_transport s \<and>
   rt_closed (snd (record_message Record topic m s)) = rt_closed s \<and>
   rt_config (snd (record_message Record topic m s)) = rt_config s \<and>
   rt_record_failures (snd (record_message Record topic m s)) = rt_record_failures s"
  by (auto simp: record_message_def split: ResolverOutcome.split prod.split)

lemma rt_Publish_refused:
  "record_message Record topic m s = (st, q) \<Longrightarrow> \<not> ok st \<Longrightarrow>
   failure_policy (rt_config s) = RequireRecord \<Longrightarrow>
   rt_Publish Record publish topic m qos s = (st, RecordFailure st q)"
  using record_message_transport [of topic m s]
  by (simp add: rt_Publish_def Let_def RecordFailure_def)

lemma rt_Publish_forwarded:
  "record_message Record topic m s = (st, q) \<Longrightarrow>
   ok st \<or> failure_policy (rt_config s) = ContinueWithoutRecord \<Longrightarrow>
   rt_Publish Record publish topic m qos s =
     (fst (publish topic m qos (rt_transport s)),
      (if ok st then q else RecordFailure st q)
        \<lparr>rt_transport := snd (publish topic m qos (rt_transport s))\<rparr>)"
  using record_message_transport [of topic m s]
  by (auto simp: rt_Publish_def Let_def RecordFailure_def split: prod.splits)

lemma rt_Publish_cases:
  obtains (refused) st q where "record_message Record topic m s = (st, q)" "\<not> ok st"
      "failure_policy (rt_config s) = RequireRecord"
      "rt_Publish Record publish topic m qos s = (st, RecordFailure st q)"
  | (forwarded) st q where "record_message Record topic m s = (st, q)"
      "ok st \<or> failure_policy (rt_config s) = ContinueWithoutRecord"
      "rt_Publish Record publish topic m qos s =
        (fst (publish topic m qos (rt_transport s)),
         (if ok st then q else RecordFailure st q)
           \<lparr>rt_transport := snd (publish topic m qos (rt_transport s))\<rparr>)"
proof -
  obtain st q where r: "record_message Record topic m s = (st, q)" by fastforce
  show thesis
  proof (cases "\<not> ok st \<and> failure_policy (rt_config s) = RequireRecord")
    case True
    then show thesis using refused [OF r] rt_Publish_refused [OF r] by simp
  next
    case False
    then have "ok st \<or> failure_policy (rt_config s) = ContinueWithoutRecord"
      by (cases "failure_policy (rt_config s)") auto
    then show thesis using forwarded [OF r] rt_Publish_forwarded [OF r] by blast
  qed
qed

lemma rt_Publish_closed_state:
  fixes topic :: string and m :: Message and qos :: QosProfile
  assumes "inv (rt_transport s)" "rt_closed s \<longrightarrow> is_closed (rt_transport s)"
  defines "t \<equiv> snd (rt_Publish Record publish topic m qos s)"
  shows "inv (rt_transport t) \<and> (rt_closed t \<longrightarrow> is_closed (rt_transport t)) \<and>
    (rt_closed t \<longleftrightarrow> rt_closed s) \<and>
    (rt_closed s \<longrightarrow> \<not> ok (fst (rt_Publish Record publish topic m qos s)))"
proof (cases rule: rt_Publish_cases [of topic m s qos])
  case (refused st q)
  then show ?thesis
    using assms record_message_transport [of topic m s] by (simp add: RecordFailure_def)
next
  case (forwarded st q)
  then show ?thesis
    using assms record_message_transport [of topic m s] publish_inv [of "rt_transport s" topic m qos]
      closed_stays [of "rt_transport s" topic m qos] closed_refuses [of "rt_transport s" topic m qos]
    by (auto simp: RecordFailure_def)
qed

lemma rt_Close_state:
  assumes "inv (rt_transport s)" "rt_closed s \<longrightarrow> is_closed (rt_transport s)"
  defines "t \<equiv> snd (rt_Close stop close s)"
  shows "inv (rt_transport t) \<and> rt_closed t \<and> is_closed (rt_transport t)"
  using assms close_inv [of "rt_transport s"] close_closes [of "rt_transport s"]
  by (auto simp: rt_Close_def Let_def split: prod.splits)

end

sublocale recording_over \<subseteq> recording: closing_transport
  "rt_Publish Record publish" "rt_Close stop close"
  "\<lambda>s. rt_closed s \<and> is_closed (rt_transport s)"
  "\<lambda>s. inv (rt_transport s) \<and> (rt_closed s \<longrightarrow> is_closed (rt_transport s))"
proof
qed (use rt_Publish_closed_state rt_Close_state in \<open>auto simp: rt_Close_def\<close>)


subsection \<open>The model's recorder and transport in place\<close>

text \<open>\<open>Stop\<close> with an infinite deadline: \<open>drain\<close> is what the writer does until it has finished.\<close>

definition Stop_call :: "(Recorder \<Rightarrow> Recorder) \<Rightarrow> Recorder \<Rightarrow> Status \<times> Recorder" where
  "Stop_call drain s = (let s = drain (Stop_request s) in (rec_writer_status s, s))"

interpretation recording_imt: recording_over
  "imt_Publish invoke" imt_Close_world "\<lambda>s. imt_closed (fst s)" "\<lambda>_. True"
  "Record_call meanwhile capture now" "Stop_call drain"
  for invoke meanwhile capture now drain
  ..


subsection \<open>Properties\<close>

lemma record_message_ok:
  assumes "record_message (Record_call meanwhile capture now) topic m s = (st, q)" "ok st"
  shows "rec_queue (rt_recorder q) \<noteq> [] \<and> pr_channel (last (rec_queue (rt_recorder q))) = topic \<and>
    pr_message (last (rec_queue (rt_recorder q))) = m"
proof (cases "MessageType (rt_config s) topic")
  case (Resolved message_type)
  obtain st' r where c:
    "Record_call meanwhile capture now topic message_type m (rt_recorder s) = (st', r)" by fastforce
  then have "st' = st" "rt_recorder q = r"
    using assms(1) Resolved by (auto simp: record_message_def)
  then show ?thesis using Record_call_ok [OF c] assms(2) by simp
qed (use assms in \<open>auto simp: record_message_def\<close>)

text \<open>C36: with the policy \<open>RequireRecord\<close> no message reaches the transport unrecorded: either the
  publish is refused with the recorder's error, the inner transport and its subscribers untouched
  and the failure counted, or the recorder's queue ends with exactly this message on this channel
  and the message is then published once on the inner transport, whose status is returned.\<close>

theorem recorded_before_published:
  fixes s :: "(Recorder, ('cb, 'sv) InMemoryTransport \<times> 'w) RecordingTransport"
  assumes "failure_policy (rt_config s) = RequireRecord"
    and "rt_Publish (Record_call meanwhile capture now) (imt_Publish invoke) topic m qos s = (st, s')"
  shows "(\<not> ok st \<and> rt_transport s' = rt_transport s \<and>
      rt_record_failures s' = rt_record_failures s + 1 \<and> rt_last_record_status s' = st) \<or>
    (rec_queue (rt_recorder s') \<noteq> [] \<and>
     pr_channel (last (rec_queue (rt_recorder s'))) = topic \<and>
     pr_message (last (rec_queue (rt_recorder s'))) = m \<and>
     (st, rt_transport s') = imt_Publish invoke topic m qos (rt_transport s))"
proof (cases rule: recording_imt.rt_Publish_cases [of meanwhile capture now topic m s invoke qos])
  case (refused st' q)
  have "st = st'" "s' = RecordFailure st' q" using refused(4) assms(2) by simp_all
  moreover have "rt_transport q = rt_transport s" "rt_record_failures q = rt_record_failures s"
    using recording_imt.record_message_transport [of meanwhile capture now topic m s] refused(1)
    by simp_all
  ultimately show ?thesis using refused(2) by (simp add: RecordFailure_def)
next
  case (forwarded st' q)
  then have "ok st'" using assms(1) by simp
  then have s': "st = fst (imt_Publish invoke topic m qos (rt_transport s))"
      "s' = q\<lparr>rt_transport := snd (imt_Publish invoke topic m qos (rt_transport s))\<rparr>"
    using forwarded(3) assms(2) by simp_all
  have "rec_queue (rt_recorder q) \<noteq> [] \<and> pr_channel (last (rec_queue (rt_recorder q))) = topic \<and>
      pr_message (last (rec_queue (rt_recorder q))) = m"
    using forwarded(1) \<open>ok st'\<close> by (rule record_message_ok)
  then show ?thesis by (simp add: s')
qed

text \<open>closing a recording transport closes the transport it wraps: every later publish is refused
  and a second close changes nothing.\<close>

theorem recording_closed_refuses_all:
  fixes s :: "(Recorder, ('cb, 'sv) InMemoryTransport \<times> 'w) RecordingTransport"
  assumes "\<not> rt_closed s"
    and "publish_all (rt_Publish (Record_call meanwhile capture now) (imt_Publish invoke)) reqs
      (snd (rt_Close (Stop_call drain) imt_Close_world s)) = (sts, s')"
  shows "(\<forall>st \<in> set sts. \<not> ok st) \<and> imt_closed (fst (rt_transport s')) \<and>
    rt_Close (Stop_call drain) imt_Close_world s' = (OkStatus, s')"
  using recording_imt.recording.refuses_after_close [OF _ assms(2)] assms(1) by simp


definition demo_recording ::
    "(Recorder, (nat, nat) InMemoryTransport \<times> (nat \<times> Message) list) RecordingTransport" where
  "demo_recording =
     \<lparr>rt_config = \<lparr>default_message_type = ''opaque/bytes'', message_type_resolver = None,
        failure_policy = RequireRecord, stop_recorder_on_close = True\<rparr>,
      rt_closed = False, rt_record_failures = 0, rt_last_record_status = OkStatus,
      rt_recorder = new_recorder demo_config 5 10, rt_transport = (demo_transport, [])\<rparr>"

theorem recorded_before_published_witness:
  "\<exists>st s'. rt_Publish (Record_call (\<lambda>r. r) 50 0) (imt_Publish record_call) ''/lidar'' demo_message
       demo_qos demo_recording = (st, s') \<and>
     pr_channel (last (rec_queue (rt_recorder s'))) = ''/lidar'' \<and>
     pr_message (last (rec_queue (rt_recorder s'))) = demo_message"
proof -
  let ?p = "make_pending ''/lidar'' ''opaque/bytes'' demo_message"
  obtain st r where e: "enqueue_record ?p 50 (new_recorder demo_config 5 10) = (st, r)" by fastforce
  then have "Record_begin ''/lidar'' ''opaque/bytes'' demo_message None 50 0 (new_recorder demo_config 5 10) =
      (RecordDone st, r)" "ok st"
    by (auto simp: Record_begin_def record_rejected_def recorder_closed_def new_recorder_def
        demo_config_def demo_limits_def demo_message_def Let_def enqueue_record_def)
  then have rec: "record_message (Record_call (\<lambda>r. r) 50 0) ''/lidar'' demo_message demo_recording =
      (st, demo_recording\<lparr>rt_recorder := r\<rparr>)"
    by (simp add: record_message_def MessageType_def demo_recording_def Record_call_def)
  obtain st1 s1 where run: "rt_Publish (Record_call (\<lambda>r. r) 50 0) (imt_Publish record_call) ''/lidar''
      demo_message demo_qos demo_recording = (st1, s1)" by fastforce
  have "rt_record_failures s1 = 0"
    using recording_imt.rt_Publish_forwarded [OF rec, of record_call demo_qos] run \<open>ok st\<close>
    by (auto simp: demo_recording_def)
  moreover have "failure_policy (rt_config demo_recording) = RequireRecord"
    "rt_record_failures demo_recording = 0"
    by (simp_all add: demo_recording_def)
  ultimately show ?thesis
    using recorded_before_published [OF _ run] run by auto
qed

theorem recording_closed_refuses_all_witness:
  "list_all (\<lambda>st. \<not> ok st)
     (fst (publish_all (rt_Publish (Record_call (\<lambda>r. r) 50 0) (imt_Publish record_call))
       [(''/lidar'', demo_message, demo_qos)]
       (snd (rt_Close (Stop_call (\<lambda>r. r)) imt_Close_world demo_recording))))"
  using recording_closed_refuses_all [OF _ prod.collapse [symmetric], of demo_recording "\<lambda>r. r" 50 0
      record_call "[(''/lidar'', demo_message, demo_qos)]" "\<lambda>r. r"]
  by (simp add: demo_recording_def list_all_iff)

end
