(* ===== verification/Task_Timing.thy ===== *)
theory Task_Timing
  imports Complex_Main Runtime_Core
begin

text \<open>
  The data of \<open>executor.hpp\<close> and the pure helpers of \<open>executor.cpp\<close>: task configuration, timing
  samples and their summary, the bounded sample window, and the validation and application of a
  thread scheduling configuration.

  The quantiles of the timing summary are exact rationals; the rounding of the \<open>double\<close> product
  in the code is not modelled. System calls are arguments: the CPU set of the process, the
  \<open>SCHED_FIFO\<close> priority range, and the results of the affinity and scheduling calls.
\<close>

subsection \<open>Configuration and statistics\<close>

datatype TaskKind = Periodic | Event | Async

datatype ThreadSchedulingPolicy = DefaultPolicy | Fifo

record ThreadSchedulingConfig =
  cpu_affinity :: "int list"
  policy :: ThreadSchedulingPolicy
  sched_priority :: int

record ThreadSchedulingStatus =
  role :: string
  worker_index :: nat
  native_thread_id :: u64
  requested :: ThreadSchedulingConfig
  effective_cpu_affinity :: "int list"
  effective_policy :: ThreadSchedulingPolicy
  effective_priority :: int
  affinity_applied :: bool
  scheduler_applied :: bool
  affinity_fallback :: bool
  scheduler_fallback :: bool
  affinity_error :: int
  scheduler_error :: int
  status_detail :: string

datatype DeadlinePolicy = Warn | Degrade | Drop

datatype DeadlineAction = NoAction | Warned | Degraded | DroppedAction

record CallbackGroupConfig =
  group_name :: string
  worker_count :: nat
  group_queue_capacity :: nat
  thread_scheduling :: ThreadSchedulingConfig

record TaskConfig =
  task_name :: string
  kind :: TaskKind
  task_priority :: int
  period :: duration
  deadline :: duration
  queue_capacity :: nat
  callback_group :: u64
  deadline_policy :: DeadlinePolicy

record TaskSample =
  sample_task_id :: u64
  release_sequence :: u64
  scheduled_release_time :: time_point
  actual_start_time :: time_point
  finish_time :: time_point
  execution_time :: duration
  release_jitter :: duration
  response_time :: duration
  queue_delay :: duration
  deadline_miss :: bool
  sample_dropped :: bool
  deadline_action :: DeadlineAction

record DeadlineEvent =
  event_task_id :: u64
  event_task_name :: string
  event_policy :: DeadlinePolicy
  event_action :: DeadlineAction
  total_deadline_misses :: u64
  event_sample :: TaskSample

record TimingDistribution =
  sampled_count :: u64
  minimum :: duration
  p50 :: duration
  p95 :: duration
  p99 :: duration
  p99_9 :: duration
  maximum :: duration

record TaskTimingSummary =
  sum_release_jitter :: TimingDistribution
  sum_execution_time :: TimingDistribution
  sum_response_time :: TimingDistribution
  deadline_observations :: u64
  deadline_miss_rate :: rat

record TaskStats =
  stats_task_id :: u64
  stats_name :: string
  stats_kind :: TaskKind
  releases :: u64
  started :: u64
  finished :: u64
  queue_overflows :: u64
  periodic_releases_skipped :: u64
  deadline_misses :: u64
  deadline_warnings :: u64
  deadline_degrades :: u64
  deadline_drops :: u64
  deadline_handler_failures :: u64
  callback_failures :: u64
  stats_cancelled :: bool
  stats_timing :: TaskTimingSummary
  samples :: "TaskSample list"


subsection \<open>Durations and their distribution\<close>

definition NonNegativeDuration :: "time_point \<Rightarrow> time_point \<Rightarrow> duration" where
  "NonNegativeDuration end_time begin_time =
     (if end_time \<le> begin_time then 0 else end_time - begin_time)"

definition zero_distribution :: TimingDistribution where
  "zero_distribution =
     \<lparr>sampled_count = 0, minimum = 0, p50 = 0, p95 = 0, p99 = 0, p99_9 = 0, maximum = 0\<rparr>"

definition zero_timing :: TaskTimingSummary where
  "zero_timing = \<lparr>sum_release_jitter = zero_distribution, sum_execution_time = zero_distribution,
     sum_response_time = zero_distribution, deadline_observations = 0, deadline_miss_rate = 0\<rparr>"

definition new_task_stats :: "u64 \<Rightarrow> string \<Rightarrow> TaskKind \<Rightarrow> TaskStats" where
  "new_task_stats i name k = \<lparr>stats_task_id = i, stats_name = name, stats_kind = k, releases = 0,
     started = 0, finished = 0, queue_overflows = 0, periodic_releases_skipped = 0,
     deadline_misses = 0, deadline_warnings = 0, deadline_degrades = 0, deadline_drops = 0,
     deadline_handler_failures = 0, callback_failures = 0, stats_cancelled = False,
     stats_timing = zero_timing, samples = []\<rparr>"

text \<open>The nearest-rank percentile of sorted values.\<close>

definition percentile :: "duration list \<Rightarrow> rat \<Rightarrow> duration" where
  "percentile values quantile =
     (let rank = nat \<lceil>quantile * of_nat (length values)\<rceil>;
          index = min (length values - 1) (if rank = 0 then 0 else rank - 1) in
      values ! index)"

definition SummarizeDurations :: "duration list \<Rightarrow> TimingDistribution" where
  "SummarizeDurations values =
     (if values = [] then zero_distribution
      else let values = sort values in
        \<lparr>sampled_count = of_nat (length values), minimum = hd values,
         p50 = percentile values (50 / 100), p95 = percentile values (95 / 100),
         p99 = percentile values (99 / 100), p99_9 = percentile values (999 / 1000),
         maximum = last values\<rparr>)"

definition FinalizeTimingSummary :: "TaskStats \<Rightarrow> TaskStats" where
  "FinalizeTimingSummary stats =
     (let observations = finished stats + deadline_drops stats in
      stats\<lparr>stats_timing :=
        \<lparr>sum_release_jitter = SummarizeDurations (map release_jitter (samples stats)),
         sum_execution_time = SummarizeDurations
           (map execution_time (filter (\<lambda>s. \<not> sample_dropped s) (samples stats))),
         sum_response_time = SummarizeDurations (map response_time (samples stats)),
         deadline_observations = observations,
         deadline_miss_rate =
           (if observations = 0 then 0
            else of_nat (unat (deadline_misses stats)) / of_nat (unat observations))\<rparr>\<rparr>)"

definition maximum_samples :: nat where
  "maximum_samples = 4096"

definition AppendSample :: "TaskSample \<Rightarrow> TaskStats \<Rightarrow> TaskStats" where
  "AppendSample sample stats =
     (let kept = (if length (samples stats) = maximum_samples then tl (samples stats)
                  else samples stats) in
      stats\<lparr>samples := kept @ [sample]\<rparr>)"


subsection \<open>Thread scheduling\<close>

definition CPU_SETSIZE :: int where "CPU_SETSIZE = 1024"

definition EINVAL :: int where "EINVAL = 22"

definition EFAULT :: int where "EFAULT = 14"

fun adjacent_equal :: "int list \<Rightarrow> bool" where
  "adjacent_equal (x # y # zs) = (x = y \<or> adjacent_equal (y # zs))"
| "adjacent_equal _ = False"

text \<open>\<open>available\<close> is the CPU set of the process, \<open>fifo_range\<close> the platform's priority range (\<open>None\<close>
  when it is unavailable).\<close>

definition ValidateThreadSchedulingConfig ::
    "int list \<Rightarrow> (int \<times> int) option \<Rightarrow> ThreadSchedulingConfig \<Rightarrow> Status" where
  "ValidateThreadSchedulingConfig available fifo_range config =
     (let cpus = sort (cpu_affinity config) in
      if adjacent_equal cpus
      then mk_status InvalidArgument ''CPU affinity contains a duplicate CPU''
      else if \<exists>cpu \<in> set cpus. cpu < 0 \<or> cpu \<ge> CPU_SETSIZE
      then mk_status InvalidArgument ''CPU affinity contains an invalid CPU''
      else if available \<noteq> [] \<and> (\<exists>cpu \<in> set cpus. cpu \<notin> set available)
      then mk_status InvalidArgument ''CPU affinity is outside the current process cpuset''
      else if policy config = DefaultPolicy
      then if sched_priority config \<noteq> 0
        then mk_status InvalidArgument ''default scheduling policy requires priority 0''
        else OkStatus
      else case fifo_range of
        None \<Rightarrow> mk_status Unsupported ''SCHED_FIFO priority range is unavailable''
      | Some (lo, hi) \<Rightarrow>
          if sched_priority config < lo \<or> sched_priority config > hi
          then mk_status InvalidArgument ''SCHED_FIFO priority is outside the platform range''
          else OkStatus)"

definition AppendDetail :: "string \<Rightarrow> string \<Rightarrow> string" where
  "AppendDetail d addition = (if d \<noteq> [] then d @ ''; '' @ addition else addition)"

text \<open>The answers of the operating system to the calls of \<open>ApplyCurrentThreadScheduling\<close>: error
  numbers (zero for success) and what the thread effectively runs with.\<close>

record SchedulingCalls =
  call_thread_id :: u64
  call_set_affinity :: int
  call_set_scheduler :: int
  call_get_affinity :: "int + int list"
  call_get_scheduler :: "int + int \<times> int"
  call_strerror :: "int \<Rightarrow> string"

definition ErrorDetail :: "SchedulingCalls \<Rightarrow> string \<Rightarrow> int \<Rightarrow> string" where
  "ErrorDetail os operation err =
     operation @ '' failed: '' @ call_strerror os err @ '' ('' @ decimal err @ '')''"

definition SCHED_FIFO :: int where "SCHED_FIFO = 1"

definition PolicyFromNative :: "int \<Rightarrow> ThreadSchedulingPolicy" where
  "PolicyFromNative pol = (if pol = SCHED_FIFO then Fifo else DefaultPolicy)"

definition empty_thread_status :: "string \<Rightarrow> nat \<Rightarrow> ThreadSchedulingConfig \<Rightarrow> ThreadSchedulingStatus" where
  "empty_thread_status r i config =
     \<lparr>role = r, worker_index = i, native_thread_id = 0, requested = config,
      effective_cpu_affinity = [], effective_policy = DefaultPolicy, effective_priority = 0,
      affinity_applied = False, scheduler_applied = False, affinity_fallback = False,
      scheduler_fallback = False, affinity_error = 0, scheduler_error = 0, status_detail = []\<rparr>"

definition ReadEffectiveScheduling ::
    "SchedulingCalls \<Rightarrow> ThreadSchedulingStatus \<Rightarrow> ThreadSchedulingStatus" where
  "ReadEffectiveScheduling os st =
     (let st = (case call_get_affinity os of
            Inr cpus \<Rightarrow> st\<lparr>effective_cpu_affinity := effective_cpu_affinity st @ cpus\<rparr>
          | Inl err \<Rightarrow> st\<lparr>status_detail := AppendDetail (status_detail st)
              (ErrorDetail os ''pthread_getaffinity_np'' err)\<rparr>) in
      case call_get_scheduler os of
        Inr (pol, prio) \<Rightarrow> st\<lparr>effective_policy := PolicyFromNative pol, effective_priority := prio\<rparr>
      | Inl err \<Rightarrow> st\<lparr>status_detail := AppendDetail (status_detail st)
          (ErrorDetail os ''pthread_getschedparam'' err)\<rparr>)"

definition apply_affinity ::
    "SchedulingCalls \<Rightarrow> ThreadSchedulingConfig \<Rightarrow> ThreadSchedulingStatus \<Rightarrow> ThreadSchedulingStatus" where
  "apply_affinity os config st =
     (if cpu_affinity config = [] then st\<lparr>affinity_applied := True\<rparr>
      else let err = call_set_affinity os;
               st = st\<lparr>affinity_error := err, affinity_applied := (err = 0),
                 affinity_fallback := (err \<noteq> 0)\<rparr> in
        if err \<noteq> 0
        then st\<lparr>status_detail := AppendDetail (status_detail st)
          (ErrorDetail os ''pthread_setaffinity_np'' err)\<rparr>
        else st)"

definition apply_scheduler ::
    "SchedulingCalls \<Rightarrow> ThreadSchedulingStatus \<Rightarrow> ThreadSchedulingStatus" where
  "apply_scheduler os st =
     (let err = call_set_scheduler os;
          st = st\<lparr>scheduler_error := err, scheduler_applied := (err = 0),
            scheduler_fallback := (err \<noteq> 0)\<rparr> in
      if err \<noteq> 0
      then st\<lparr>status_detail := AppendDetail (status_detail st)
        (ErrorDetail os ''pthread_setschedparam'' err)\<rparr>
      else st)"

definition ApplyCurrentThreadScheduling ::
    "int list \<Rightarrow> (int \<times> int) option \<Rightarrow> SchedulingCalls \<Rightarrow> string \<Rightarrow> nat \<Rightarrow>
     ThreadSchedulingConfig \<Rightarrow> ThreadSchedulingStatus" where
  "ApplyCurrentThreadScheduling available fifo_range os r i config =
     (let st = (empty_thread_status r i config)\<lparr>native_thread_id := call_thread_id os\<rparr>;
          validation = ValidateThreadSchedulingConfig available fifo_range config in
      if \<not> ok validation
      then ReadEffectiveScheduling os (st\<lparr>affinity_error := EINVAL, scheduler_error := EINVAL,
        affinity_fallback := (cpu_affinity config \<noteq> []),
        scheduler_fallback := (policy config = Fifo), status_detail := detail validation\<rparr>)
      else ReadEffectiveScheduling os (apply_scheduler os (apply_affinity os config st)))"

text \<open>\<open>ConfigureThreadStartup\<close>: what is published when the configuration throws. The code moves
  \<open>role\<close> into the call that throws, so \<open>r\<close> is whatever the move left behind.\<close>

definition thread_startup_failed ::
    "string option \<Rightarrow> string \<Rightarrow> nat \<Rightarrow> ThreadSchedulingConfig \<Rightarrow> ThreadSchedulingStatus" where
  "thread_startup_failed what r i config =
     (let aff = (cpu_affinity config \<noteq> []); sch = (policy config = Fifo) in
      (empty_thread_status r i config)
        \<lparr>affinity_fallback := aff, scheduler_fallback := sch,
         affinity_error := (if aff then EFAULT else 0),
         scheduler_error := (if sch then EFAULT else 0),
         status_detail := (case what of
            Some w \<Rightarrow> ''thread configuration threw: '' @ w
          | None \<Rightarrow> ''thread configuration threw'')\<rparr>)"

text \<open>\<open>RealtimeMutex\<close>: the results (error numbers, zero for success) of the attribute, protocol and
  initialisation calls decide whether priority inheritance is active. The last argument is the
  result of the second initialisation, without attributes.\<close>

record RealtimeMutex =
  priority_inheritance_requested :: bool
  priority_inheritance_active :: bool
  priority_inheritance_error :: int

definition RealtimeMutex_new :: "bool \<Rightarrow> int \<Rightarrow> int \<Rightarrow> int \<Rightarrow> int \<Rightarrow> (string \<times> int) + RealtimeMutex" where
  "RealtimeMutex_new wanted attr_init set_protocol mutex_init plain_init =
     (if attr_init \<noteq> 0 then Inl (''pthread_mutexattr_init'', attr_init)
      else let active = (wanted \<and> set_protocol = 0);
               err = (if wanted \<and> set_protocol \<noteq> 0 then set_protocol else 0) in
        if mutex_init \<noteq> 0 \<and> active
        then if plain_init \<noteq> 0 then Inl (''pthread_mutex_init'', plain_init)
          else Inr \<lparr>priority_inheritance_requested = wanted, priority_inheritance_active = False,
            priority_inheritance_error = mutex_init\<rparr>
        else if mutex_init \<noteq> 0 then Inl (''pthread_mutex_init'', mutex_init)
        else Inr \<lparr>priority_inheritance_requested = wanted, priority_inheritance_active = active,
          priority_inheritance_error = err\<rparr>)"

fun ThreadSchedulingPolicyName :: "ThreadSchedulingPolicy \<Rightarrow> string" where
  "ThreadSchedulingPolicyName DefaultPolicy = ''default''"
| "ThreadSchedulingPolicyName Fifo = ''fifo''"

fun DeadlinePolicyName :: "DeadlinePolicy \<Rightarrow> string" where
  "DeadlinePolicyName Warn = ''warn''"
| "DeadlinePolicyName Degrade = ''degrade''"
| "DeadlinePolicyName Drop = ''drop''"

fun DeadlineActionName :: "DeadlineAction \<Rightarrow> string" where
  "DeadlineActionName NoAction = ''none''"
| "DeadlineActionName Warned = ''warned''"
| "DeadlineActionName Degraded = ''degraded''"
| "DeadlineActionName DroppedAction = ''dropped''"


subsection \<open>Percentiles\<close>

lemma sorted_count_le:
  assumes "sorted xs" "k < length xs"
  shows "Suc k \<le> length (filter (\<lambda>x. x \<le> xs ! k) xs)"
proof -
  let ?P = "\<lambda>x. x \<le> xs ! k"
  have "\<forall>x \<in> set (take (Suc k) xs). ?P x"
    using assms by (auto simp: in_set_conv_nth sorted_iff_nth_mono)
  then have "length (filter ?P (take (Suc k) xs)) = Suc k"
    using assms(2) by (simp add: filter_id_conv)
  moreover have "filter ?P xs = filter ?P (take (Suc k) xs) @ filter ?P (drop (Suc k) xs)"
    by (simp flip: filter_append)
  ultimately show ?thesis by simp
qed

lemma sorted_count_less:
  assumes "sorted xs" "k < length xs"
  shows "length (filter (\<lambda>x. x < xs ! k) xs) \<le> k"
proof -
  let ?P = "\<lambda>x. x < xs ! k"
  have "\<forall>x \<in> set (drop k xs). \<not> ?P x"
    using assms by (auto simp: in_set_conv_nth sorted_iff_nth_mono not_less)
  then have "filter ?P (drop k xs) = []" by (simp add: filter_empty_conv)
  moreover have "filter ?P xs = filter ?P (take k xs) @ filter ?P (drop k xs)"
    by (simp flip: filter_append)
  ultimately show ?thesis
    using length_filter_le [of ?P "take k xs"] by simp
qed

text \<open>The rank is between one and the number of values, so the clamping of the index never acts.\<close>

definition rank_of :: "rat \<Rightarrow> nat \<Rightarrow> nat" where
  "rank_of q n = nat \<lceil>q * of_nat n\<rceil>"

lemma rank_of:
  assumes "0 < n" "0 < q" "q \<le> 1"
  shows "1 \<le> rank_of q n" "rank_of q n \<le> n" "q * of_nat n \<le> of_nat (rank_of q n)"
    "of_nat (rank_of q n - 1) < q * of_nat n"
proof -
  let ?x = "q * of_nat n"
  have pos: "0 < ?x" using assms(1,2) by simp
  have le: "?x \<le> of_nat n"
    using assms(3) mult_right_mono [of q 1 "of_nat n"] by simp
  show one: "1 \<le> rank_of q n" using pos by (simp add: rank_of_def Suc_le_eq zero_less_nat_eq)
  show "rank_of q n \<le> n"
    using le by (simp add: rank_of_def nat_le_iff ceiling_le_iff)
  have real: "of_nat (rank_of q n) = (of_int \<lceil>?x\<rceil> :: rat)"
    using pos by (simp add: rank_of_def)
  show "?x \<le> of_nat (rank_of q n)" unfolding real by simp
  have "of_nat (rank_of q n - 1) = (of_nat (rank_of q n) - 1 :: rat)" using one by (simp add: of_nat_diff)
  then show "of_nat (rank_of q n - 1) < ?x" unfolding real using ceiling_correct [of ?x] by simp
qed

lemma rank_of_mono: "q \<le> r \<Longrightarrow> rank_of q n \<le> rank_of r n"
  by (simp add: rank_of_def nat_mono ceiling_mono mult_right_mono)

lemma percentile_index:
  assumes "values \<noteq> []" "0 < q" "q \<le> 1"
  shows "percentile values q = values ! (rank_of q (length values) - 1)"
proof -
  let ?r = "rank_of q (length values)"
  have "1 \<le> ?r" "?r \<le> length values" using rank_of(1,2) [of "length values" q] assms by simp_all
  then have "min (length values - 1) (if ?r = 0 then 0 else ?r - 1) = ?r - 1" by simp
  then show ?thesis by (simp add: percentile_def Let_def flip: rank_of_def)
qed

lemma percentile_mono:
  assumes "sorted values" "values \<noteq> []" "0 < q" "q \<le> r" "r \<le> 1"
  shows "percentile values q \<le> percentile values r"
proof -
  have "rank_of q (length values) - 1 \<le> rank_of r (length values) - 1"
    using rank_of_mono [OF assms(4)] by (rule diff_le_mono)
  moreover have "rank_of r (length values) - 1 < length values"
    using rank_of(1,2) [of "length values" r] assms(2-5) by (simp add: Suc_le_eq)
  ultimately show ?thesis
    using assms by (simp add: percentile_index sorted_nth_mono)
qed

lemma percentile_member:
  assumes "values \<noteq> []" "0 < q" "q \<le> 1"
  shows "percentile values q \<in> set values"
  using rank_of(1,2) [of "length values" q] assms by (simp add: percentile_index Suc_le_eq nth_mem)

lemma percentile_rank:
  assumes "xs \<noteq> []" "0 < q" "q \<le> 1"
  defines "v \<equiv> percentile (sort xs) q"
  shows "q * of_nat (length xs) \<le> of_nat (length (filter (\<lambda>x. x \<le> v) xs))"
    "of_nat (length (filter (\<lambda>x. x < v) xs)) < q * of_nat (length xs)"
proof -
  let ?ys = "sort xs"
  define rank where "rank = rank_of q (length xs)"
  have ne: "?ys \<noteq> []" using assms(1) by (metis length_0_conv length_sort)
  have r: "1 \<le> rank" "rank \<le> length xs" "q * of_nat (length xs) \<le> of_nat rank"
    "of_nat (rank - 1) < q * of_nat (length xs)"
    using rank_of [of "length xs" q] assms(1-3) by (simp_all add: rank_def)
  have v: "v = ?ys ! (rank - 1)"
    using percentile_index [OF ne assms(2,3)] by (simp add: v_def rank_def)
  have k: "rank - 1 < length ?ys" using r(1,2) by simp
  have same: "length (filter P ?ys) = length (filter P xs)" for P by (simp add: filter_sort)
  have "rank \<le> length (filter (\<lambda>x. x \<le> v) xs)"
    using sorted_count_le [OF sorted_sort k] r(1) by (simp add: v same)
  with r(3) show "q * of_nat (length xs) \<le> of_nat (length (filter (\<lambda>x. x \<le> v) xs))"
    by (meson of_nat_le_iff order_trans)
  have "length (filter (\<lambda>x. x < v) xs) \<le> rank - 1"
    using sorted_count_less [OF sorted_sort k] by (simp add: v same)
  then have "(of_nat (length (filter (\<lambda>x. x < v) xs)) :: rat) \<le> of_nat (rank - 1)"
    by (simp only: of_nat_le_iff)
  then show "of_nat (length (filter (\<lambda>x. x < v) xs)) < q * of_nat (length xs)"
    using r(4) by (rule order_le_less_trans)
qed


subsection \<open>Properties\<close>

text \<open>the timing summary is right. For a nonempty set of durations the reported values are ordered
  from the minimum to the maximum, every one of them occurs among the durations, and each
  percentile is the nearest-rank percentile: at least the given share of the durations is at most
  that value, and less than that share is below it.\<close>

theorem summary_is_nearest_rank:
  assumes "xs \<noteq> []"
  defines "d \<equiv> SummarizeDurations xs"
  shows "minimum d = Min (set xs) \<and> maximum d = Max (set xs) \<and>
    minimum d \<le> p50 d \<and> p50 d \<le> p95 d \<and> p95 d \<le> p99 d \<and> p99 d \<le> p99_9 d \<and> p99_9 d \<le> maximum d \<and>
    (\<forall>(v, q) \<in> {(p50 d, 50 / 100), (p95 d, 95 / 100), (p99 d, 99 / 100), (p99_9 d, 999 / 1000)}.
      v \<in> set xs \<and>
      q * of_nat (length xs) \<le> (of_nat (length (filter (\<lambda>x. x \<le> v) xs)) :: rat) \<and>
      of_nat (length (filter (\<lambda>x. x < v) xs)) < q * of_nat (length xs))"
proof -
  let ?ys = "sort xs"
  have ne: "?ys \<noteq> []" using assms(1) by (metis length_0_conv length_sort)
  have d: "minimum d = hd ?ys" "maximum d = last ?ys" "p50 d = percentile ?ys (50 / 100)"
    "p95 d = percentile ?ys (95 / 100)" "p99 d = percentile ?ys (99 / 100)"
    "p99_9 d = percentile ?ys (999 / 1000)"
    using assms(1) by (simp_all add: d_def SummarizeDurations_def Let_def)
  have bounds: "hd ?ys \<le> x" "x \<le> last ?ys" if "x \<in> set xs" for x
  proof -
    have "x \<in> set ?ys" using that by simp
    then obtain i where i: "i < length ?ys" "?ys ! i = x" by (metis in_set_conv_nth)
    have "?ys ! 0 \<le> ?ys ! i" "?ys ! i \<le> ?ys ! (length ?ys - 1)"
      using i(1) by (intro sorted_nth_mono; simp)+
    then show "hd ?ys \<le> x" "x \<le> last ?ys"
      using i ne by (simp_all add: hd_conv_nth last_conv_nth)
  qed
  have "hd ?ys \<in> set xs" "last ?ys \<in> set xs"
    using hd_in_set [OF ne] last_in_set [OF ne] by simp_all
  then have ends: "hd ?ys = Min (set xs)" "last ?ys = Max (set xs)"
    using bounds by (auto intro!: Min_eqI [symmetric] Max_eqI [symmetric])
  have mem: "percentile ?ys q \<in> set xs" if "0 < q" "q \<le> 1" for q
    using percentile_member [OF ne that] by simp
  have order: "percentile ?ys q \<le> percentile ?ys r" if "0 < q" "q \<le> r" "r \<le> 1" for q r
    using percentile_mono [OF _ ne that] by simp
  show ?thesis
    using percentile_rank [OF assms(1), of "50 / 100"] percentile_rank [OF assms(1), of "95 / 100"]
      percentile_rank [OF assms(1), of "99 / 100"] percentile_rank [OF assms(1), of "999 / 1000"]
      mem order bounds ends
    by (simp add: d)
qed

theorem summary_is_nearest_rank_witness:
  "p50 (SummarizeDurations [30, 10, 20]) \<in> set [30, 10, 20]"
  using summary_is_nearest_rank [of "[30, 10, 20]"] by simp

text \<open>the sample window is bounded and keeps the most recent samples: appending a sample to at
  most 4096 samples leaves the last 4096 of the extended list.\<close>

theorem sample_window_keeps_latest:
  assumes "length (samples stats) \<le> 4096"
  shows "samples (AppendSample s stats) =
      drop (length (samples stats) + 1 - 4096) (samples stats @ [s]) \<and>
    length (samples (AppendSample s stats)) \<le> 4096"
proof (cases "length (samples stats) = 4096")
  case True
  then obtain x xs where "samples stats = x # xs" by (cases "samples stats") auto
  with True show ?thesis by (simp add: AppendSample_def maximum_samples_def Let_def)
next
  case False
  with assms show ?thesis by (simp add: AppendSample_def maximum_samples_def Let_def)
qed

definition demo_sample :: "int \<Rightarrow> TaskSample" where
  "demo_sample t = \<lparr>sample_task_id = 1, release_sequence = 1, scheduled_release_time = t,
     actual_start_time = t, finish_time = t, execution_time = 0, release_jitter = 0,
     response_time = 0, queue_delay = 0, deadline_miss = False, sample_dropped = False,
     deadline_action = NoAction\<rparr>"

theorem sample_window_keeps_latest_witness:
  "samples (AppendSample (demo_sample 5) ((new_task_stats 1 ''t'' Async)
       \<lparr>samples := replicate 4096 (demo_sample 1)\<rparr>)) =
     drop 1 (replicate 4096 (demo_sample 1) @ [demo_sample 5])"
  using sample_window_keeps_latest [of "(new_task_stats 1 ''t'' Async)
      \<lparr>samples := replicate 4096 (demo_sample 1)\<rparr>" "demo_sample 5"]
  by (simp add: new_task_stats_def)

lemma adjacent_equal_sorted: "sorted xs \<Longrightarrow> adjacent_equal xs \<longleftrightarrow> \<not> distinct xs"
  by (induction xs rule: adjacent_equal.induct) (auto dest: antisym)

text \<open>the validation of a thread scheduling configuration accepts exactly the configurations with
  distinct CPUs inside the machine and the process CPU set, and with priority zero for the
  default policy or a priority in the platform's range for \<open>SCHED_FIFO\<close>.\<close>

theorem scheduling_validation_exact:
  "ok (ValidateThreadSchedulingConfig available fifo_range config) \<longleftrightarrow>
     distinct (cpu_affinity config) \<and>
     (\<forall>cpu \<in> set (cpu_affinity config). 0 \<le> cpu \<and> cpu < 1024 \<and>
        (available = [] \<or> cpu \<in> set available)) \<and>
     (if policy config = DefaultPolicy then sched_priority config = 0
      else \<exists>lo hi. fifo_range = Some (lo, hi) \<and> lo \<le> sched_priority config \<and>
        sched_priority config \<le> hi)"
  using adjacent_equal_sorted [OF sorted_sort, of "cpu_affinity config"]
  by (auto simp: ValidateThreadSchedulingConfig_def Let_def CPU_SETSIZE_def not_less not_le
      split: option.splits)

theorem scheduling_validation_exact_witness:
  "ok (ValidateThreadSchedulingConfig [0, 1, 2, 3] (Some (1, 99))
     \<lparr>cpu_affinity = [2, 0], policy = Fifo, sched_priority = 80\<rparr>) \<and>
   \<not> ok (ValidateThreadSchedulingConfig [0, 1, 2, 3] (Some (1, 99))
     \<lparr>cpu_affinity = [2, 7], policy = Fifo, sched_priority = 80\<rparr>)"
  by (simp add: scheduling_validation_exact)

end
