(* ===== verification/Executor.thy ===== *)
theory Executor
  imports Task_Timing "HOL-Library.AList"
begin

text \<open>
  The task executor of \<open>executor.cpp\<close>: callback groups with bounded priority queues and worker
  threads, tasks that are released periodically, by notification or once, deadline policies, and a
  scheduler thread that releases periodic tasks on an absolute time grid.

  The code holds three kinds of locks (executor, task, group) one after the other. Every section
  under a lock is one operation here; \<open>Executor_System\<close> interleaves them. Clock readings are arguments; running a callback is two steps, its start and its end.
  The unordered maps are association lists.
\<close>

subsection \<open>State\<close>

record TaskState =
  tk_id :: u64
  tk_config :: TaskConfig
  tk_stop_requested :: bool
  tk_cancelled :: bool
  tk_queued :: nat
  tk_next_release :: time_point
  tk_stats :: TaskStats

text \<open>A job refers to its task; the configuration reached through the pointer never changes.\<close>

record Job =
  job_task :: u64
  job_config :: TaskConfig
  job_release_time :: time_point
  job_enqueued_at :: time_point
  job_sequence :: u64

record CallbackGroup =
  cg_id :: u64
  cg_config :: CallbackGroupConfig
  cg_queue :: "Job list"
  cg_stopping :: bool

record Executor =
  ex_scheduler_thread :: ThreadSchedulingConfig
  ex_has_handler :: bool
  ex_groups :: "(u64 \<times> CallbackGroup) list"
  ex_tasks :: "(u64 \<times> TaskState) list"
  ex_next_group_id :: u64
  ex_next_task_id :: u64
  ex_next_job_sequence :: u64
  ex_schedule_version :: u64
  ex_running :: bool
  ex_stopping :: bool
  ex_degraded :: bool

definition Executor_new :: "ThreadSchedulingConfig \<Rightarrow> bool \<Rightarrow> Executor" where
  "Executor_new scheduler_thread has_handler =
     \<lparr>ex_scheduler_thread = scheduler_thread, ex_has_handler = has_handler, ex_groups = [],
      ex_tasks = [], ex_next_group_id = 1, ex_next_task_id = 1, ex_next_job_sequence = 1,
      ex_schedule_version = 0, ex_running = False, ex_stopping = False, ex_degraded = False\<rparr>"

definition FindTask :: "u64 \<Rightarrow> Executor \<Rightarrow> TaskState option" where
  "FindTask i ex = map_of (ex_tasks ex) i"

definition put_task :: "u64 \<Rightarrow> TaskState \<Rightarrow> Executor \<Rightarrow> Executor" where
  "put_task i tk ex = ex\<lparr>ex_tasks := AList.update i tk (ex_tasks ex)\<rparr>"

definition put_group :: "u64 \<Rightarrow> CallbackGroup \<Rightarrow> Executor \<Rightarrow> Executor" where
  "put_group i g ex = ex\<lparr>ex_groups := AList.update i g (ex_groups ex)\<rparr>"


subsection \<open>The priority queue\<close>

text \<open>\<open>HigherPriorityFirst left right\<close>: \<open>left\<close> comes after \<open>right\<close>.\<close>

definition HigherPriorityFirst :: "Job \<Rightarrow> Job \<Rightarrow> bool" where
  "HigherPriorityFirst left right =
     (if task_priority (job_config left) \<noteq> task_priority (job_config right)
      then task_priority (job_config left) < task_priority (job_config right)
      else if job_release_time left \<noteq> job_release_time right
      then job_release_time left > job_release_time right
      else job_sequence left > job_sequence right)"

fun top_job :: "Job \<Rightarrow> Job list \<Rightarrow> Job" where
  "top_job best [] = best"
| "top_job best (j # js) = top_job (if HigherPriorityFirst best j then j else best) js"

definition pop_job :: "Job list \<Rightarrow> (Job \<times> Job list) option" where
  "pop_job queue =
     (case queue of
        [] \<Rightarrow> None
      | j # js \<Rightarrow> let t = top_job j js in Some (t, remove1 t queue))"


subsection \<open>Enqueue\<close>

text \<open>Under the executor's lock: the group of the task and a fresh job sequence number.\<close>

definition Enqueue_reserve :: "TaskConfig \<Rightarrow> Executor \<Rightarrow> u64 Result \<times> Executor" where
  "Enqueue_reserve config ex =
     (if \<not> ex_running ex \<or> ex_stopping ex
      then (Inl (mk_status Closed ''executor is not accepting work''), ex)
      else case map_of (ex_groups ex) (callback_group config) of
        None \<Rightarrow> (Inl (mk_status NotFound ''callback group no longer exists''), ex)
      | Some g \<Rightarrow>
        (Inr (ex_next_job_sequence ex),
         ex\<lparr>ex_next_job_sequence := ex_next_job_sequence ex + 1\<rparr>))"

text \<open>Under the task's lock.\<close>

definition Enqueue_admit :: "TaskState \<Rightarrow> Status \<times> TaskState" where
  "Enqueue_admit tk =
     (let st = tk_stats tk in
      if tk_cancelled tk then (mk_status Cancelled ''task is cancelled'', tk)
      else if tk_queued tk \<ge> queue_capacity (tk_config tk)
      then (mk_status QueueFull ''task queue is full'',
        tk\<lparr>tk_stats := st\<lparr>releases := releases st + 1, queue_overflows := queue_overflows st + 1\<rparr>\<rparr>)
      else (OkStatus,
        tk\<lparr>tk_stats := st\<lparr>releases := releases st + 1\<rparr>, tk_queued := tk_queued tk + 1\<rparr>))"

text \<open>Under the group's lock, and the task's again when the job is turned away.\<close>

definition Enqueue_push :: "Job \<Rightarrow> CallbackGroup \<Rightarrow> TaskState \<Rightarrow> Status \<times> CallbackGroup \<times> TaskState" where
  "Enqueue_push job g tk =
     (if cg_stopping g
      then (mk_status Closed ''callback group is stopping'', g, tk\<lparr>tk_queued := tk_queued tk - 1\<rparr>)
      else if length (cg_queue g) \<ge> group_queue_capacity (cg_config g)
      then (mk_status QueueFull ''callback group queue is full'', g,
        tk\<lparr>tk_queued := tk_queued tk - 1,
          tk_stats := (tk_stats tk)\<lparr>queue_overflows := queue_overflows (tk_stats tk) + 1\<rparr>\<rparr>)
      else (OkStatus, g\<lparr>cg_queue := cg_queue g @ [job]\<rparr>, tk))"

text \<open>The three sections in sequence, when no other thread comes in between.\<close>

definition Enqueue :: "u64 \<Rightarrow> time_point \<Rightarrow> time_point \<Rightarrow> Executor \<Rightarrow> Status \<times> Executor" where
  "Enqueue i release_time enqueued_at ex =
     (case FindTask i ex of
        None \<Rightarrow> (mk_status NotFound ''task does not exist'', ex)
      | Some tk \<Rightarrow>
        (case Enqueue_reserve (tk_config tk) ex of
           (Inl e, ex) \<Rightarrow> (e, ex)
         | (Inr seq, ex) \<Rightarrow>
           (case Enqueue_admit tk of (st, tk) \<Rightarrow>
            let ex = put_task i tk ex in
            if \<not> ok st then (st, ex)
            else case map_of (ex_groups ex) (callback_group (tk_config tk)) of
              None \<Rightarrow> (mk_status NotFound ''callback group no longer exists'', ex)
            | Some g \<Rightarrow>
              (case Enqueue_push \<lparr>job_task = i, job_config = tk_config tk,
                   job_release_time = release_time, job_enqueued_at = enqueued_at,
                   job_sequence = seq\<rparr> g tk of
                 (st, g, tk) \<Rightarrow>
                   (st, put_group (callback_group (tk_config tk)) g (put_task i tk ex))))))"


subsection \<open>Workers\<close>

datatype WorkerWake = WorkerExit | WorkerBlocked | WorkerJob Job bool CallbackGroup

definition worker_wake :: "CallbackGroup \<Rightarrow> WorkerWake" where
  "worker_wake g =
     (case pop_job (cg_queue g) of
        None \<Rightarrow> if cg_stopping g then WorkerExit else WorkerBlocked
      | Some (job, rest) \<Rightarrow> WorkerJob job (cg_stopping g) (g\<lparr>cg_queue := rest\<rparr>))"

definition deadline_expired :: "TaskConfig \<Rightarrow> time_point \<Rightarrow> time_point \<Rightarrow> bool" where
  "deadline_expired config release_time now =
     (deadline config > 0 \<and> now > release_time + deadline config)"

datatype Dispatch = Discard | DropJob DeadlineEvent | Execute

definition drop_sample :: "Job \<Rightarrow> time_point \<Rightarrow> TaskState \<Rightarrow> TaskSample" where
  "drop_sample job dispatch_time tk =
     (let jitter = NonNegativeDuration dispatch_time (job_release_time job) in
      \<lparr>sample_task_id = tk_id tk, release_sequence = job_sequence job,
       scheduled_release_time = job_release_time job, actual_start_time = dispatch_time,
       finish_time = dispatch_time, execution_time = 0, release_jitter = jitter,
       response_time = jitter,
       queue_delay = NonNegativeDuration dispatch_time (job_enqueued_at job),
       deadline_miss = True, sample_dropped = True, deadline_action = DroppedAction\<rparr>)"

definition deadline_event :: "TaskState \<Rightarrow> DeadlineAction \<Rightarrow> u64 \<Rightarrow> TaskSample \<Rightarrow> DeadlineEvent" where
  "deadline_event tk action misses sample =
     \<lparr>event_task_id = tk_id tk, event_task_name = task_name (tk_config tk),
      event_policy = deadline_policy (tk_config tk), event_action = action,
      total_deadline_misses = misses, event_sample = sample\<rparr>"

definition worker_dispatch :: "Job \<Rightarrow> bool \<Rightarrow> time_point \<Rightarrow> TaskState \<Rightarrow> Dispatch \<times> TaskState" where
  "worker_dispatch job group_stopping dispatch_time tk =
     (let tk = (if tk_queued tk > 0 then tk\<lparr>tk_queued := tk_queued tk - 1\<rparr> else tk);
          st = tk_stats tk in
      if tk_cancelled tk \<or> group_stopping then (Discard, tk)
      else if deadline_expired (tk_config tk) (job_release_time job) dispatch_time \<and>
        deadline_policy (tk_config tk) = Drop
      then let sample = drop_sample job dispatch_time tk; misses = deadline_misses st + 1 in
        (DropJob (deadline_event tk DroppedAction misses sample),
         tk\<lparr>tk_stats := AppendSample sample
           (st\<lparr>deadline_misses := misses, deadline_drops := deadline_drops st + 1\<rparr>)\<rparr>)
      else (Execute, tk\<lparr>tk_stats := st\<lparr>started := started st + 1\<rparr>\<rparr>))"

definition finish_sample :: "Job \<Rightarrow> time_point \<Rightarrow> time_point \<Rightarrow> TaskState \<Rightarrow> TaskSample" where
  "finish_sample job start finish tk =
     \<lparr>sample_task_id = tk_id tk, release_sequence = job_sequence job,
      scheduled_release_time = job_release_time job, actual_start_time = start,
      finish_time = finish, execution_time = NonNegativeDuration finish start,
      release_jitter = NonNegativeDuration start (job_release_time job),
      response_time = NonNegativeDuration finish (job_release_time job),
      queue_delay = NonNegativeDuration start (job_enqueued_at job),
      deadline_miss = deadline_expired (tk_config tk) (job_release_time job) finish,
      sample_dropped = False, deadline_action = NoAction\<rparr>"

fun miss_action :: "DeadlinePolicy \<Rightarrow> DeadlineAction" where
  "miss_action Warn = Warned"
| "miss_action Degrade = Degraded"
| "miss_action Drop = Warned"

text \<open>After the callback: the event to report, whether the runtime becomes degraded, and the task.\<close>

definition worker_finish ::
    "Job \<Rightarrow> time_point \<Rightarrow> time_point \<Rightarrow> bool \<Rightarrow> TaskState \<Rightarrow> DeadlineEvent option \<times> bool \<times> TaskState" where
  "worker_finish job start finish callback_failed tk =
     (let sample = finish_sample job start finish tk;
          st = tk_stats tk;
          st = st\<lparr>finished := finished st + 1,
            callback_failures := (if callback_failed then callback_failures st + 1
              else callback_failures st)\<rparr> in
      if deadline_miss sample
      then let action = miss_action (deadline_policy (tk_config tk));
               sample = sample\<lparr>deadline_action := action\<rparr>;
               misses = deadline_misses st + 1;
               st = st\<lparr>deadline_misses := misses,
                 deadline_warnings := (if action = Warned then deadline_warnings st + 1
                   else deadline_warnings st),
                 deadline_degrades := (if action = Degraded then deadline_degrades st + 1
                   else deadline_degrades st)\<rparr> in
        (Some (deadline_event tk action misses sample), action = Degraded,
         tk\<lparr>tk_stats := AppendSample sample st\<rparr>)
      else (None, False, tk\<lparr>tk_stats := AppendSample sample st\<rparr>))"

text \<open>\<open>InvokeDeadlineHandler\<close>: \<open>threw\<close> tells whether the handler threw.\<close>

definition InvokeDeadlineHandler :: "bool \<Rightarrow> bool \<Rightarrow> TaskState \<Rightarrow> TaskState" where
  "InvokeDeadlineHandler has_handler threw tk =
     (if has_handler \<and> threw
      then tk\<lparr>tk_stats := (tk_stats tk)
        \<lparr>deadline_handler_failures := deadline_handler_failures (tk_stats tk) + 1\<rparr>\<rparr>
      else tk)"


subsection \<open>The scheduler thread\<close>

definition maximum_catch_up :: nat where
  "maximum_catch_up = 1024"

fun catch_up_loop :: "nat \<Rightarrow> time_point \<Rightarrow> duration \<Rightarrow> time_point \<Rightarrow> time_point list \<times> time_point" where
  "catch_up_loop 0 now per next_release = ([], next_release)"
| "catch_up_loop (Suc n) now per next_release =
     (if next_release \<le> now
      then case catch_up_loop n now per (next_release + per) of
        (due, next_release') \<Rightarrow> (next_release # due, next_release')
      else ([], next_release))"

text \<open>The releases of one task that are due at \<open>now\<close>; after a long delay the remaining ones are
  skipped in one go.\<close>

definition release_due :: "time_point \<Rightarrow> TaskState \<Rightarrow> time_point list \<times> TaskState" where
  "release_due now tk =
     (if tk_cancelled tk \<or> kind (tk_config tk) \<noteq> Periodic then ([], tk)
      else let per = period (tk_config tk) in
        case catch_up_loop maximum_catch_up now per (tk_next_release tk) of
          (due, next_release) \<Rightarrow>
          if length due = maximum_catch_up \<and> next_release \<le> now
          then let skipped = (now - next_release) div per + 1 in
            (due, tk\<lparr>tk_next_release := next_release + per * skipped,
               tk_stats := (tk_stats tk)\<lparr>periodic_releases_skipped :=
                 periodic_releases_skipped (tk_stats tk) + of_int skipped\<rparr>\<rparr>)
          else (due, tk\<lparr>tk_next_release := next_release\<rparr>))"

fun earliest_release :: "(u64 \<times> TaskState) list \<Rightarrow> time_point" where
  "earliest_release [] = time_point_max"
| "earliest_release ((i, tk) # tks) =
     (if \<not> tk_cancelled tk \<and> kind (tk_config tk) = Periodic
      then min (tk_next_release tk) (earliest_release tks)
      else earliest_release tks)"

fun release_all ::
    "time_point \<Rightarrow> (u64 \<times> TaskState) list \<Rightarrow> (u64 \<times> time_point) list \<times> (u64 \<times> TaskState) list" where
  "release_all now [] = ([], [])"
| "release_all now ((i, tk) # tks) =
     (case release_due now tk of (due_times, tk) \<Rightarrow>
      case release_all now tks of (due, tks) \<Rightarrow>
        (map (\<lambda>t. (i, t)) due_times @ due, (i, tk) # tks))"

datatype SchedulerTurn =
  SchedulerExit
  | SchedulerWait
  | SchedulerWaitUntil time_point
  | SchedulerRelease "(u64 \<times> time_point) list" Executor

text \<open>One turn of \<open>SchedulerLoop\<close>; \<open>now1\<close> and \<open>now\<close> are its two clock readings.\<close>

definition scheduler_turn :: "time_point \<Rightarrow> time_point \<Rightarrow> Executor \<Rightarrow> SchedulerTurn" where
  "scheduler_turn now1 now ex =
     (if ex_stopping ex then SchedulerExit
      else let earliest = earliest_release (ex_tasks ex) in
        if earliest = time_point_max then SchedulerWait
        else if now1 < earliest then SchedulerWaitUntil earliest
        else case release_all now (ex_tasks ex) of
          (due, tks) \<Rightarrow> SchedulerRelease due (ex\<lparr>ex_tasks := tks\<rparr>))"


subsection \<open>The public operations\<close>

definition new_group :: "u64 \<Rightarrow> CallbackGroupConfig \<Rightarrow> CallbackGroup" where
  "new_group i config = \<lparr>cg_id = i, cg_config = config, cg_queue = [], cg_stopping = False\<rparr>"

text \<open>\<open>scheduling_status\<close> is the outcome of \<open>ValidateThreadSchedulingConfig\<close>.\<close>

definition CreateCallbackGroup ::
    "Status \<Rightarrow> CallbackGroupConfig \<Rightarrow> Executor \<Rightarrow> u64 Result \<times> Executor" where
  "CreateCallbackGroup scheduling_status config ex =
     (if group_name config = [] \<or> worker_count config = 0 \<or> group_queue_capacity config = 0
      then (Inl (mk_status InvalidArgument
        ''callback group requires a name, workers, and capacity''), ex)
      else if \<not> ok scheduling_status then (Inl scheduling_status, ex)
      else if ex_running ex \<or> ex_stopping ex
      then (Inl (mk_status AlreadyExists ''callback groups must be created before Start''), ex)
      else let i = ex_next_group_id ex in
        (Inr i, ex\<lparr>ex_next_group_id := i + 1,
           ex_groups := (if map_of (ex_groups ex) i = None
             then (i, new_group i config) # ex_groups ex else ex_groups ex)\<rparr>))"

definition new_task :: "u64 \<Rightarrow> TaskConfig \<Rightarrow> time_point \<Rightarrow> TaskState" where
  "new_task i config next_release =
     \<lparr>tk_id = i, tk_config = config, tk_stop_requested = False, tk_cancelled = False,
      tk_queued = 0, tk_next_release = next_release,
      tk_stats = new_task_stats i (task_name config) (kind config)\<rparr>"

definition task_config_valid :: "TaskConfig \<Rightarrow> bool" where
  "task_config_valid config =
     (task_name config \<noteq> [] \<and> queue_capacity config \<noteq> 0 \<and> deadline config \<ge> 0 \<and>
      \<not> (kind config = Periodic \<and> period config \<le> 0))"

text \<open>The section of \<open>AddTask\<close> under the executor's lock; \<open>has_callback\<close> is false for an empty
  function.\<close>

definition AddTask_register ::
    "TaskConfig \<Rightarrow> bool \<Rightarrow> time_point \<Rightarrow> Executor \<Rightarrow> u64 Result \<times> Executor" where
  "AddTask_register config has_callback now ex =
     (if \<not> task_config_valid config \<or> \<not> has_callback
      then (Inl (mk_status InvalidArgument ''invalid task configuration''), ex)
      else if ex_stopping ex then (Inl (mk_status Closed ''executor is stopping''), ex)
      else if map_of (ex_groups ex) (callback_group config) = None
      then (Inl (mk_status NotFound ''callback group does not exist''), ex)
      else let i = ex_next_task_id ex;
               next_release = (if ex_running ex \<and> kind config = Periodic then now + period config
                 else 0) in
        (Inr i, ex\<lparr>ex_next_task_id := i + 1,
           ex_tasks := (if map_of (ex_tasks ex) i = None
             then (i, new_task i config next_release) # ex_tasks ex else ex_tasks ex),
           ex_schedule_version := ex_schedule_version ex + 1\<rparr>))"

definition AddTask ::
    "TaskConfig \<Rightarrow> bool \<Rightarrow> time_point \<Rightarrow> time_point \<Rightarrow> time_point \<Rightarrow> Executor \<Rightarrow> u64 Result \<times> Executor" where
  "AddTask config has_callback now release_time enqueued_at ex =
     (case AddTask_register config has_callback now ex of
        (Inl e, ex) \<Rightarrow> (Inl e, ex)
      | (Inr i, ex) \<Rightarrow>
        if kind config = Async \<and> ex_running ex
        then (case Enqueue i release_time enqueued_at ex of
          (st, ex) \<Rightarrow> if \<not> ok st then (Inl st, ex) else (Inr i, ex))
        else (Inr i, ex))"

definition start_task :: "time_point \<Rightarrow> TaskState \<Rightarrow> TaskState" where
  "start_task now tk =
     (if kind (tk_config tk) = Periodic
      then tk\<lparr>tk_next_release := now + period (tk_config tk)\<rparr> else tk)"

definition map_values :: "('v \<Rightarrow> 'v) \<Rightarrow> ('k \<times> 'v) list \<Rightarrow> ('k \<times> 'v) list" where
  "map_values f = map (\<lambda>(k, v). (k, f v))"

text \<open>The sections of \<open>Stop\<close>: the flags under the executor's lock, the stop source of each task,
  the flag of each group under the group's lock.\<close>

definition Stop_begin :: "Executor \<Rightarrow> bool \<times> Executor" where
  "Stop_begin ex =
     (if \<not> ex_running ex \<and> \<not> ex_stopping ex then (False, ex)
      else (True, ex\<lparr>ex_running := False, ex_stopping := True,
        ex_schedule_version := ex_schedule_version ex + 1\<rparr>))"

definition stop_task :: "TaskState \<Rightarrow> TaskState" where
  "stop_task tk = tk\<lparr>tk_stop_requested := True\<rparr>"

definition stop_group :: "CallbackGroup \<Rightarrow> CallbackGroup" where
  "stop_group g = g\<lparr>cg_stopping := True\<rparr>"

text \<open>The sections in sequence, when no other thread comes in between.\<close>

definition Executor_Stop :: "Executor \<Rightarrow> Status \<times> Executor" where
  "Executor_Stop ex =
     (case Stop_begin ex of
        (False, ex) \<Rightarrow> (OkStatus, ex)
      | (True, ex) \<Rightarrow>
        (OkStatus, ex\<lparr>ex_tasks := map_values stop_task (ex_tasks ex),
          ex_groups := map_values stop_group (ex_groups ex)\<rparr>))"

text \<open>The section of \<open>Start\<close> under the lock; \<open>scheduling_status\<close> is the outcome of the validation of
  the scheduler thread's configuration.\<close>

definition Start_begin :: "Status \<Rightarrow> time_point \<Rightarrow> Executor \<Rightarrow> Status \<times> Executor" where
  "Start_begin scheduling_status now ex =
     (if \<not> ok scheduling_status then (scheduling_status, ex)
      else if ex_running ex then (mk_status AlreadyExists ''executor is already running'', ex)
      else if ex_stopping ex then (mk_status Closed ''executor cannot be restarted'', ex)
      else if ex_groups ex = []
      then (mk_status InvalidArgument ''executor requires at least one callback group'', ex)
      else (OkStatus,
        ex\<lparr>ex_running := True, ex_tasks := map_values (start_task now) (ex_tasks ex)\<rparr>))"

text \<open>\<open>thread_error\<close> is the failure to create one of the threads; it stops the executor for good.\<close>

definition Executor_Start :: "Status \<Rightarrow> time_point \<Rightarrow> string option \<Rightarrow> Executor \<Rightarrow> Status \<times> Executor" where
  "Executor_Start scheduling_status now thread_error ex =
     (case Start_begin scheduling_status now ex of (st, ex) \<Rightarrow>
      if \<not> ok st then (st, ex)
      else case thread_error of
          None \<Rightarrow> (OkStatus, ex)
        | Some what \<Rightarrow>
          (mk_status Internal (''failed to start executor thread: '' @ what),
           snd (Executor_Stop ex)))"

definition Notify :: "u64 \<Rightarrow> time_point \<Rightarrow> time_point \<Rightarrow> Executor \<Rightarrow> Status \<times> Executor" where
  "Notify i release_time enqueued_at ex =
     (case FindTask i ex of
        None \<Rightarrow> (mk_status NotFound ''task does not exist'', ex)
      | Some tk \<Rightarrow>
        if kind (tk_config tk) = Periodic
        then (mk_status InvalidArgument ''periodic tasks cannot be manually notified'', ex)
        else Enqueue i release_time enqueued_at ex)"

definition cancel_task :: "TaskState \<Rightarrow> TaskState" where
  "cancel_task tk =
     tk\<lparr>tk_cancelled := True, tk_stop_requested := True,
       tk_stats := (tk_stats tk)\<lparr>stats_cancelled := True\<rparr>\<rparr>"

definition Cancel :: "u64 \<Rightarrow> Executor \<Rightarrow> Status \<times> Executor" where
  "Cancel i ex =
     (case FindTask i ex of
        None \<Rightarrow> (mk_status NotFound ''task does not exist'', ex)
      | Some tk \<Rightarrow>
        if tk_cancelled tk then (OkStatus, ex)
        else (OkStatus, (put_task i (cancel_task tk) ex)
          \<lparr>ex_schedule_version := ex_schedule_version ex + 1\<rparr>))"

definition Executor_Stats :: "u64 \<Rightarrow> Executor \<Rightarrow> TaskStats Result" where
  "Executor_Stats i ex =
     (case FindTask i ex of
        None \<Rightarrow> Inl (mk_status NotFound ''task does not exist'')
      | Some tk \<Rightarrow> Inr (FinalizeTimingSummary (tk_stats tk)))"

record RuntimeStats =
  captured_at :: time_point
  rs_degraded :: bool
  rs_tasks :: "TaskStats list"

definition Snapshot :: "time_point \<Rightarrow> Executor \<Rightarrow> RuntimeStats" where
  "Snapshot now ex =
     \<lparr>captured_at = now, rs_degraded = ex_degraded ex,
      rs_tasks = map (\<lambda>(i, tk). FinalizeTimingSummary (tk_stats tk)) (ex_tasks ex)\<rparr>"

record SchedulingSnapshot =
  snap_threads :: "ThreadSchedulingStatus list"
  snap_any_fallback :: bool
  snap_inheritance :: RealtimeMutex

text \<open>\<open>Scheduling\<close>: the statuses of the threads that are ready, the scheduler's first, then those of
  the groups ordered by identifier (\<open>None\<close> for a thread that is not ready).\<close>

definition Scheduling ::
    "RealtimeMutex \<Rightarrow> ThreadSchedulingStatus option \<Rightarrow>
     (u64 \<times> ThreadSchedulingStatus option list) list \<Rightarrow> SchedulingSnapshot" where
  "Scheduling mutex scheduler workers =
     (let ready = List.map_filter (\<lambda>st. st)
            (scheduler # concat (map snd (sort_key fst workers))) in
      \<lparr>snap_threads = ready,
       snap_any_fallback = (\<exists>st \<in> set ready. affinity_fallback st \<or> scheduler_fallback st),
       snap_inheritance = mutex\<rparr>)"

definition AcknowledgeDegraded :: "Executor \<Rightarrow> Status \<times> Executor" where
  "AcknowledgeDegraded ex = (OkStatus, ex\<lparr>ex_degraded := False\<rparr>)"


subsection \<open>Periodic releases stay on their grid\<close>

text \<open>The number of grid points from \<open>next_release\<close> up to \<open>now\<close>.\<close>

definition grid_points :: "time_point \<Rightarrow> duration \<Rightarrow> time_point \<Rightarrow> nat" where
  "grid_points now per next_release =
     (if next_release \<le> now then nat ((now - next_release) div per) + 1 else 0)"

lemma grid_points_step:
  assumes "0 < per" "next_release \<le> now"
  shows "grid_points now per next_release = Suc (grid_points now per (next_release + per))"
proof (cases "next_release + per \<le> now")
  case True
  have "(now - next_release) div per = (now - (next_release + per) + per) div per" by simp
  also have "\<dots> = (now - (next_release + per)) div per + 1"
    by (rule div_add_self2) (use assms(1) in simp)
  finally show ?thesis
    using True assms by (simp add: grid_points_def nat_add_distrib pos_imp_zdiv_nonneg_iff)
next
  case False
  then have "(now - next_release) div per = 0" using assms by (simp add: div_pos_pos_trivial)
  then show ?thesis using False assms by (simp add: grid_points_def)
qed

lemma catch_up_loop_grid:
  assumes "0 < per"
  shows "catch_up_loop n now per next_release =
    (map (\<lambda>k. next_release + int k * per) [0..<min n (grid_points now per next_release)],
     next_release + int (min n (grid_points now per next_release)) * per)"
proof (induction n arbitrary: next_release)
  case (Suc n)
  show ?case
  proof (cases "next_release \<le> now")
    case True
    let ?g = "grid_points now per (next_release + per)"
    have shift: "map (\<lambda>k. next_release + int k * per) [0..<Suc m] =
        next_release # map (\<lambda>k. next_release + per + int k * per) [0..<m]" for m
      by (simp add: map_upt_Suc algebra_simps del: upt_Suc)
    have "min (Suc n) (grid_points now per next_release) = Suc (min n ?g)"
      using True assms by (simp add: grid_points_step)
    then show ?thesis
      using True by (simp only: shift) (simp add: Suc.IH algebra_simps)
  qed (simp add: grid_points_def)
qed simp

lemma grid_points_beyond:
  assumes "0 < per"
  shows "now < next_release + int (grid_points now per next_release) * per"
proof (cases "next_release \<le> now")
  case True
  have "now - next_release < ((now - next_release) div per + 1) * per"
  proof -
    have "now - next_release = per * ((now - next_release) div per) + (now - next_release) mod per"
      by simp
    moreover have "(now - next_release) mod per < per" using assms by simp
    ultimately show ?thesis by (simp only: distrib_left distrib_right mult_1 mult_1_right mult.commute [of _ per])
  qed
  then show ?thesis
    using True assms by (simp add: grid_points_def pos_imp_zdiv_nonneg_iff algebra_simps)
qed (simp add: grid_points_def)

lemma grid_points_shift:
  assumes "0 < per" "k \<le> grid_points now per next_release"
  shows "grid_points now per (next_release + int k * per) = grid_points now per next_release - k"
  using assms(2)
proof (induction k)
  case (Suc k)
  let ?n = "next_release + int k * per"
  have ih: "grid_points now per ?n = grid_points now per next_release - k" using Suc by simp
  then have "?n \<le> now" using Suc.prems by (auto simp: grid_points_def split: if_splits)
  from grid_points_step [OF assms(1) this] ih show ?case by (simp add: algebra_simps)
qed simp

lemma release_due_grid:
  fixes now :: time_point
  assumes "0 < period (tk_config tk)" "\<not> tk_cancelled tk" "kind (tk_config tk) = Periodic"
  defines "per \<equiv> period (tk_config tk)"
  defines "g \<equiv> grid_points now per (tk_next_release tk)"
  shows "release_due now tk =
    (map (\<lambda>k. tk_next_release tk + int k * per) [0..<min 1024 g],
     tk\<lparr>tk_next_release := tk_next_release tk + int g * per,
       tk_stats := (tk_stats tk)\<lparr>periodic_releases_skipped :=
         periodic_releases_skipped (tk_stats tk) + of_nat (g - 1024)\<rparr>\<rparr>)"
proof -
  let ?nx = "tk_next_release tk"
  have per: "0 < per" using assms(1) by (simp add: per_def)
  have loop: "catch_up_loop maximum_catch_up now per ?nx =
      (map (\<lambda>k. ?nx + int k * per) [0..<min 1024 g], ?nx + int (min 1024 g) * per)"
    using catch_up_loop_grid [OF per, of maximum_catch_up now ?nx]
    by (simp add: g_def maximum_catch_up_def)
  show ?thesis
  proof (cases "1024 < g")
    case True
    let ?after = "?nx + int 1024 * per"
    have left: "grid_points now per ?after = g - 1024"
      using grid_points_shift [OF per, of 1024 now ?nx] True by (simp add: g_def)
    with True have le: "?after \<le> now" by (auto simp: grid_points_def split: if_splits)
    then have sk: "(now - ?after) div per + 1 = int (g - 1024)"
    proof -
      have "0 \<le> (now - ?after) div per" using le per by (simp add: pos_imp_zdiv_nonneg_iff)
      moreover have "int (g - 1024) = int (nat ((now - ?after) div per) + 1)"
        using left le by (simp only: grid_points_def if_True)
      ultimately show ?thesis by simp
    qed
    have "?after + per * ((now - ?after) div per + 1) = ?nx + int g * per"
      unfolding sk using True by (simp add: algebra_simps of_nat_diff)
    moreover have "(of_int ((now - ?after) div per + 1) :: u64) = of_nat (g - 1024)"
      unfolding sk by simp
    ultimately show ?thesis
      using assms(2,3) True le loop
      by (simp add: release_due_def Let_def maximum_catch_up_def flip: per_def)
  next
    case False
    have "\<not> (length (map (\<lambda>k. ?nx + int k * per) [0..<min 1024 g]) = maximum_catch_up \<and>
        ?nx + int (min 1024 g) * per \<le> now)"
      using False grid_points_beyond [OF per, of now ?nx]
      by (auto simp: maximum_catch_up_def min_def g_def)
    with assms(2,3) False loop show ?thesis
      by (auto simp add: release_due_def Let_def maximum_catch_up_def simp flip: per_def)
  qed
qed


subsection \<open>The dispatch order\<close>

lemma not_after_trans:
  "\<not> HigherPriorityFirst a b \<Longrightarrow> \<not> HigherPriorityFirst b c \<Longrightarrow> \<not> HigherPriorityFirst a c"
  by (auto simp: HigherPriorityFirst_def split: if_splits)

lemma after_asym: "HigherPriorityFirst a b \<Longrightarrow> \<not> HigherPriorityFirst b a"
  by (auto simp: HigherPriorityFirst_def split: if_splits)

lemma top_job_in: "top_job best js \<in> set (best # js)"
  by (induction js arbitrary: best) auto

lemma top_job_first:
  "j \<in> set (best # js) \<Longrightarrow> \<not> HigherPriorityFirst (top_job best js) j"
proof (induction js arbitrary: best j)
  case Nil
  then show ?case by (simp add: HigherPriorityFirst_def)
next
  case (Cons x js)
  let ?b = "if HigherPriorityFirst best x then x else best"
  have b: "\<not> HigherPriorityFirst (top_job ?b js) ?b" using Cons.IH [of ?b ?b] by simp
  have "\<not> HigherPriorityFirst ?b best" "\<not> HigherPriorityFirst ?b x"
    using after_asym by (auto simp: HigherPriorityFirst_def split: if_splits)
  with b have "\<not> HigherPriorityFirst (top_job ?b js) best" "\<not> HigherPriorityFirst (top_job ?b js) x"
    using not_after_trans by blast+
  with Cons.IH [of j ?b] Cons.prems show ?case by auto
qed

lemma pop_job_Some:
  assumes "pop_job q = Some (j, rest)"
  shows "j \<in> set q" "rest = remove1 j q" "x \<in> set q \<Longrightarrow> \<not> HigherPriorityFirst j x"
  using assms top_job_in top_job_first by (fastforce simp: pop_job_def Let_def split: list.splits)+

lemma pop_job_None: "pop_job q = None \<longleftrightarrow> q = []"
  by (simp add: pop_job_def Let_def split: list.splits)

end
