(* ===== verification/Executor_System.thy ===== *)
theory Executor_System
  imports Executor
begin

text \<open>
  The executor with all its threads: the step relation \<open>ex_step\<close> interleaves the sections of
  \<open>Enqueue\<close>, of the workers, of the scheduler thread and of the public operations, each under its
  lock. The invariant \<open>ex_inv\<close> accounts for every job between its admission and the end of its
  callback.
\<close>

subsection \<open>The system of all threads\<close>

text \<open>Besides the executor: the enqueue calls that hold a sequence number but have not been admitted
  by their task, those admitted but not yet in a group queue, the jobs a worker took (with the
  group's stopping flag it saw) and the callbacks that are running.\<close>

record ExSystem =
  es_ex :: Executor
  es_reserved :: "Job list"
  es_admitted :: "Job list"
  es_taken :: "(Job \<times> bool) list"
  es_running :: "Job list"

definition task_of :: "ExSystem \<Rightarrow> u64 \<Rightarrow> TaskState option" where
  "task_of s i = map_of (ex_tasks (es_ex s)) i"

definition group_of :: "ExSystem \<Rightarrow> u64 \<Rightarrow> CallbackGroup option" where
  "group_of s i = map_of (ex_groups (es_ex s)) i"

inductive ex_step :: "ExSystem \<Rightarrow> ExSystem \<Rightarrow> bool" where
  enqueue_reserves:
    "task_of s i = Some tk \<Longrightarrow> Enqueue_reserve (tk_config tk) (es_ex s) = (Inr seq, ex) \<Longrightarrow>
     ex_step s (s\<lparr>es_ex := ex, es_reserved := \<lparr>job_task = i, job_config = tk_config tk,
       job_release_time = release, job_enqueued_at = now, job_sequence = seq\<rparr> # es_reserved s\<rparr>)"
| enqueue_admits:
    "j \<in> set (es_reserved s) \<Longrightarrow> task_of s (job_task j) = Some tk \<Longrightarrow> Enqueue_admit tk = (st, tk') \<Longrightarrow>
     ex_step s (s\<lparr>es_ex := put_task (job_task j) tk' (es_ex s),
       es_reserved := remove1 j (es_reserved s),
       es_admitted := (if ok st then j # es_admitted s else es_admitted s)\<rparr>)"
| enqueue_pushes:
    "j \<in> set (es_admitted s) \<Longrightarrow> task_of s (job_task j) = Some tk \<Longrightarrow>
     group_of s (callback_group (job_config j)) = Some g \<Longrightarrow> Enqueue_push j g tk = (st, g', tk') \<Longrightarrow>
     ex_step s (s\<lparr>es_ex := put_group (callback_group (job_config j)) g'
       (put_task (job_task j) tk' (es_ex s)), es_admitted := remove1 j (es_admitted s)\<rparr>)"
| worker_takes:
    "group_of s k = Some g \<Longrightarrow> worker_wake g = WorkerJob j stopping g' \<Longrightarrow>
     ex_step s (s\<lparr>es_ex := put_group k g' (es_ex s), es_taken := (j, stopping) # es_taken s\<rparr>)"
| worker_dispatches:
    "(j, stopping) \<in> set (es_taken s) \<Longrightarrow> task_of s (job_task j) = Some tk \<Longrightarrow>
     worker_dispatch j stopping now tk = (d, tk') \<Longrightarrow>
     ex_step s (s\<lparr>es_ex := put_task (job_task j) tk' (es_ex s),
       es_taken := remove1 (j, stopping) (es_taken s),
       es_running := (if d = Execute then j # es_running s else es_running s)\<rparr>)"
| worker_finishes:
    "j \<in> set (es_running s) \<Longrightarrow> task_of s (job_task j) = Some tk \<Longrightarrow>
     worker_finish j start fin failed tk = (event, degrade, tk') \<Longrightarrow>
     ex_step s (s\<lparr>es_ex := (put_task (job_task j) tk' (es_ex s))
       \<lparr>ex_degraded := (ex_degraded (es_ex s) \<or> degrade)\<rparr>,
       es_running := remove1 j (es_running s)\<rparr>)"
| handler_invoked:
    "task_of s i = Some tk \<Longrightarrow>
     ex_step s (s\<lparr>es_ex := put_task i (InvokeDeadlineHandler (ex_has_handler (es_ex s)) threw tk)
       (es_ex s)\<rparr>)"
| scheduler_releases:
    "scheduler_turn now1 now (es_ex s) = SchedulerRelease due ex \<Longrightarrow> ex_step s (s\<lparr>es_ex := ex\<rparr>)"
| creates_group:
    "CreateCallbackGroup scheduling config (es_ex s) = (res, ex) \<Longrightarrow> ex_step s (s\<lparr>es_ex := ex\<rparr>)"
| adds_task:
    "AddTask_register config has_callback now (es_ex s) = (res, ex) \<Longrightarrow> ex_step s (s\<lparr>es_ex := ex\<rparr>)"
| starts:
    "Start_begin scheduling now (es_ex s) = (st, ex) \<Longrightarrow> ex_step s (s\<lparr>es_ex := ex\<rparr>)"
| cancels: "Cancel i (es_ex s) = (st, ex) \<Longrightarrow> ex_step s (s\<lparr>es_ex := ex\<rparr>)"
| acknowledges: "AcknowledgeDegraded (es_ex s) = (st, ex) \<Longrightarrow> ex_step s (s\<lparr>es_ex := ex\<rparr>)"
| stops: "Stop_begin (es_ex s) = (proceed, ex) \<Longrightarrow> ex_step s (s\<lparr>es_ex := ex\<rparr>)"
| stops_task:
    "ex_stopping (es_ex s) \<Longrightarrow> task_of s i = Some tk \<Longrightarrow>
     ex_step s (s\<lparr>es_ex := put_task i (stop_task tk) (es_ex s)\<rparr>)"
| stops_group:
    "ex_stopping (es_ex s) \<Longrightarrow> group_of s k = Some g \<Longrightarrow>
     ex_step s (s\<lparr>es_ex := put_group k (stop_group g) (es_ex s)\<rparr>)"

definition ex_init :: "ExSystem \<Rightarrow> bool" where
  "ex_init s \<longleftrightarrow> (\<exists>thread handler. es_ex s = Executor_new thread handler) \<and>
     es_reserved s = [] \<and> es_admitted s = [] \<and> es_taken s = [] \<and> es_running s = []"


subsection \<open>Invariant\<close>

definition jobs_of :: "u64 \<Rightarrow> Job list \<Rightarrow> nat" where
  "jobs_of i js = length (filter (\<lambda>j. job_task j = i) js)"

lemma jobs_of_simps [simp]:
  "jobs_of i [] = 0" "jobs_of i (j # js) = (if job_task j = i then 1 else 0) + jobs_of i js"
  "jobs_of i (js @ ks) = jobs_of i js + jobs_of i ks"
  by (simp_all add: jobs_of_def)

lemma jobs_of_remove1:
  "j \<in> set js \<Longrightarrow> jobs_of i js = (if job_task j = i then 1 else 0) + jobs_of i (remove1 j js)"
  by (induction js) auto

text \<open>The counters of a task: how many of its jobs are on their way to a worker, how many callbacks
  run, and what happened to its deadlines.\<close>

definition stats_ok :: "TaskStats \<Rightarrow> nat \<Rightarrow> bool" where
  "stats_ok st running \<longleftrightarrow>
     deadline_misses st = deadline_warnings st + deadline_degrades st + deadline_drops st \<and>
     started st = finished st + of_nat running \<and> length (samples st) \<le> maximum_samples"

definition task_ok ::
    "(u64 \<rightharpoonup> CallbackGroup) \<Rightarrow> Job list \<Rightarrow> Job list \<Rightarrow> Job list \<Rightarrow> u64 \<Rightarrow> TaskState \<Rightarrow> bool" where
  "task_ok groups admitted taken running i tk \<longleftrightarrow>
     task_config_valid (tk_config tk) \<and>
     (\<exists>g. groups (callback_group (tk_config tk)) = Some g \<and>
        tk_queued tk = jobs_of i (cg_queue g) + jobs_of i admitted + jobs_of i taken) \<and>
     tk_queued tk \<le> queue_capacity (tk_config tk) \<and>
     stats_ok (tk_stats tk) (jobs_of i running)"

definition job_known :: "(u64 \<rightharpoonup> TaskState) \<Rightarrow> Job \<Rightarrow> bool" where
  "job_known tasks j \<longleftrightarrow> (\<exists>tk. tasks (job_task j) = Some tk \<and> tk_config tk = job_config j)"

definition group_ok :: "(u64 \<rightharpoonup> TaskState) \<Rightarrow> u64 \<Rightarrow> CallbackGroup \<Rightarrow> bool" where
  "group_ok tasks k g \<longleftrightarrow>
     length (cg_queue g) \<le> group_queue_capacity (cg_config g) \<and>
     (\<forall>j \<in> set (cg_queue g). job_known tasks j \<and> callback_group (job_config j) = k)"

definition parts_ok ::
    "(u64 \<rightharpoonup> TaskState) \<Rightarrow> (u64 \<rightharpoonup> CallbackGroup) \<Rightarrow> Job list \<Rightarrow> Job list \<Rightarrow> Job list \<Rightarrow> Job list \<Rightarrow> bool" where
  "parts_ok tasks groups reserved admitted taken running \<longleftrightarrow>
     (\<forall>i tk. tasks i = Some tk \<longrightarrow> task_ok groups admitted taken running i tk) \<and>
     (\<forall>k g. groups k = Some g \<longrightarrow> group_ok tasks k g) \<and>
     (\<forall>j \<in> set (reserved @ admitted @ taken @ running). job_known tasks j)"

definition ex_inv :: "ExSystem \<Rightarrow> bool" where
  "ex_inv s \<longleftrightarrow> parts_ok (task_of s) (group_of s) (es_reserved s) (es_admitted s)
     (map fst (es_taken s)) (es_running s)"

lemma ex_init_inv: "ex_init s \<Longrightarrow> ex_inv s"
  by (auto simp: ex_init_def ex_inv_def parts_ok_def task_of_def group_of_def Executor_new_def)

lemma job_known_update:
  "tasks i = Some tk \<Longrightarrow> tk_config tk' = tk_config tk \<Longrightarrow>
     job_known (tasks(i \<mapsto> tk')) j = job_known tasks j"
  by (auto simp: job_known_def)

lemma group_ok_update:
  "tasks i = Some tk \<Longrightarrow> tk_config tk' = tk_config tk \<Longrightarrow>
     group_ok (tasks(i \<mapsto> tk')) k g = group_ok tasks k g"
  by (simp add: group_ok_def job_known_update)

text \<open>A change of one task and of the jobs in flight: the other tasks keep their counts.\<close>

lemma parts_ok_task:
  assumes "parts_ok tasks groups reserved admitted taken running"
    and "tasks i = Some tk" "tk_config tk' = tk_config tk"
    and "task_ok groups admitted taken running i tk \<Longrightarrow> task_ok groups admitted' taken' running' i tk'"
    and "\<And>k. k \<noteq> i \<Longrightarrow> jobs_of k admitted' = jobs_of k admitted \<and>
      jobs_of k taken' = jobs_of k taken \<and> jobs_of k running' = jobs_of k running"
    and "set (reserved' @ admitted' @ taken' @ running') \<subseteq>
      set (reserved @ admitted @ taken @ running)"
  shows "parts_ok (tasks(i \<mapsto> tk')) groups reserved' admitted' taken' running'"
proof -
  have "task_ok groups admitted' taken' running' k tk''"
    if "k \<noteq> i" "tasks k = Some tk''" for k tk''
    using assms(1) assms(5) [OF that(1)] that(2) by (simp add: parts_ok_def task_ok_def)
  then show ?thesis
    using assms(1-4,6)
    by (auto simp: parts_ok_def job_known_update [of tasks i tk tk', OF assms(2,3)]
        group_ok_update [of tasks i tk tk', OF assms(2,3)])
qed

text \<open>A change of one group's queue.\<close>

lemma parts_ok_group:
  assumes "parts_ok tasks groups reserved admitted taken running"
    and "groups k = Some g" "cg_config g' = cg_config g"
    and "length (cg_queue g') \<le> group_queue_capacity (cg_config g)"
    and "\<And>j. j \<in> set (cg_queue g') \<Longrightarrow> job_known tasks j \<and> callback_group (job_config j) = k"
    and "\<And>i tk. tasks i = Some tk \<Longrightarrow> callback_group (tk_config tk) = k \<Longrightarrow>
      jobs_of i (cg_queue g') + jobs_of i admitted' + jobs_of i taken' =
      jobs_of i (cg_queue g) + jobs_of i admitted + jobs_of i taken"
    and "\<And>i tk. tasks i = Some tk \<Longrightarrow> callback_group (tk_config tk) \<noteq> k \<Longrightarrow>
      jobs_of i admitted' = jobs_of i admitted \<and> jobs_of i taken' = jobs_of i taken"
    and "\<And>j. j \<in> set (reserved @ admitted' @ taken' @ running) \<Longrightarrow> job_known tasks j"
  shows "parts_ok tasks (groups(k \<mapsto> g')) reserved admitted' taken' running"
proof -
  have "task_ok (groups(k \<mapsto> g')) admitted' taken' running i tk" if "tasks i = Some tk" for i tk
  proof -
    have "task_ok groups admitted taken running i tk"
      using assms(1) that by (simp add: parts_ok_def)
    then show ?thesis
      using assms(2) assms(6,7) [OF that]
      by (cases "callback_group (tk_config tk) = k") (auto simp: task_ok_def)
  qed
  then show ?thesis
    using assms(1,3,4,5,8) by (auto simp: parts_ok_def group_ok_def)
qed

text \<open>A change of all tasks or groups at once that keeps what the invariant looks at.\<close>

lemma parts_ok_map:
  assumes "parts_ok tasks groups reserved admitted taken running"
    and "\<And>tk. tk_config (f tk) = tk_config tk \<and> tk_queued (f tk) = tk_queued tk"
    and "\<And>tk n. stats_ok (tk_stats tk) n \<Longrightarrow> stats_ok (tk_stats (f tk)) n"
    and "\<And>g. cg_config (h g) = cg_config g \<and> cg_queue (h g) = cg_queue g"
  shows "parts_ok (map_option f \<circ> tasks) (map_option h \<circ> groups) reserved admitted taken running"
proof -
  have known: "job_known (map_option f \<circ> tasks) j = job_known tasks j" for j
    using assms(2) by (auto simp: job_known_def)
  have "task_ok (map_option h \<circ> groups) admitted taken running i (f tk)"
    if "task_ok groups admitted taken running i tk" for i tk
    using that assms(2-4) by (auto simp: task_ok_def)
  then show ?thesis
    using assms(1,4) by (auto simp: parts_ok_def group_ok_def known)
qed


subsection \<open>Every step keeps the invariant\<close>

lemma task_of_put [simp]:
  "map_of (ex_tasks (put_task i tk ex)) = (map_of (ex_tasks ex))(i \<mapsto> tk)"
  "map_of (ex_groups (put_task i tk ex)) = map_of (ex_groups ex)"
  "map_of (ex_tasks (put_group k g ex)) = map_of (ex_tasks ex)"
  "map_of (ex_groups (put_group k g ex)) = (map_of (ex_groups ex))(k \<mapsto> g)"
  by (simp_all add: put_task_def put_group_def update_conv')

lemma task_of_eq: "task_of s = map_of (ex_tasks (es_ex s))"
  by (simp add: task_of_def fun_eq_iff)

lemma group_of_eq: "group_of s = map_of (ex_groups (es_ex s))"
  by (simp add: group_of_def fun_eq_iff)

lemma stats_ok_AppendSample [simp]:
  "stats_ok (AppendSample sample st) n \<longleftrightarrow> stats_ok st n" if "length (samples st) \<le> maximum_samples"
  using that by (auto simp: stats_ok_def AppendSample_def Let_def maximum_samples_def)

lemma jobs_of_taken:
  "(j, b) \<in> set js \<Longrightarrow> jobs_of i (map fst js) =
     (if job_task j = i then 1 else 0) + jobs_of i (map fst (remove1 (j, b) js))"
  by (induction js) auto

lemma Enqueue_admit_ok:
  assumes "Enqueue_admit tk = (st, tk')"
  shows "tk_config tk' = tk_config tk"
    "ok st \<Longrightarrow> tk_queued tk' = tk_queued tk + 1 \<and> tk_queued tk < queue_capacity (tk_config tk)"
    "\<not> ok st \<Longrightarrow> tk_queued tk' = tk_queued tk"
    "stats_ok (tk_stats tk') n = stats_ok (tk_stats tk) n"
  using assms by (auto simp: Enqueue_admit_def Let_def stats_ok_def split: if_splits)

lemma ex_inv_admit:
  assumes "ex_inv s" "j \<in> set (es_reserved s)" "task_of s (job_task j) = Some tk"
    and "Enqueue_admit tk = (st, tk')"
  shows "ex_inv (s\<lparr>es_ex := put_task (job_task j) tk' (es_ex s),
    es_reserved := remove1 j (es_reserved s),
    es_admitted := (if ok st then j # es_admitted s else es_admitted s)\<rparr>)"
proof -
  note a = Enqueue_admit_ok [OF assms(4)]
  let ?adm = "if ok st then j # es_admitted s else es_admitted s"
  have "parts_ok ((task_of s)(job_task j \<mapsto> tk')) (group_of s) (remove1 j (es_reserved s)) ?adm
      (map fst (es_taken s)) (es_running s)"
  proof (rule parts_ok_task [OF assms(1) [unfolded ex_inv_def] assms(3) a(1)])
    assume "task_ok (group_of s) (es_admitted s) (map fst (es_taken s)) (es_running s) (job_task j) tk"
    then show "task_ok (group_of s) ?adm (map fst (es_taken s)) (es_running s) (job_task j) tk'"
      using a by (cases "ok st") (auto simp: task_ok_def)
  qed (use assms(2) in \<open>auto dest: set_remove1_subset [THEN subsetD]\<close>)
  then show ?thesis by (simp add: ex_inv_def task_of_eq group_of_eq)
qed

lemma Enqueue_push_cases:
  assumes "Enqueue_push j g tk = (st, g', tk')"
  obtains (pushed) "tk' = tk" "g' = g\<lparr>cg_queue := cg_queue g @ [j]\<rparr>"
      "length (cg_queue g) < group_queue_capacity (cg_config g)"
  | (refused) "g' = g" "tk_config tk' = tk_config tk" "tk_queued tk' = tk_queued tk - 1"
      "\<And>n. stats_ok (tk_stats tk') n = stats_ok (tk_stats tk) n"
  using assms by (auto simp: Enqueue_push_def stats_ok_def split: if_splits)

lemma ex_inv_push:
  assumes "ex_inv s" "j \<in> set (es_admitted s)" "task_of s (job_task j) = Some tk"
    and "group_of s (callback_group (job_config j)) = Some g" "Enqueue_push j g tk = (st, g', tk')"
  shows "ex_inv (s\<lparr>es_ex := put_group (callback_group (job_config j)) g'
    (put_task (job_task j) tk' (es_ex s)), es_admitted := remove1 j (es_admitted s)\<rparr>)"
proof -
  let ?k = "callback_group (job_config j)"
  note inv = assms(1) [unfolded ex_inv_def]
  have known: "job_known (task_of s) j" using inv assms(2) by (auto simp: parts_ok_def)
  note cnt = jobs_of_remove1 [OF assms(2)]
  have "parts_ok ((task_of s)(job_task j \<mapsto> tk')) ((group_of s)(?k \<mapsto> g')) (es_reserved s)
      (remove1 j (es_admitted s)) (map fst (es_taken s)) (es_running s)"
    using assms(5)
  proof (cases rule: Enqueue_push_cases)
    case pushed
    have "parts_ok (task_of s) ((group_of s)(?k \<mapsto> g')) (es_reserved s)
        (remove1 j (es_admitted s)) (map fst (es_taken s)) (es_running s)"
    proof (rule parts_ok_group [OF inv assms(4)])
      fix x assume "x \<in> set (cg_queue g')"
      then show "job_known (task_of s) x \<and> callback_group (job_config x) = ?k"
        using inv assms(4) known pushed(2) by (auto simp: parts_ok_def group_ok_def)
    next
      fix i tk0 assume "task_of s i = Some tk0" "callback_group (tk_config tk0) \<noteq> ?k"
      then show "jobs_of i (remove1 j (es_admitted s)) = jobs_of i (es_admitted s) \<and>
          jobs_of i (map fst (es_taken s)) = jobs_of i (map fst (es_taken s))"
        using known cnt [of i] by (auto simp: job_known_def)
    next
      fix x assume "x \<in> set (es_reserved s @ remove1 j (es_admitted s) @ map fst (es_taken s) @ es_running s)"
      then show "job_known (task_of s) x"
        using inv by (auto simp: parts_ok_def dest: set_remove1_subset [THEN subsetD])
    qed (use pushed cnt in auto)
    moreover have "(task_of s)(job_task j \<mapsto> tk') = task_of s"
      using assms(3) pushed(1) by auto
    ultimately show ?thesis by simp
  next
    case refused
    have same: "(group_of s)(?k \<mapsto> g') = group_of s" using assms(4) refused(1) by auto
    show ?thesis
      unfolding same
    proof (rule parts_ok_task [OF inv assms(3) refused(2)])
      assume "task_ok (group_of s) (es_admitted s) (map fst (es_taken s)) (es_running s) (job_task j) tk"
      then show "task_ok (group_of s) (remove1 j (es_admitted s)) (map fst (es_taken s)) (es_running s)
          (job_task j) tk'"
        using refused(2-4) cnt [of "job_task j"] by (auto simp: task_ok_def)
    qed (use cnt in \<open>auto dest: set_remove1_subset [THEN subsetD]\<close>)
  qed
  then show ?thesis by (simp add: ex_inv_def task_of_eq group_of_eq)
qed

lemma ex_inv_take:
  assumes "ex_inv s" "group_of s k = Some g" "worker_wake g = WorkerJob j stopping g'"
  shows "ex_inv (s\<lparr>es_ex := put_group k g' (es_ex s), es_taken := (j, stopping) # es_taken s\<rparr>)"
proof -
  note inv = assms(1) [unfolded ex_inv_def]
  obtain rest where p: "pop_job (cg_queue g) = Some (j, rest)" and g': "g' = g\<lparr>cg_queue := rest\<rparr>"
    using assms(3) by (auto simp: worker_wake_def split: option.splits if_splits)
  note q = pop_job_Some(1,2) [OF p]
  note cnt = jobs_of_remove1 [OF q(1)]
  have gk: "group_ok (task_of s) k g" using inv assms(2) by (simp add: parts_ok_def)
  then have kj: "job_known (task_of s) j" "callback_group (job_config j) = k"
    using q(1) by (auto simp: group_ok_def)
  have "parts_ok (task_of s) ((group_of s)(k \<mapsto> g')) (es_reserved s) (es_admitted s)
      (j # map fst (es_taken s)) (es_running s)"
  proof (rule parts_ok_group [OF inv assms(2)])
    show "length (cg_queue g') \<le> group_queue_capacity (cg_config g)"
      using gk by (auto simp: g' q(2) group_ok_def length_remove1)
  next
    fix x assume "x \<in> set (cg_queue g')"
    then show "job_known (task_of s) x \<and> callback_group (job_config x) = k"
      using gk by (auto simp: g' q(2) group_ok_def dest: set_remove1_subset [THEN subsetD])
  next
    fix i tk assume "task_of s i = Some tk" "callback_group (tk_config tk) \<noteq> k"
    then show "jobs_of i (es_admitted s) = jobs_of i (es_admitted s) \<and>
        jobs_of i (j # map fst (es_taken s)) = jobs_of i (map fst (es_taken s))"
      using kj by (auto simp: job_known_def)
  next
    fix x assume "x \<in> set (es_reserved s @ es_admitted s @ (j # map fst (es_taken s)) @ es_running s)"
    then show "job_known (task_of s) x" using inv kj(1) by (auto simp: parts_ok_def)
  qed (use cnt in \<open>auto simp: g' q(2)\<close>)
  then show ?thesis by (simp add: ex_inv_def task_of_eq group_of_eq)
qed


lemma worker_dispatch_task:
  assumes "worker_dispatch j stopping now tk = (d, tk')"
  shows "tk_config tk' = tk_config tk" "tk_queued tk' = tk_queued tk - 1"
    "stats_ok (tk_stats tk) n \<Longrightarrow> stats_ok (tk_stats tk') (if d = Execute then Suc n else n)"
proof -
  let ?tk = "if tk_queued tk > 0 then tk\<lparr>tk_queued := tk_queued tk - 1\<rparr> else tk"
  have tk: "tk_config ?tk = tk_config tk" "tk_queued ?tk = tk_queued tk - 1"
    "tk_stats ?tk = tk_stats tk" by simp_all
  show "tk_config tk' = tk_config tk" "tk_queued tk' = tk_queued tk - 1"
    using assms by (auto simp: worker_dispatch_def Let_def tk split: if_splits)
  assume st: "stats_ok (tk_stats tk) n"
  then have len: "length (samples (tk_stats tk)) \<le> maximum_samples" by (simp add: stats_ok_def)
  show "stats_ok (tk_stats tk') (if d = Execute then Suc n else n)"
    using assms st len
    by (auto simp: worker_dispatch_def Let_def split: if_splits)
      (auto simp: stats_ok_def)
qed

lemma ex_inv_dispatch:
  assumes "ex_inv s" "(j, stopping) \<in> set (es_taken s)" "task_of s (job_task j) = Some tk"
    and "worker_dispatch j stopping now tk = (d, tk')"
  shows "ex_inv (s\<lparr>es_ex := put_task (job_task j) tk' (es_ex s),
    es_taken := remove1 (j, stopping) (es_taken s),
    es_running := (if d = Execute then j # es_running s else es_running s)\<rparr>)"
proof -
  note inv = assms(1) [unfolded ex_inv_def]
  note w = worker_dispatch_task [OF assms(4)]
  let ?taken = "map fst (remove1 (j, stopping) (es_taken s))"
  let ?run = "if d = Execute then j # es_running s else es_running s"
  have cnt: "jobs_of i (map fst (es_taken s)) = (if job_task j = i then 1 else 0) + jobs_of i ?taken" for i
    by (rule jobs_of_taken [OF assms(2)])
  have "parts_ok ((task_of s)(job_task j \<mapsto> tk')) (group_of s) (es_reserved s) (es_admitted s)
      ?taken ?run"
  proof (rule parts_ok_task [OF inv assms(3) w(1)])
    assume "task_ok (group_of s) (es_admitted s) (map fst (es_taken s)) (es_running s) (job_task j) tk"
    then show "task_ok (group_of s) (es_admitted s) ?taken ?run (job_task j) tk'"
      using w cnt [of "job_task j"] w(3) [of "jobs_of (job_task j) (es_running s)"]
      by (auto simp: task_ok_def)
  next
    fix k assume "k \<noteq> job_task j"
    then show "jobs_of k (es_admitted s) = jobs_of k (es_admitted s) \<and>
        jobs_of k ?taken = jobs_of k (map fst (es_taken s)) \<and> jobs_of k ?run = jobs_of k (es_running s)"
      using cnt [of k] by auto
  next
    have "j \<in> set (map fst (es_taken s))" using assms(2) by force
    moreover have "set ?taken \<subseteq> set (map fst (es_taken s))"
      using set_remove1_subset by fastforce
    ultimately show "set (es_reserved s @ es_admitted s @ ?taken @ ?run) \<subseteq>
        set (es_reserved s @ es_admitted s @ map fst (es_taken s) @ es_running s)"
      by (simp split: if_splits) blast+
  qed
  then show ?thesis by (simp add: ex_inv_def task_of_eq group_of_eq)
qed

lemma worker_finish_task:
  assumes "worker_finish j start fin failed tk = (event, degrade, tk')"
  shows "tk_config tk' = tk_config tk" "tk_queued tk' = tk_queued tk"
    "stats_ok (tk_stats tk) (Suc n) \<Longrightarrow> stats_ok (tk_stats tk') n"
proof -
  show "tk_config tk' = tk_config tk" "tk_queued tk' = tk_queued tk"
    using assms by (auto simp: worker_finish_def Let_def split: if_splits)
  assume st: "stats_ok (tk_stats tk) (Suc n)"
  then have len: "length (samples (tk_stats tk)) \<le> maximum_samples" by (simp add: stats_ok_def)
  show "stats_ok (tk_stats tk') n"
    using assms st len
    by (cases "deadline_policy (tk_config tk)")
      (auto simp: worker_finish_def Let_def split: if_splits, auto simp: stats_ok_def ac_simps)
qed

lemma ex_inv_finish:
  assumes "ex_inv s" "j \<in> set (es_running s)" "task_of s (job_task j) = Some tk"
    and "worker_finish j start fin failed tk = (event, degrade, tk')"
  shows "ex_inv (s\<lparr>es_ex := (put_task (job_task j) tk' (es_ex s))
       \<lparr>ex_degraded := (ex_degraded (es_ex s) \<or> degrade)\<rparr>,
       es_running := remove1 j (es_running s)\<rparr>)"
proof -
  note inv = assms(1) [unfolded ex_inv_def]
  note w = worker_finish_task [OF assms(4)]
  note cnt = jobs_of_remove1 [OF assms(2)]
  have "parts_ok ((task_of s)(job_task j \<mapsto> tk')) (group_of s) (es_reserved s) (es_admitted s)
      (map fst (es_taken s)) (remove1 j (es_running s))"
  proof (rule parts_ok_task [OF inv assms(3) w(1)])
    assume "task_ok (group_of s) (es_admitted s) (map fst (es_taken s)) (es_running s) (job_task j) tk"
    then show "task_ok (group_of s) (es_admitted s) (map fst (es_taken s)) (remove1 j (es_running s))
        (job_task j) tk'"
      using w(1,2) w(3) [of "jobs_of (job_task j) (remove1 j (es_running s))"] cnt [of "job_task j"]
      by (auto simp: task_ok_def)
  qed (use cnt in \<open>auto dest: set_remove1_subset [THEN subsetD]\<close>)
  then show ?thesis by (simp add: ex_inv_def task_of_eq group_of_eq)
qed

lemma ex_inv_reserve:
  assumes "ex_inv s" "task_of s i = Some tk" "Enqueue_reserve (tk_config tk) (es_ex s) = (Inr seq, ex)"
  shows "ex_inv (s\<lparr>es_ex := ex, es_reserved := \<lparr>job_task = i, job_config = tk_config tk,
       job_release_time = release, job_enqueued_at = now, job_sequence = seq\<rparr> # es_reserved s\<rparr>)"
proof -
  have "ex_tasks ex = ex_tasks (es_ex s)" "ex_groups ex = ex_groups (es_ex s)"
    using assms(3) by (auto simp: Enqueue_reserve_def split: if_splits option.splits)
  with assms(1,2) show ?thesis
    by (auto simp: ex_inv_def parts_ok_def task_of_def group_of_def task_ok_def group_ok_def job_known_def
        cong: option.case_cong)
qed

lemma ex_inv_same_tables:
  "ex_inv s \<Longrightarrow> map_of (ex_tasks ex) = map_of (ex_tasks (es_ex s)) \<Longrightarrow>
   map_of (ex_groups ex) = map_of (ex_groups (es_ex s)) \<Longrightarrow> ex_inv (s\<lparr>es_ex := ex\<rparr>)"
  by (simp add: ex_inv_def task_of_eq group_of_eq)

lemma ex_inv_task_neutral:
  assumes "ex_inv s" "task_of s i = Some tk" "tk_config tk' = tk_config tk" "tk_queued tk' = tk_queued tk"
    and "\<And>n. stats_ok (tk_stats tk) n \<Longrightarrow> stats_ok (tk_stats tk') n"
    and "map_of (ex_tasks ex) = (map_of (ex_tasks (es_ex s)))(i \<mapsto> tk')"
    and "map_of (ex_groups ex) = map_of (ex_groups (es_ex s))"
  shows "ex_inv (s\<lparr>es_ex := ex\<rparr>)"
proof -
  have "parts_ok ((task_of s)(i \<mapsto> tk')) (group_of s) (es_reserved s) (es_admitted s)
      (map fst (es_taken s)) (es_running s)"
    by (rule parts_ok_task [OF assms(1) [unfolded ex_inv_def] assms(2,3)])
      (use assms(3-5) in \<open>auto simp: task_ok_def\<close>)
  then show ?thesis using assms(6,7) by (simp add: ex_inv_def task_of_eq group_of_eq)
qed

lemma ex_inv_map:
  assumes "ex_inv s"
    and "map_of (ex_tasks ex) = map_option f \<circ> map_of (ex_tasks (es_ex s))"
    and "map_of (ex_groups ex) = map_option h \<circ> map_of (ex_groups (es_ex s))"
    and "\<And>tk. tk_config (f tk) = tk_config tk \<and> tk_queued (f tk) = tk_queued tk"
    and "\<And>tk n. stats_ok (tk_stats tk) n \<Longrightarrow> stats_ok (tk_stats (f tk)) n"
    and "\<And>g. cg_config (h g) = cg_config g \<and> cg_queue (h g) = cg_queue g"
  shows "ex_inv (s\<lparr>es_ex := ex\<rparr>)"
  using parts_ok_map [OF assms(1) [unfolded ex_inv_def] assms(4-6)] assms(2,3)
  by (simp add: ex_inv_def task_of_eq group_of_eq)

lemma map_of_map_values: "map_of (map_values f al) = map_option f \<circ> map_of al"
  by (induction al) (auto simp: map_values_def fun_eq_iff)

lemma map_of_release_all:
  "map_of (snd (release_all now tks)) = map_option (\<lambda>tk. snd (release_due now tk)) \<circ> map_of tks"
  by (induction tks) (auto simp: fun_eq_iff split: prod.splits)

lemma map_option_id: "map_option (\<lambda>x. x) \<circ> m = m"
  by (simp add: fun_eq_iff option.map_ident)

lemma release_due_task:
  "tk_config (snd (release_due now tk)) = tk_config tk"
  "tk_queued (snd (release_due now tk)) = tk_queued tk"
  "stats_ok (tk_stats (snd (release_due now tk))) n = stats_ok (tk_stats tk) n"
  by (auto simp: release_due_def Let_def stats_ok_def split: prod.splits)

lemma ex_inv_scheduler:
  assumes "ex_inv s" "scheduler_turn now1 now (es_ex s) = SchedulerRelease due ex"
  shows "ex_inv (s\<lparr>es_ex := ex\<rparr>)"
proof -
  have ex: "ex = (es_ex s)\<lparr>ex_tasks := snd (release_all now (ex_tasks (es_ex s)))\<rparr>"
    using assms(2) by (auto simp: scheduler_turn_def Let_def split: if_splits prod.splits)
  show ?thesis
    by (rule ex_inv_map [OF assms(1), of _ "\<lambda>tk. snd (release_due now tk)" "\<lambda>g. g"])
      (simp_all add: ex map_of_release_all map_option_id release_due_task)
qed

lemma ex_inv_stop:
  assumes "ex_inv s" "Stop_begin (es_ex s) = (proceed, ex)"
  shows "ex_inv (s\<lparr>es_ex := ex\<rparr>)"
  by (rule ex_inv_same_tables [OF assms(1)])
    (use assms(2) in \<open>auto simp: Stop_begin_def split: if_splits\<close>)

lemma ex_inv_stop_task:
  assumes "ex_inv s" "task_of s i = Some tk"
  shows "ex_inv (s\<lparr>es_ex := put_task i (stop_task tk) (es_ex s)\<rparr>)"
  by (rule ex_inv_task_neutral [OF assms]) (simp_all add: stop_task_def)

lemma ex_inv_stop_group:
  assumes "ex_inv s" "group_of s k = Some g"
  shows "ex_inv (s\<lparr>es_ex := put_group k (stop_group g) (es_ex s)\<rparr>)"
proof -
  have "group_ok (task_of s) k g" using assms by (simp add: ex_inv_def parts_ok_def)
  then have "parts_ok (task_of s) ((group_of s)(k \<mapsto> stop_group g)) (es_reserved s) (es_admitted s)
      (map fst (es_taken s)) (es_running s)"
    by (intro parts_ok_group [OF assms(1) [unfolded ex_inv_def] assms(2)])
      (use assms(1) in \<open>auto simp: stop_group_def group_ok_def ex_inv_def parts_ok_def\<close>)
  then show ?thesis by (simp add: ex_inv_def task_of_eq group_of_eq)
qed

lemma ex_inv_start:
  assumes "ex_inv s" "Start_begin scheduling now (es_ex s) = (st, ex)"
  shows "ex_inv (s\<lparr>es_ex := ex\<rparr>)"
proof (cases "ex = es_ex s")
  case True
  then show ?thesis using assms(1) by simp
next
  case False
  then have "ex = (es_ex s)\<lparr>ex_running := True,
      ex_tasks := map_values (start_task now) (ex_tasks (es_ex s))\<rparr>"
    using assms(2) by (auto simp: Start_begin_def split: if_splits)
  then show ?thesis
    by (intro ex_inv_map [OF assms(1), of _ "start_task now" "\<lambda>g. g"])
      (simp_all add: map_of_map_values map_option_id start_task_def)
qed

lemma ex_inv_cancel:
  assumes "ex_inv s" "Cancel i (es_ex s) = (st, ex)"
  shows "ex_inv (s\<lparr>es_ex := ex\<rparr>)"
proof (cases "\<exists>tk. task_of s i = Some tk \<and> \<not> tk_cancelled tk")
  case True
  then obtain tk where tk: "task_of s i = Some tk" "\<not> tk_cancelled tk" by blast
  show ?thesis
    by (rule ex_inv_task_neutral [OF assms(1) tk(1), of "cancel_task tk"])
      (use assms(2) tk in \<open>auto simp: Cancel_def FindTask_def task_of_def cancel_task_def stats_ok_def\<close>)
next
  case False
  then have "ex = es_ex s"
    using assms(2) by (auto simp: Cancel_def FindTask_def task_of_def split: option.splits if_splits)
  then show ?thesis using assms(1) by simp
qed

lemma ex_inv_create_group:
  assumes "ex_inv s" "CreateCallbackGroup scheduling config (es_ex s) = (res, ex)"
  shows "ex_inv (s\<lparr>es_ex := ex\<rparr>)"
proof -
  let ?i = "ex_next_group_id (es_ex s)"
  consider "map_of (ex_groups ex) = map_of (ex_groups (es_ex s))" |
    "map_of (ex_groups ex) = (map_of (ex_groups (es_ex s)))(?i \<mapsto> new_group ?i config)"
    "group_of s ?i = None"
    using assms(2) by (auto simp: CreateCallbackGroup_def group_of_def Let_def split: if_splits)
  then show ?thesis
  proof cases
    case 1
    moreover have "ex_tasks ex = ex_tasks (es_ex s)"
      using assms(2) by (auto simp: CreateCallbackGroup_def Let_def split: if_splits)
    ultimately show ?thesis using ex_inv_same_tables [OF assms(1)] by simp
  next
    case 2
    have "ex_tasks ex = ex_tasks (es_ex s)"
      using assms(2) by (auto simp: CreateCallbackGroup_def Let_def split: if_splits)
    moreover have "parts_ok (task_of s) ((group_of s)(?i \<mapsto> new_group ?i config)) (es_reserved s)
        (es_admitted s) (map fst (es_taken s)) (es_running s)"
      using assms(1) 2(2)
      by (fastforce simp: ex_inv_def parts_ok_def task_ok_def group_ok_def new_group_def)
    ultimately show ?thesis using 2(1) by (simp add: ex_inv_def task_of_eq group_of_eq)
  qed
qed

lemma jobs_of_zero: "(\<And>j. j \<in> set js \<Longrightarrow> job_task j \<noteq> i) \<Longrightarrow> jobs_of i js = 0"
  by (induction js) auto

lemma ex_inv_add_task:
  assumes "ex_inv s" "AddTask_register config has_callback now (es_ex s) = (res, ex)"
  shows "ex_inv (s\<lparr>es_ex := ex\<rparr>)"
proof (cases "map_of (ex_tasks ex) = map_of (ex_tasks (es_ex s))")
  case True
  moreover have "ex_groups ex = ex_groups (es_ex s)"
    using assms(2) by (auto simp: AddTask_register_def Let_def split: if_splits)
  ultimately show ?thesis using ex_inv_same_tables [OF assms(1)] by simp
next
  case False
  let ?i = "ex_next_task_id (es_ex s)"
  from False assms(2) obtain nr where
    ex: "map_of (ex_tasks ex) = (map_of (ex_tasks (es_ex s)))(?i \<mapsto> new_task ?i config nr)"
      "ex_groups ex = ex_groups (es_ex s)" and fresh: "task_of s ?i = None"
    and valid: "task_config_valid config" "group_of s (callback_group config) \<noteq> None"
    by (auto simp: AddTask_register_def task_of_def group_of_def Let_def split: if_splits)
  note inv = assms(1) [unfolded ex_inv_def]
  have known: "job_known ((task_of s)(?i \<mapsto> new_task ?i config nr)) j" "job_task j \<noteq> ?i"
    if "job_known (task_of s) j" for j
    using that fresh by (auto simp: job_known_def)
  have none: "jobs_of ?i (es_admitted s) = 0" "jobs_of ?i (map fst (es_taken s)) = 0"
    "jobs_of ?i (es_running s) = 0" "\<And>k g. group_of s k = Some g \<Longrightarrow> jobs_of ?i (cg_queue g) = 0"
    using inv known(2) by (auto intro!: jobs_of_zero simp: parts_ok_def group_ok_def)
  have "task_ok (group_of s) (es_admitted s) (map fst (es_taken s)) (es_running s) ?i
      (new_task ?i config nr)"
    using valid none by (auto simp: task_ok_def new_task_def stats_ok_def new_task_stats_def)
  then have "parts_ok ((task_of s)(?i \<mapsto> new_task ?i config nr)) (group_of s) (es_reserved s)
      (es_admitted s) (map fst (es_taken s)) (es_running s)"
    using inv known(1) by (auto simp: parts_ok_def group_ok_def)
  then show ?thesis using ex by (simp add: ex_inv_def task_of_eq group_of_eq)
qed

lemma ex_step_inv: "ex_step s t \<Longrightarrow> ex_inv s \<Longrightarrow> ex_inv t"
proof (induction rule: ex_step.induct)
  case (handler_invoked s i tk threw)
  then show ?case
    by (intro ex_inv_task_neutral [OF handler_invoked(2,1),
          of "InvokeDeadlineHandler (ex_has_handler (es_ex s)) threw tk"])
      (auto simp: InvokeDeadlineHandler_def stats_ok_def)
next
  case (acknowledges s st ex)
  then show ?case
    by (intro ex_inv_same_tables) (auto simp: AcknowledgeDegraded_def)
qed (rule ex_inv_reserve ex_inv_admit ex_inv_push ex_inv_take ex_inv_dispatch ex_inv_finish
    ex_inv_scheduler ex_inv_create_group ex_inv_add_task ex_inv_start ex_inv_cancel ex_inv_stop
    ex_inv_stop_task ex_inv_stop_group; assumption)+

interpretation executor_run: step_invariant ex_init ex_step ex_inv
  by unfold_locales (auto intro: ex_init_inv ex_step_inv)

end
