(* ===== verification/Executor_Properties.thy ===== *)
theory Executor_Properties
  imports Executor_System "HOL-Library.Multiset"
begin

text \<open>
  What the executor promises: the dispatch order of the workers, the accounting of jobs and
  counters in every reachable state, that nothing starts after \<open>Stop\<close> and \<open>Cancel\<close>, the time grid
  of periodic tasks and the outcomes of a notification.
\<close>

subsection \<open>Dispatch\<close>

text \<open>A worker always takes a job that no queued job precedes: none has a higher priority, none of
  equal priority an earlier release, none of equal priority and release a smaller sequence number; it
  removes exactly that job, and it tells the job whether the group is stopping.\<close>

theorem worker_takes_first:
  assumes "worker_wake g = WorkerJob j stopping g'"
  shows "mset (cg_queue g) = add_mset j (mset (cg_queue g')) \<and> stopping = cg_stopping g \<and>
    (\<forall>x \<in> set (cg_queue g).
       (- task_priority (job_config j), job_release_time j, job_sequence j) =
       (- task_priority (job_config x), job_release_time x, job_sequence x) \<or>
       task_priority (job_config x) < task_priority (job_config j) \<or>
       task_priority (job_config x) = task_priority (job_config j) \<and>
         (job_release_time j < job_release_time x \<or>
          job_release_time j = job_release_time x \<and> job_sequence j < job_sequence x))"
proof -
  from assms obtain rest where pop: "pop_job (cg_queue g) = Some (j, rest)"
    and g': "g' = g\<lparr>cg_queue := rest\<rparr>" "stopping = cg_stopping g"
    by (auto simp: worker_wake_def split: option.splits if_splits)
  have "\<not> HigherPriorityFirst j x" if "x \<in> set (cg_queue g)" for x
    using pop_job_Some(3) [OF pop that] .
  then show ?thesis
    using pop_job_Some(1,2) [OF pop] g'
    by (fastforce simp: HigherPriorityFirst_def split: if_splits)
qed

definition demo_job :: "int \<Rightarrow> time_point \<Rightarrow> u64 \<Rightarrow> Job" where
  "demo_job prio release seq =
     \<lparr>job_task = 1, job_config = \<lparr>task_name = ''t'', kind = Event, task_priority = prio, period = 0,
        deadline = 0, queue_capacity = 4, callback_group = 1, deadline_policy = Warn\<rparr>,
      job_release_time = release, job_enqueued_at = release, job_sequence = seq\<rparr>"

definition demo_group :: CallbackGroup where
  "demo_group = \<lparr>cg_id = 1, cg_config = \<lparr>group_name = ''g'', worker_count = 1, group_queue_capacity = 8,
      thread_scheduling = \<lparr>cpu_affinity = [], policy = DefaultPolicy, sched_priority = 0\<rparr>\<rparr>,
     cg_queue = [demo_job 1 5 1, demo_job 7 9 2, demo_job 7 3 3, demo_job 7 3 4], cg_stopping = False\<rparr>"

theorem worker_takes_first_witness:
  "worker_wake demo_group = WorkerJob (demo_job 7 3 3) False
     (demo_group\<lparr>cg_queue := [demo_job 1 5 1, demo_job 7 9 2, demo_job 7 3 4]\<rparr>) \<and>
   mset (cg_queue demo_group) =
     add_mset (demo_job 7 3 3) (mset [demo_job 1 5 1, demo_job 7 9 2, demo_job 7 3 4])"
proof -
  have w: "worker_wake demo_group = WorkerJob (demo_job 7 3 3) False
     (demo_group\<lparr>cg_queue := [demo_job 1 5 1, demo_job 7 9 2, demo_job 7 3 4]\<rparr>)"
    by code_simp
  show ?thesis
    using w worker_takes_first [OF w] by simp
qed


subsection \<open>Accounting\<close>

text \<open>C4: accounting. In every reachable interleaving of clients, workers, scheduler and \<open>Stop\<close>, the
  queued counter of a task is the number of its jobs in its group's queue or between admission and
  dispatch and respects the task's capacity; started callbacks are finished or running; every
  deadline miss was warned about, degraded the runtime or dropped the job; at most 4096 samples are
  kept; and every group queue respects its capacity.\<close>

theorem executor_accounting:
  assumes "ex_init s0" "ex_step\<^sup>*\<^sup>* s0 s" "map_of (ex_tasks (es_ex s)) i = Some tk"
  shows "\<exists>g. map_of (ex_groups (es_ex s)) (callback_group (tk_config tk)) = Some g \<and>
    length (cg_queue g) \<le> group_queue_capacity (cg_config g) \<and>
    tk_queued tk = jobs_of i (cg_queue g) + jobs_of i (es_admitted s) + jobs_of i (map fst (es_taken s)) \<and>
    tk_queued tk \<le> queue_capacity (tk_config tk) \<and>
    started (tk_stats tk) = finished (tk_stats tk) + of_nat (jobs_of i (es_running s)) \<and>
    deadline_misses (tk_stats tk) = deadline_warnings (tk_stats tk) +
      deadline_degrades (tk_stats tk) + deadline_drops (tk_stats tk) \<and>
    length (samples (tk_stats tk)) \<le> 4096"
proof -
  have inv: "ex_inv s" using executor_run.reachable_inv [OF assms(1,2)] .
  then have "task_ok (group_of s) (es_admitted s) (map fst (es_taken s)) (es_running s) i tk"
    using assms(3) by (simp add: ex_inv_def parts_ok_def task_of_def)
  moreover have "group_ok (task_of s) k g" if "group_of s k = Some g" for k g
    using inv that by (simp add: ex_inv_def parts_ok_def)
  ultimately show ?thesis
    by (fastforce simp: task_ok_def stats_ok_def group_ok_def group_of_def maximum_samples_def)
qed

definition demo_scheduling :: ThreadSchedulingConfig where
  "demo_scheduling = \<lparr>cpu_affinity = [], policy = DefaultPolicy, sched_priority = 0\<rparr>"

definition demo_task :: TaskConfig where
  "demo_task = \<lparr>task_name = ''t'', kind = Event, task_priority = 1, period = 0, deadline = 10,
     queue_capacity = 2, callback_group = 1, deadline_policy = Drop\<rparr>"

text \<open>An executor with one group and one event task, started.\<close>

definition demo_executor :: Executor where
  "demo_executor =
     snd (Start_begin OkStatus 0 (snd (AddTask_register demo_task True 0
       (snd (CreateCallbackGroup OkStatus (cg_config demo_group)
         (Executor_new demo_scheduling False))))))"

definition demo_system :: "Executor \<Rightarrow> ExSystem" where
  "demo_system ex =
     \<lparr>es_ex = ex, es_reserved = [], es_admitted = [], es_taken = [], es_running = []\<rparr>"

lemma demo_executor_reachable:
  "ex_init (demo_system (Executor_new demo_scheduling False))"
  "ex_step\<^sup>*\<^sup>* (demo_system (Executor_new demo_scheduling False)) (demo_system demo_executor)"
proof -
  let ?e0 = "Executor_new demo_scheduling False"
  let ?e1 = "snd (CreateCallbackGroup OkStatus (cg_config demo_group) ?e0)"
  let ?e2 = "snd (AddTask_register demo_task True 0 ?e1)"
  have put: "(demo_system ex)\<lparr>es_ex := ex'\<rparr> = demo_system ex'" for ex ex'
    by (simp add: demo_system_def)
  have e: "es_ex (demo_system ex) = ex" for ex by (simp add: demo_system_def)
  show "ex_init (demo_system ?e0)" by (auto simp: ex_init_def demo_system_def)
  have "ex_step\<^sup>*\<^sup>* (demo_system ?e0) (demo_system ?e1)"
    using creates_group [OF surjective_pairing, where scheduling = OkStatus and config = "cg_config demo_group"
      and s = "demo_system ?e0"]
    by (intro r_into_rtranclp) (simp only: put e)
  also have "ex_step (demo_system ?e1) (demo_system ?e2)"
    using adds_task [OF surjective_pairing, where config = demo_task and has_callback = True and now = 0
      and s = "demo_system ?e1"]
    by (simp only: put e)
  also have "ex_step (demo_system ?e2) (demo_system demo_executor)"
    using starts [OF surjective_pairing, where scheduling = OkStatus and now = 0 and s = "demo_system ?e2"]
    by (simp only: put e demo_executor_def)
  finally show "ex_step\<^sup>*\<^sup>* (demo_system ?e0) (demo_system demo_executor)" .
qed


text \<open>An \<open>Enqueue\<close> without interference is one of the interleavings.\<close>

lemma Enqueue_steps:
  assumes "Enqueue i release now (es_ex s) = (st, ex')"
  shows "ex_step\<^sup>*\<^sup>* s (s\<lparr>es_ex := ex'\<rparr>)"
proof (cases "\<exists>tk seq ex1. task_of s i = Some tk \<and> Enqueue_reserve (tk_config tk) (es_ex s) = (Inr seq, ex1)")
  case False
  then have "ex' = es_ex s"
    using assms
    by (auto simp: Enqueue_def FindTask_def task_of_def Enqueue_reserve_def
        split: option.splits if_splits)
  then show ?thesis by simp
next
  case True
  then obtain tk seq ex1 where tk: "task_of s i = Some tk"
    and res: "Enqueue_reserve (tk_config tk) (es_ex s) = (Inr seq, ex1)" by blast
  let ?j = "\<lparr>job_task = i, job_config = tk_config tk, job_release_time = release,
    job_enqueued_at = now, job_sequence = seq\<rparr>"
  let ?s1 = "s\<lparr>es_ex := ex1, es_reserved := ?j # es_reserved s\<rparr>"
  obtain st1 tk1 where adm: "Enqueue_admit tk = (st1, tk1)" by fastforce
  let ?s2 = "s\<lparr>es_ex := put_task i tk1 ex1,
    es_admitted := (if ok st1 then ?j # es_admitted s else es_admitted s)\<rparr>"
  have ex1: "ex1 = (es_ex s)\<lparr>ex_next_job_sequence := ex_next_job_sequence (es_ex s) + 1\<rparr>"
    and "\<exists>g. group_of s (callback_group (tk_config tk)) = Some g"
    using res by (auto simp: Enqueue_reserve_def group_of_def split: if_splits option.splits)
  then obtain g where g: "group_of s (callback_group (tk_config tk)) = Some g" by blast
  have c1: "tk_config tk1 = tk_config tk" using Enqueue_admit_ok(1) [OF adm] .
  have "ex_step\<^sup>*\<^sup>* s ?s1" by (rule r_into_rtranclp, rule enqueue_reserves [OF tk res])
  also have "ex_step ?s1 ?s2"
    using enqueue_admits [of ?j ?s1 tk st1 tk1] tk adm
    by (cases "ok st1") (simp_all add: task_of_def ex1)
  also have "ex_step\<^sup>*\<^sup>* ?s2 (s\<lparr>es_ex := ex'\<rparr>)"
  proof (cases "ok st1")
    case False
    then have "ex' = put_task i tk1 ex1"
      using assms tk res adm by (auto simp: Enqueue_def FindTask_def task_of_def)
    with False show ?thesis by simp
  next
    case True
    obtain st2 g2 tk2 where push: "Enqueue_push ?j g tk1 = (st2, g2, tk2)"
      by (metis prod_cases3)
    have c2: "tk_config tk2 = tk_config tk1"
      using push by (cases rule: Enqueue_push_cases) simp_all
    have "ex' = put_group (callback_group (tk_config tk)) g2 (put_task i tk2 (put_task i tk1 ex1))"
      using assms tk res adm push True g c1 c2
      by (simp add: Enqueue_def FindTask_def task_of_def group_of_def ex1)
    moreover have "ex_step ?s2 (s\<lparr>es_ex := put_group (callback_group (tk_config tk)) g2
        (put_task i tk2 (put_task i tk1 ex1))\<rparr>)"
      using enqueue_pushes [of ?j ?s2 tk1 g st2 g2 tk2] True push g
      by (simp add: task_of_eq group_of_eq ex1)
    ultimately show ?thesis by blast
  qed
  finally show ?thesis .
qed


lemma demo_notified:
  "ex_step\<^sup>*\<^sup>* (demo_system (Executor_new demo_scheduling False))
     (demo_system (snd (Enqueue 1 5 6 demo_executor)))"
  using demo_executor_reachable(2)
    Enqueue_steps [OF surjective_pairing, where i = 1 and release = 5 and now = 6
      and s = "demo_system demo_executor"]
  by (simp add: demo_system_def)

theorem executor_accounting_witness:
  "\<exists>tk g. map_of (ex_tasks (snd (Enqueue 1 5 6 demo_executor))) 1 = Some tk \<and>
     map_of (ex_groups (snd (Enqueue 1 5 6 demo_executor))) 1 = Some g \<and>
     tk_queued tk = 1 \<and> jobs_of 1 (cg_queue g) = 1 \<and> started (tk_stats tk) = finished (tk_stats tk)"
proof -
  let ?ex = "snd (Enqueue 1 5 6 demo_executor)"
  have tk: "map_option (\<lambda>tk. (tk_queued tk, callback_group (tk_config tk))) (map_of (ex_tasks ?ex) 1) = Some (1, 1)"
    by code_simp
  then obtain tk where t: "map_of (ex_tasks ?ex) 1 = Some tk" "tk_queued tk = 1"
    "callback_group (tk_config tk) = 1" by auto
  show ?thesis
    using executor_accounting [OF demo_executor_reachable(1) demo_notified, of 1 tk] t
    by (auto simp: demo_system_def)
qed


subsection \<open>Stopping and cancelling\<close>

text \<open>The executor is stopping, so are all groups, and every job a worker took but has not
  dispatched was taken with the group stopping.\<close>

definition quiesced :: "ExSystem \<Rightarrow> bool" where
  "quiesced s \<longleftrightarrow> ex_stopping (es_ex s) \<and>
     (\<forall>k g. group_of s k = Some g \<longrightarrow> cg_stopping g) \<and> (\<forall>(j, stopping) \<in> set (es_taken s). stopping)"

lemma put_stopping [simp]:
  "ex_stopping (put_task i tk ex) = ex_stopping ex" "ex_stopping (put_group k g ex) = ex_stopping ex"
  by (simp_all add: put_task_def put_group_def)

lemma worker_wake_stopping:
  "worker_wake g = WorkerJob j stopping g' \<Longrightarrow> stopping = cg_stopping g \<and> cg_stopping g' = cg_stopping g"
  by (auto simp: worker_wake_def split: option.splits if_splits)

lemma dispatch_stopping: "worker_dispatch j True now tk = (d, tk') \<Longrightarrow> d \<noteq> Execute"
  by (auto simp: worker_dispatch_def Let_def split: if_splits)

lemma Enqueue_push_stopping:
  "Enqueue_push j g tk = (st, g', tk') \<Longrightarrow> cg_stopping g' = cg_stopping g"
  by (auto simp: Enqueue_push_def split: if_splits)

lemma quiesced_frame:
  assumes "quiesced s" "ex_stopping (es_ex t) = ex_stopping (es_ex s)"
    and "map_of (ex_groups (es_ex t)) = map_of (ex_groups (es_ex s))"
    and "set (es_taken t) \<subseteq> set (es_taken s)"
  shows "quiesced t"
  using assms by (auto simp: quiesced_def group_of_def)

lemma quiesced_group:
  assumes "quiesced s" "ex_stopping (es_ex t) = ex_stopping (es_ex s)"
    and "map_of (ex_groups (es_ex t)) = (map_of (ex_groups (es_ex s)))(k \<mapsto> g')" "cg_stopping g'"
    and "\<And>x. x \<in> set (es_taken t) \<Longrightarrow> x \<in> set (es_taken s) \<or> snd x"
  shows "quiesced t"
proof -
  have "cg_stopping g" if "group_of t i = Some g" for i g
    using that assms(1,3,4) by (cases "i = k") (auto simp: quiesced_def group_of_def)
  moreover have "snd x" if "x \<in> set (es_taken t)" for x
    using assms(1) assms(5) [OF that] by (auto simp: quiesced_def)
  ultimately show ?thesis using assms(1,2) by (auto simp: quiesced_def)
qed

lemma quiesced_refuses:
  assumes "quiesced s"
  shows "Enqueue_reserve config (es_ex s) \<noteq> (Inr seq, ex)"
    "scheduler_turn now1 now (es_ex s) \<noteq> SchedulerRelease due ex"
    "snd (CreateCallbackGroup scheduling group_config (es_ex s)) = es_ex s"
    "snd (AddTask_register task_config has_callback now (es_ex s)) = es_ex s"
    "snd (Start_begin scheduling now (es_ex s)) = es_ex s"
proof -
  have st: "ex_stopping (es_ex s)" using assms by (simp add: quiesced_def)
  show "Enqueue_reserve config (es_ex s) \<noteq> (Inr seq, ex)"
    "scheduler_turn now1 now (es_ex s) \<noteq> SchedulerRelease due ex"
    using st by (simp_all add: Enqueue_reserve_def scheduler_turn_def)
  show "snd (CreateCallbackGroup scheduling group_config (es_ex s)) = es_ex s"
    "snd (AddTask_register task_config has_callback now (es_ex s)) = es_ex s"
    "snd (Start_begin scheduling now (es_ex s)) = es_ex s"
    using st by (simp_all add: CreateCallbackGroup_def AddTask_register_def Start_begin_def)
qed

lemma quiesced_step:
  assumes "ex_step s t" "quiesced s"
  shows "quiesced t \<and> mset (es_running t) \<subseteq># mset (es_running s)"
  using assms(1)
proof (cases rule: ex_step.cases)
  case (enqueue_pushes j tk g st g' tk')
  have "cg_stopping g'"
    using Enqueue_push_stopping enqueue_pushes(4,5) assms(2) by (auto simp: quiesced_def)
  then have "quiesced t"
    by (intro quiesced_group [OF assms(2)]) (simp_all add: enqueue_pushes(1))
  then show ?thesis by (simp add: enqueue_pushes(1))
next
  case (worker_takes k g j stopping g')
  have "cg_stopping g'" "stopping"
    using worker_wake_stopping [OF worker_takes(3)] worker_takes(2) assms(2) by (auto simp: quiesced_def)
  then have "quiesced t"
    by (intro quiesced_group [OF assms(2), of _ k g']) (auto simp: worker_takes(1))
  then show ?thesis by (simp add: worker_takes(1))
next
  case (worker_dispatches j stopping tk now d tk')
  have "stopping" using assms(2) worker_dispatches(2) by (auto simp: quiesced_def)
  then have "d \<noteq> Execute" using dispatch_stopping worker_dispatches(4) by simp
  moreover have "quiesced t"
    by (rule quiesced_frame [OF assms(2)])
      (auto simp: worker_dispatches(1) dest: set_remove1_subset [THEN subsetD])
  ultimately show ?thesis by (simp add: worker_dispatches(1))
next
  case (worker_finishes j tk start fin failed event degrade tk')
  have "quiesced t" by (rule quiesced_frame [OF assms(2)]) (simp_all add: worker_finishes(1))
  then show ?thesis by (simp add: worker_finishes(1) diff_subset_eq_self)
next
  case (stops_group k g)
  have "quiesced t"
    by (rule quiesced_group [OF assms(2), of _ k "stop_group g"])
      (simp_all add: stops_group(1) stop_group_def)
  then show ?thesis by (simp add: stops_group(1))
next
  case (stops proceed ex)
  have "quiesced t"
    by (rule quiesced_frame [OF assms(2)])
      (use stops(2) assms(2) in \<open>auto simp: stops(1) Stop_begin_def quiesced_def split: if_splits\<close>)
  then show ?thesis by (simp add: stops(1))
next
  case (cancels i st ex)
  have "quiesced t"
    by (rule quiesced_frame [OF assms(2)])
      (use cancels(2) in \<open>auto simp: cancels(1) Cancel_def split: if_splits option.splits\<close>)
  then show ?thesis by (simp add: cancels(1))
next
  case (enqueue_admits j tk st tk')
  have "quiesced t" by (rule quiesced_frame [OF assms(2)]) (simp_all add: enqueue_admits(1))
  then show ?thesis by (simp add: enqueue_admits(1))
next
  case (handler_invoked i tk threw)
  have "quiesced t" by (rule quiesced_frame [OF assms(2)]) (simp_all add: handler_invoked(1))
  then show ?thesis by (simp add: handler_invoked(1))
next
  case (stops_task i tk)
  have "quiesced t" by (rule quiesced_frame [OF assms(2)]) (simp_all add: stops_task(1))
  then show ?thesis by (simp add: stops_task(1))
next
  case (acknowledges st ex)
  have "quiesced t"
    by (rule quiesced_frame [OF assms(2)])
      (use acknowledges(2) in \<open>auto simp: acknowledges(1) AcknowledgeDegraded_def\<close>)
  then show ?thesis by (simp add: acknowledges(1))
next
  case (creates_group scheduling config res ex)
  then show ?thesis using quiesced_refuses(3) [OF assms(2), of scheduling config] assms(2) by simp
next
  case (adds_task config has_callback now res ex)
  then show ?thesis using quiesced_refuses(4) [OF assms(2), of config has_callback now] assms(2) by simp
next
  case (starts scheduling now st ex)
  then show ?thesis using quiesced_refuses(5) [OF assms(2), of scheduling now] assms(2) by simp
qed (use quiesced_refuses(1,2) [OF assms(2)] in \<open>simp_all\<close>)

text \<open>C6: stopping. Once the executor and its groups are stopping and no worker holds an undispatched
  job taken before, no callback starts any more: in every continuation the running callbacks are
  among those running now, and nothing is enqueued.\<close>

theorem stop_starts_nothing:
  assumes "quiesced s" "ex_step\<^sup>*\<^sup>* s t"
  shows "mset (es_running t) \<subseteq># mset (es_running s) \<and> quiesced t \<and>
    (\<forall>i release now. \<not> ok (fst (Enqueue i release now (es_ex t))))"
proof -
  have run: "quiesced t \<and> mset (es_running t) \<subseteq># mset (es_running s)"
    using assms(2)
  proof (induction rule: rtranclp_induct)
    case (step t u)
    then show ?case using quiesced_step [of t u] by (meson subset_mset.order_trans)
  qed (simp add: assms(1))
  have "\<not> ok (fst (Enqueue i release now (es_ex t)))" for i release now
    using run by (auto simp: Enqueue_def Enqueue_reserve_def quiesced_def split: option.splits)
  with run show ?thesis by blast
qed

theorem stop_starts_nothing_witness:
  "mset (es_running (demo_system (snd (Executor_Stop demo_executor)))) = {#} \<and>
   \<not> ok (fst (Enqueue 1 5 6 (snd (Executor_Stop demo_executor))))"
proof -
  let ?ex = "snd (Executor_Stop demo_executor)"
  have "list_all (\<lambda>(k, g). cg_stopping g) (ex_groups ?ex)" "ex_stopping ?ex" by code_simp+
  then have "quiesced (demo_system ?ex)"
    by (auto simp: quiesced_def demo_system_def group_of_def list_all_iff dest!: map_of_SomeD)
  from stop_starts_nothing [OF this rtranclp.rtrancl_refl] show ?thesis
    by (simp add: demo_system_def)
qed

text \<open>A cancelled task stays cancelled and starts nothing.\<close>

definition inert :: "u64 \<Rightarrow> u64 \<Rightarrow> ExSystem \<Rightarrow> bool" where
  "inert i n s \<longleftrightarrow> (\<exists>tk. task_of s i = Some tk \<and> tk_cancelled tk \<and> started (tk_stats tk) = n)"

definition still :: "TaskState \<Rightarrow> TaskState \<Rightarrow> bool" where
  "still tk tk' \<longleftrightarrow> (tk_cancelled tk \<longrightarrow> tk_cancelled tk' \<and> started (tk_stats tk') = started (tk_stats tk))"

lemma AppendSample_started [simp]: "started (AppendSample x st) = started st"
  by (simp add: AppendSample_def Let_def)

lemma still_simps:
  "still tk (snd (Enqueue_admit tk))" "still tk (snd (snd (Enqueue_push j g tk)))"
  "still tk (snd (worker_dispatch j stopping now tk))"
  "still tk (snd (snd (worker_finish j start fin failed tk)))"
  "still tk (InvokeDeadlineHandler has_handler threw tk)" "still tk (stop_task tk)"
  "still tk (cancel_task tk)" "still tk (snd (release_due now tk))" "still tk (start_task now tk)"
  by (auto simp: still_def Enqueue_admit_def Enqueue_push_def worker_dispatch_def worker_finish_def
      InvokeDeadlineHandler_def stop_task_def cancel_task_def release_due_def start_task_def Let_def
      split: prod.splits)

lemma inert_put:
  assumes "inert i n s" "task_of s k = Some tk" "still tk tk'"
    and "map_of (ex_tasks (es_ex t)) = (map_of (ex_tasks (es_ex s)))(k \<mapsto> tk')"
  shows "inert i n t"
  using assms by (auto simp: inert_def still_def task_of_def)

lemma inert_map:
  assumes "inert i n s" "\<And>tk. still tk (f tk)"
    and "map_of (ex_tasks (es_ex t)) = map_option f \<circ> map_of (ex_tasks (es_ex s))"
  shows "inert i n t"
  using assms by (fastforce simp: inert_def still_def task_of_def)

lemma inert_same:
  assumes "inert i n s" "map_of (ex_tasks (es_ex t)) i = map_of (ex_tasks (es_ex s)) i"
  shows "inert i n t"
  using assms by (auto simp: inert_def task_of_def)

lemma dispatch_inert:
  "worker_dispatch j stopping now tk = (Execute, tk') \<Longrightarrow> \<not> tk_cancelled tk"
  by (auto simp: worker_dispatch_def Let_def split: if_splits)

lemma jobs_of_remove1_le: "jobs_of i (remove1 j js) \<le> jobs_of i js"
  by (induction js) auto

lemma cancelled_step:
  assumes "ex_step s t" "inert i n s"
  shows "inert i n t \<and> jobs_of i (es_running t) \<le> jobs_of i (es_running s)"
  using assms(1)
proof (cases rule: ex_step.cases)
  case (enqueue_admits j tk st tk')
  have "inert i n t"
    by (rule inert_put [OF assms(2) enqueue_admits(3)])
      (use still_simps(1) [of tk] enqueue_admits in auto)
  then show ?thesis by (simp add: enqueue_admits(1))
next
  case (enqueue_pushes j tk g st g' tk')
  have "inert i n t"
    by (rule inert_put [OF assms(2) enqueue_pushes(3)])
      (use still_simps(2) [of tk j g] enqueue_pushes in auto)
  then show ?thesis by (simp add: enqueue_pushes(1))
next
  case (worker_dispatches j stopping tk now d tk')
  have "inert i n t"
    by (rule inert_put [OF assms(2) worker_dispatches(3)])
      (use still_simps(3) [of tk j stopping now] worker_dispatches in auto)
  moreover have "job_task j \<noteq> i" if "d = Execute"
    using that dispatch_inert worker_dispatches(3,4) assms(2) by (auto simp: inert_def)
  ultimately show ?thesis by (simp add: worker_dispatches(1))
next
  case (worker_finishes j tk start fin failed event degrade tk')
  have "inert i n t"
    by (rule inert_put [OF assms(2) worker_finishes(3)])
      (use still_simps(4) [of tk j start fin failed] worker_finishes in auto)
  then show ?thesis by (simp add: worker_finishes(1) jobs_of_remove1_le)
next
  case (handler_invoked k tk threw)
  have "inert i n t"
    by (rule inert_put [OF assms(2) handler_invoked(2) still_simps(5)]) (simp add: handler_invoked(1))
  then show ?thesis by (simp add: handler_invoked(1))
next
  case (scheduler_releases now1 now due ex)
  have "inert i n t"
    by (rule inert_map [OF assms(2), of "\<lambda>tk. snd (release_due now tk)", OF still_simps(8)])
      (use scheduler_releases map_of_release_all [of now "ex_tasks (es_ex s)"] in
        \<open>auto simp: scheduler_turn_def Let_def split: if_splits prod.splits\<close>)
  then show ?thesis by (simp add: scheduler_releases(1))
next
  case (adds_task config has_callback now res ex)
  have "inert i n t"
    by (rule inert_same [OF assms(2)])
      (use adds_task assms(2) in
        \<open>auto simp: AddTask_register_def Let_def inert_def task_of_def split: if_splits\<close>)
  then show ?thesis by (simp add: adds_task(1))
next
  case (starts scheduling now st ex)
  have "ex = es_ex s \<or> ex_tasks ex = map_values (start_task now) (ex_tasks (es_ex s))"
    using starts(2) by (auto simp: Start_begin_def split: if_splits)
  then have "inert i n t"
    using inert_map [OF assms(2), of "start_task now" t, OF still_simps(9)] inert_same [OF assms(2), of t]
    by (auto simp: starts(1) map_of_map_values)
  then show ?thesis by (simp add: starts(1))
next
  case (cancels k st ex)
  have "inert i n t"
  proof (cases "task_of s k")
    case None
    then have "ex = es_ex s" using cancels(2) by (auto simp: Cancel_def FindTask_def task_of_def)
    then show ?thesis using assms(2) cancels(1) by simp
  next
    case (Some tk)
    show ?thesis
    proof (cases "tk_cancelled tk")
      case True
      then have "ex = es_ex s"
        using cancels(2) Some by (auto simp: Cancel_def FindTask_def task_of_def)
      then show ?thesis using assms(2) cancels(1) by simp
    next
      case False
      show ?thesis
        by (rule inert_put [OF assms(2) Some still_simps(7)])
          (use cancels False Some in \<open>auto simp: Cancel_def FindTask_def task_of_def\<close>)
    qed
  qed
  then show ?thesis by (simp add: cancels(1))
next
  case (stops_task k tk)
  have "inert i n t"
    by (rule inert_put [OF assms(2) stops_task(3) still_simps(6)]) (simp add: stops_task(1))
  then show ?thesis by (simp add: stops_task(1))
next
  case (enqueue_reserves k tk seq ex release now)
  have "inert i n t"
    by (rule inert_same [OF assms(2)])
      (use enqueue_reserves in \<open>auto simp: Enqueue_reserve_def split: if_splits option.splits\<close>)
  then show ?thesis by (simp add: enqueue_reserves(1))
next
  case (creates_group scheduling config res ex)
  have "inert i n t"
    by (rule inert_same [OF assms(2)])
      (use creates_group in \<open>auto simp: CreateCallbackGroup_def Let_def split: if_splits\<close>)
  then show ?thesis by (simp add: creates_group(1))
qed (use inert_same [OF assms(2), of t] in
    \<open>auto simp: Stop_begin_def AcknowledgeDegraded_def split: if_splits\<close>)


text \<open>cancelling. After a successful \<open>Cancel\<close> the task stays cancelled in every continuation and
  none of its callbacks starts: its count of started callbacks is frozen and the number of its
  running callbacks only falls.\<close>

theorem cancel_starts_nothing:
  assumes "Cancel i (es_ex s) = (st, ex)" "ok st" "ex_step\<^sup>*\<^sup>* (s\<lparr>es_ex := ex\<rparr>) t"
  shows "\<exists>tk tk'. map_of (ex_tasks (es_ex s)) i = Some tk \<and> map_of (ex_tasks (es_ex t)) i = Some tk' \<and>
    tk_cancelled tk' \<and> started (tk_stats tk') = started (tk_stats tk) \<and>
    jobs_of i (es_running t) \<le> jobs_of i (es_running s)"
proof -
  from assms(1,2) obtain tk where tk: "map_of (ex_tasks (es_ex s)) i = Some tk"
    by (auto simp: Cancel_def FindTask_def split: option.splits)
  let ?s = "s\<lparr>es_ex := ex\<rparr>" and ?n = "started (tk_stats tk)"
  have "inert i ?n ?s"
    using assms(1) tk
    by (auto simp: Cancel_def FindTask_def inert_def task_of_def cancel_task_def split: if_splits)
  with assms(3) have "inert i ?n t \<and> jobs_of i (es_running t) \<le> jobs_of i (es_running ?s)"
  proof (induction rule: rtranclp_induct)
    case (step t u)
    then show ?case using cancelled_step [OF step(2), of i ?n] by (auto intro: order_trans)
  qed simp
  with tk show ?thesis by (auto simp: inert_def task_of_def)
qed

theorem cancel_starts_nothing_witness:
  "\<exists>tk. map_of (ex_tasks (snd (Enqueue 1 5 6 (snd (Cancel 1 demo_executor))))) 1 = Some tk \<and>
     tk_cancelled tk \<and> started (tk_stats tk) = 0"
proof -
  let ?s = "demo_system demo_executor" and ?ex = "snd (Cancel 1 demo_executor)"
  have ok: "ok (fst (Cancel 1 demo_executor))" by code_simp
  have z: "map_option (\<lambda>tk. started (tk_stats tk)) (map_of (ex_tasks demo_executor) 1) = Some 0"
    by code_simp
  have steps: "ex_step\<^sup>*\<^sup>* (?s\<lparr>es_ex := ?ex\<rparr>) (?s\<lparr>es_ex := snd (Enqueue 1 5 6 ?ex)\<rparr>)"
    using Enqueue_steps [OF surjective_pairing, where i = 1 and release = 5 and now = 6
        and s = "?s\<lparr>es_ex := ?ex\<rparr>"] by simp
  show ?thesis
    using cancel_starts_nothing [OF _ ok steps, of 1] z by (auto simp: demo_system_def)
qed


subsection \<open>Periodic releases and notifications\<close>

text \<open>C7: one scheduler turn releases the points of a periodic task's time grid that are due, at most
  1024 of them, counts the others as skipped, and leaves the next release on the grid at the first
  point after the present; \<open>n\<close> is the number of grid points up to now.\<close>

theorem periodic_releases_on_grid:
  assumes "kind (tk_config tk) = Periodic" "\<not> tk_cancelled tk" "0 < period (tk_config tk)"
  shows "\<exists>n. release_due now tk =
      (map (\<lambda>k. tk_next_release tk + int k * period (tk_config tk)) [0..<min 1024 n],
       tk\<lparr>tk_next_release := tk_next_release tk + int n * period (tk_config tk),
         tk_stats := (tk_stats tk)\<lparr>periodic_releases_skipped :=
           periodic_releases_skipped (tk_stats tk) + of_nat (n - 1024)\<rparr>\<rparr>) \<and>
    now < tk_next_release tk + int n * period (tk_config tk) \<and>
    (n = 0 \<or> tk_next_release tk + int (n - 1) * period (tk_config tk) \<le> now)"
proof -
  let ?per = "period (tk_config tk)" and ?nx = "tk_next_release tk"
  let ?n = "grid_points now ?per ?nx"
  have last: "?n = 0 \<or> ?nx + int (?n - 1) * ?per \<le> now"
  proof (cases "?n = 0")
    case that: False
    have le: "?nx \<le> now" using that by (auto simp: grid_points_def split: if_splits)
    then have "int (?n - 1) = (now - ?nx) div ?per"
      using assms(3) by (simp add: grid_points_def pos_imp_zdiv_nonneg_iff)
    moreover have "(now - ?nx) div ?per * ?per \<le> now - ?nx"
      using assms(3) div_mult_mod_eq [of "now - ?nx" ?per] pos_mod_sign [of ?per "now - ?nx"] by linarith
    ultimately show ?thesis by simp
  qed simp
  show ?thesis
    by (intro exI [of _ ?n] conjI release_due_grid [OF assms(3,2,1), of now]
        grid_points_beyond [OF assms(3), of now ?nx] last)
qed

definition demo_periodic :: TaskState where
  "demo_periodic = new_task 1 (demo_task\<lparr>kind := Periodic, period := 10\<rparr>) 100"

theorem periodic_releases_on_grid_witness:
  "fst (release_due 125 demo_periodic) = [100, 110, 120] \<and>
   tk_next_release (snd (release_due 125 demo_periodic)) = 130"
proof -
  have t: "kind (tk_config demo_periodic) = Periodic" "\<not> tk_cancelled demo_periodic"
    "0 < period (tk_config demo_periodic)" "tk_next_release demo_periodic = 100"
    "period (tk_config demo_periodic) = 10"
    by (simp_all add: demo_periodic_def new_task_def demo_task_def)
  obtain n where n: "fst (release_due 125 demo_periodic) = map (\<lambda>k. 100 + int k * 10) [0..<min 1024 n]"
    "tk_next_release (snd (release_due 125 demo_periodic)) = 100 + int n * 10"
    "125 < 100 + int n * 10" "n = 0 \<or> 100 + int (n - 1) * 10 \<le> 125"
    using periodic_releases_on_grid [OF t(1-3), of 125] unfolding t(4,5) by auto
  have "n = 3" using n(3,4) by auto
  with n(1,2) show ?thesis by (simp add: upt_rec)
qed

text \<open>a notification that succeeds appends exactly one job to the queue of the task's group and
  counts it as a release and as queued; one that fails leaves every queue and every queued counter
  as it was.\<close>

theorem notify_outcome:
  assumes "Notify i release now ex = (st, ex')"
  shows "if ok st then \<exists>tk g. map_of (ex_tasks ex) i = Some tk \<and> kind (tk_config tk) \<noteq> Periodic \<and>
      \<not> tk_cancelled tk \<and> tk_queued tk < queue_capacity (tk_config tk) \<and>
      map_of (ex_groups ex) (callback_group (tk_config tk)) = Some g \<and> \<not> cg_stopping g \<and>
      length (cg_queue g) < group_queue_capacity (cg_config g) \<and>
      map_of (ex_tasks ex') = (map_of (ex_tasks ex))(i \<mapsto> tk\<lparr>tk_queued := tk_queued tk + 1,
        tk_stats := (tk_stats tk)\<lparr>releases := releases (tk_stats tk) + 1\<rparr>\<rparr>) \<and>
      map_of (ex_groups ex') = (map_of (ex_groups ex))(callback_group (tk_config tk) \<mapsto>
        g\<lparr>cg_queue := cg_queue g @ [\<lparr>job_task = i, job_config = tk_config tk,
          job_release_time = release, job_enqueued_at = now,
          job_sequence = ex_next_job_sequence ex\<rparr>]\<rparr>)
    else map_of (ex_groups ex') = map_of (ex_groups ex) \<and>
      (\<forall>k. map_option tk_queued (map_of (ex_tasks ex') k) = map_option tk_queued (map_of (ex_tasks ex) k))"
proof (cases "FindTask i ex")
  case None
  then show ?thesis using assms by (auto simp: Notify_def)
next
  case (Some tk)
  let ?k = "callback_group (tk_config tk)"
  show ?thesis
  proof (cases "kind (tk_config tk) = Periodic \<or> \<not> ex_running ex \<or> ex_stopping ex \<or>
      map_of (ex_groups ex) ?k = None")
    case True
    then show ?thesis
      using assms Some
      by (auto simp: Notify_def Enqueue_def Enqueue_reserve_def split: if_splits option.splits)
  next
    case False
    then obtain g where g: "map_of (ex_groups ex) ?k = Some g" by auto
    show ?thesis
      using assms Some False g
      by (auto simp: Notify_def Enqueue_def Enqueue_reserve_def Enqueue_admit_def Enqueue_push_def
          FindTask_def Let_def fun_eq_iff split: if_splits)
  qed
qed

theorem notify_outcome_witness:
  "\<exists>tk g. map_of (ex_tasks demo_executor) 1 = Some tk \<and> map_of (ex_groups demo_executor) 1 = Some g \<and>
     map_of (ex_groups (snd (Notify 1 5 6 demo_executor))) 1 = Some (g\<lparr>cg_queue := cg_queue g @
       [\<lparr>job_task = 1, job_config = tk_config tk, job_release_time = 5, job_enqueued_at = 6,
         job_sequence = 1\<rparr>]\<rparr>)"
proof -
  have e: "ok (fst (Notify 1 5 6 demo_executor))" "ex_next_job_sequence demo_executor = 1"
    "map_option (\<lambda>tk. callback_group (tk_config tk)) (map_of (ex_tasks demo_executor) 1) = Some 1"
    by code_simp+
  show ?thesis
    using notify_outcome [OF surjective_pairing, of 1 5 6 demo_executor] e by (auto simp: fun_eq_iff)
qed

end
