(* ===== verification/Health.thy ===== *)
theory Health
  imports Runtime_Core "HOL-Library.AList" "HOL-Library.Char_ord" "HOL-Library.List_Lexorder"
begin

text \<open>
  The health monitor of \<open>health_monitor.cpp\<close>: registered components report heartbeats, progress,
  backlog and deadline misses; an evaluation moves them between health states; a failed component is
  recovered through hooks within a restart budget.

  Durations of a policy are integers in nanoseconds. The component table is an association list.
  \<open>Recover\<close> releases the lock while its hooks run, so it is split into the section that starts a
  recovery, the run of the hooks, and the section that completes it or reports its failure.
\<close>

subsection \<open>State\<close>

datatype HealthState = Starting | Running | Degraded | Failed | Recovering

datatype HealthReason =
  NoReason | HeartbeatLost | ProcessExited | NoProgress | BacklogExceeded | DeadlineMissesExceeded
  | RecoveryFailed

record HealthPolicy =
  heartbeat_timeout :: duration
  no_progress_timeout :: duration
  max_backlog :: nat
  max_deadline_misses :: u64
  restart_backoff :: duration
  recovery_timeout :: duration
  max_restart_attempts :: u32

record ComponentRegistration =
  reg_name :: string
  reg_process_id :: int
  reg_generation :: u64
  reg_policy :: HealthPolicy

record ComponentHealth =
  ch_name :: string
  ch_process_id :: int
  ch_generation :: u64
  ch_state :: HealthState
  ch_reason :: HealthReason
  ch_last_seen :: time_point
  ch_last_progress :: time_point
  ch_last_transition :: time_point
  ch_heartbeat_sequence :: u64
  ch_progress_sequence :: u64
  ch_backlog :: nat
  ch_deadline_misses :: u64
  ch_restart_attempts :: u32
  ch_policy :: HealthPolicy
  ch_detail :: string

record HealthTransition =
  ht_component :: string
  ht_generation :: u64
  ht_previous :: HealthState
  ht_current :: HealthState
  ht_reason :: HealthReason
  ht_observed_at :: time_point
  ht_detail :: string

record HealthMonitor =
  hm_components :: "(string \<times> ComponentHealth) list"
  hm_transitions :: "HealthTransition list"

definition HealthMonitor_new :: HealthMonitor where
  "HealthMonitor_new = \<lparr>hm_components = [], hm_transitions = []\<rparr>"

definition ValidPolicy :: "HealthPolicy \<Rightarrow> bool" where
  "ValidPolicy p =
     (heartbeat_timeout p > 0 \<and> no_progress_timeout p > 0 \<and> restart_backoff p \<ge> 0 \<and>
      recovery_timeout p > 0 \<and> max_restart_attempts p \<noteq> 0)"

definition TimedOut :: "time_point \<Rightarrow> time_point \<Rightarrow> duration \<Rightarrow> bool" where
  "TimedOut now last_time timeout = (now > last_time \<and> now - last_time > timeout)"

text \<open>\<open>kill_result\<close> is \<open>None\<close> when the signal could be sent, otherwise the error number.\<close>

definition EPERM :: int where "EPERM = 1"

definition DefaultProcessProbe :: "(int \<Rightarrow> int option) \<Rightarrow> int \<Rightarrow> bool" where
  "DefaultProcessProbe kill_result process_id =
     (if process_id \<le> 0 then False
      else case kill_result process_id of None \<Rightarrow> True | Some err \<Rightarrow> err = EPERM)"


subsection \<open>Transitions\<close>

definition TransitionLocked ::
    "HealthState \<Rightarrow> HealthReason \<Rightarrow> time_point \<Rightarrow> string \<Rightarrow> ComponentHealth \<Rightarrow>
     HealthTransition list \<times> ComponentHealth" where
  "TransitionLocked state reason observed_at det c =
     (if ch_state c = state \<and> ch_reason c = reason \<and> ch_detail c = det then ([], c)
      else ([\<lparr>ht_component = ch_name c, ht_generation = ch_generation c,
               ht_previous = ch_state c, ht_current = state, ht_reason = reason,
               ht_observed_at = observed_at, ht_detail = det\<rparr>],
            c\<lparr>ch_state := state, ch_reason := reason, ch_last_transition := observed_at,
              ch_detail := det\<rparr>))"

definition CheckGenerationLocked :: "ComponentHealth \<Rightarrow> u64 \<Rightarrow> Status" where
  "CheckGenerationLocked c generation =
     (if generation \<noteq> ch_generation c
      then mk_status StaleGeneration
        (if generation < ch_generation c then ''component update belongs to a stale generation''
         else ''component update belongs to an unregistered generation'')
      else OkStatus)"

definition FindLocked :: "string \<Rightarrow> HealthMonitor \<Rightarrow> ComponentHealth Result" where
  "FindLocked name m =
     (case map_of (hm_components m) name of
        None \<Rightarrow> Inl (mk_status NotFound ''health component is not registered'')
      | Some c \<Rightarrow> Inr c)"

definition put_component ::
    "string \<Rightarrow> HealthTransition list \<times> ComponentHealth \<Rightarrow> HealthMonitor \<Rightarrow> HealthMonitor" where
  "put_component name tc m =
     m\<lparr>hm_components := AList.update name (snd tc) (hm_components m),
       hm_transitions := hm_transitions m @ fst tc\<rparr>"


subsection \<open>Registration and reports\<close>

definition new_component :: "ComponentRegistration \<Rightarrow> time_point \<Rightarrow> ComponentHealth" where
  "new_component r observed_at =
     \<lparr>ch_name = reg_name r, ch_process_id = reg_process_id r, ch_generation = reg_generation r,
      ch_state = Starting, ch_reason = NoReason, ch_last_seen = observed_at,
      ch_last_progress = observed_at, ch_last_transition = observed_at, ch_heartbeat_sequence = 0,
      ch_progress_sequence = 0, ch_backlog = 0, ch_deadline_misses = 0, ch_restart_attempts = 0,
      ch_policy = reg_policy r, ch_detail = ''awaiting first heartbeat''\<rparr>"

definition Register ::
    "ComponentRegistration \<Rightarrow> time_point \<Rightarrow> HealthMonitor \<Rightarrow> ComponentHealth Result \<times> HealthMonitor" where
  "Register r observed_at m =
     (if reg_name r = [] \<or> reg_process_id r < 0 \<or> reg_generation r = 0 \<or> \<not> ValidPolicy (reg_policy r)
      then (Inl (mk_status InvalidArgument ''invalid health component registration''), m)
      else if map_of (hm_components m) (reg_name r) \<noteq> None
      then (Inl (mk_status AlreadyExists ''health component is already registered''), m)
      else let c = new_component r observed_at in
        (Inr c, m\<lparr>hm_components := (reg_name r, c) # hm_components m\<rparr>))"

text \<open>The common prologue of the reports: find the component and check the generation.\<close>

definition with_component ::
    "string \<Rightarrow> u64 \<Rightarrow> (ComponentHealth \<Rightarrow> Status \<times> HealthTransition list \<times> ComponentHealth) \<Rightarrow>
     HealthMonitor \<Rightarrow> Status \<times> HealthMonitor" where
  "with_component name generation report m =
     (case FindLocked name m of
        Inl e \<Rightarrow> (e, m)
      | Inr c \<Rightarrow>
        if \<not> ok (CheckGenerationLocked c generation) then (CheckGenerationLocked c generation, m)
        else case report c of (st, tc) \<Rightarrow> (st, put_component name tc m))"

definition heartbeat_component ::
    "u64 \<Rightarrow> time_point \<Rightarrow> ComponentHealth \<Rightarrow> Status \<times> HealthTransition list \<times> ComponentHealth" where
  "heartbeat_component seq observed_at c =
     (if seq < ch_heartbeat_sequence c
      then (mk_status InvalidArgument ''heartbeat sequence regressed'', [], c)
      else let c = c\<lparr>ch_heartbeat_sequence := seq, ch_last_seen := observed_at\<rparr> in
        (OkStatus,
         if ch_state c = Starting
         then TransitionLocked Running NoReason observed_at ''first heartbeat observed'' c
         else ([], c)))"

definition Heartbeat ::
    "string \<Rightarrow> u64 \<Rightarrow> u64 \<Rightarrow> time_point \<Rightarrow> HealthMonitor \<Rightarrow> Status \<times> HealthMonitor" where
  "Heartbeat name generation seq observed_at =
     with_component name generation (heartbeat_component seq observed_at)"

definition progress_component ::
    "u64 \<Rightarrow> time_point \<Rightarrow> ComponentHealth \<Rightarrow> Status \<times> HealthTransition list \<times> ComponentHealth" where
  "progress_component seq observed_at c =
     (if seq < ch_progress_sequence c
      then (mk_status InvalidArgument ''progress sequence regressed'', [], c)
      else if seq > ch_progress_sequence c
      then (OkStatus, [], c\<lparr>ch_progress_sequence := seq, ch_last_progress := observed_at\<rparr>)
      else (OkStatus, [], c))"

definition Progress ::
    "string \<Rightarrow> u64 \<Rightarrow> u64 \<Rightarrow> time_point \<Rightarrow> HealthMonitor \<Rightarrow> Status \<times> HealthMonitor" where
  "Progress name generation seq observed_at =
     with_component name generation (progress_component seq observed_at)"

definition ReportBacklog :: "string \<Rightarrow> u64 \<Rightarrow> nat \<Rightarrow> HealthMonitor \<Rightarrow> Status \<times> HealthMonitor" where
  "ReportBacklog name generation depth =
     with_component name generation (\<lambda>c. (OkStatus, [], c\<lparr>ch_backlog := depth\<rparr>))"

definition ReportDeadlineMisses :: "string \<Rightarrow> u64 \<Rightarrow> u64 \<Rightarrow> HealthMonitor \<Rightarrow> Status \<times> HealthMonitor" where
  "ReportDeadlineMisses name generation misses =
     with_component name generation (\<lambda>c. (OkStatus, [], c\<lparr>ch_deadline_misses := misses\<rparr>))"


subsection \<open>Evaluation\<close>

record ProbeResult =
  probe_process_id :: int
  probe_generation :: u64
  probe_alive :: bool

text \<open>The components to probe, and the probe's answers; a probe that throws counts as not alive.\<close>

definition probe_requests :: "HealthMonitor \<Rightarrow> (string \<times> int \<times> u64) list" where
  "probe_requests m =
     map (\<lambda>(name, c). (name, ch_process_id c, ch_generation c))
       (filter (\<lambda>(name, c). ch_process_id c > 0 \<and> ch_state c \<noteq> Failed) (hm_components m))"

definition run_probes ::
    "(int \<Rightarrow> bool option) \<Rightarrow> (string \<times> int \<times> u64) list \<Rightarrow> (string \<times> ProbeResult) list" where
  "run_probes process_probe requests =
     map (\<lambda>(name, pid, generation). (name, \<lparr>probe_process_id = pid, probe_generation = generation,
       probe_alive = (case process_probe pid of Some alive \<Rightarrow> alive | None \<Rightarrow> False)\<rparr>)) requests"

definition evaluate_component ::
    "(string \<times> ProbeResult) list \<Rightarrow> time_point \<Rightarrow> string \<Rightarrow> ComponentHealth \<Rightarrow>
     HealthTransition list \<times> ComponentHealth" where
  "evaluate_component probes observed_at name c =
     (let exited = (case map_of probes name of
            None \<Rightarrow> False
          | Some p \<Rightarrow> probe_process_id p = ch_process_id c \<and> probe_generation p = ch_generation c \<and>
              \<not> probe_alive p);
          policy = ch_policy c in
      if ch_state c = Failed then ([], c)
      else if exited
      then TransitionLocked Failed ProcessExited observed_at
        ''process probe reports that the component exited'' c
      else if ch_state c = Recovering
      then if TimedOut observed_at (ch_last_transition c) (recovery_timeout policy)
        then TransitionLocked Failed RecoveryFailed observed_at
          ''recovery did not complete before its timeout'' c
        else ([], c)
      else if TimedOut observed_at (ch_last_seen c) (heartbeat_timeout policy)
      then TransitionLocked Failed HeartbeatLost observed_at ''heartbeat timeout expired'' c
      else if TimedOut observed_at (ch_last_progress c) (no_progress_timeout policy)
      then TransitionLocked Failed NoProgress observed_at ''progress sequence did not advance'' c
      else if ch_backlog c > max_backlog policy
      then TransitionLocked Degraded BacklogExceeded observed_at ''reported backlog exceeds policy'' c
      else if ch_deadline_misses c > max_deadline_misses policy
      then TransitionLocked Degraded DeadlineMissesExceeded observed_at
        ''reported deadline misses exceed policy'' c
      else if ch_state c = Degraded
      then TransitionLocked Running NoReason observed_at ''degradation signals cleared'' c
      else ([], c))"

text \<open>The second section of \<open>Evaluate\<close>: the emitted transitions and the monitor.\<close>

fun evaluate_all ::
    "(string \<times> ProbeResult) list \<Rightarrow> time_point \<Rightarrow> (string \<times> ComponentHealth) list \<Rightarrow>
     HealthTransition list \<times> (string \<times> ComponentHealth) list" where
  "evaluate_all probes observed_at [] = ([], [])"
| "evaluate_all probes observed_at ((name, c) # cs) =
     (case evaluate_component probes observed_at name c of (ts, c) \<Rightarrow>
      case evaluate_all probes observed_at cs of (ts', cs) \<Rightarrow> (ts @ ts', (name, c) # cs))"

definition Evaluate_apply ::
    "(string \<times> ProbeResult) list \<Rightarrow> time_point \<Rightarrow> HealthMonitor \<Rightarrow> HealthTransition list \<times> HealthMonitor" where
  "Evaluate_apply probes observed_at m =
     (case evaluate_all probes observed_at (hm_components m) of (emitted, cs) \<Rightarrow>
        (emitted, m\<lparr>hm_components := cs, hm_transitions := hm_transitions m @ emitted\<rparr>))"

text \<open>\<open>Evaluate\<close> when nothing happens while the processes are probed.\<close>

definition Evaluate ::
    "(int \<Rightarrow> bool option) \<Rightarrow> time_point \<Rightarrow> HealthMonitor \<Rightarrow> HealthTransition list \<times> HealthMonitor" where
  "Evaluate process_probe observed_at m =
     Evaluate_apply (run_probes process_probe (probe_requests m)) observed_at m"

definition Health_Snapshot :: "string \<Rightarrow> HealthMonitor \<Rightarrow> ComponentHealth Result" where
  "Health_Snapshot name m = FindLocked name m"

definition SnapshotAll :: "HealthMonitor \<Rightarrow> ComponentHealth list" where
  "SnapshotAll m = sort_key ch_name (map snd (hm_components m))"

definition Transitions :: "HealthMonitor \<Rightarrow> HealthTransition list" where
  "Transitions m = hm_transitions m"


subsection \<open>Recovery\<close>

record RecoveryPlan =
  plan_name :: string
  plan_old_generation :: u64
  plan_new_generation :: u64
  plan_backoff :: duration
  plan_recovery_timeout :: duration

text \<open>The first section: a failed component with restarts left becomes \<open>Recovering\<close>.\<close>

definition Recover_begin ::
    "string \<Rightarrow> time_point \<Rightarrow> HealthMonitor \<Rightarrow> RecoveryPlan Result \<times> HealthMonitor" where
  "Recover_begin name now m =
     (case FindLocked name m of
        Inl e \<Rightarrow> (Inl e, m)
      | Inr c \<Rightarrow>
        if ch_state c \<noteq> Failed
        then (Inl (mk_status InvalidArgument ''only a failed component can be recovered''), m)
        else if ch_restart_attempts c \<ge> max_restart_attempts (ch_policy c)
        then (Inl (mk_status Closed ''component exhausted its restart budget''), m)
        else let old_generation = ch_generation c; new_generation = old_generation + 1 in
          if new_generation = 0
          then (Inl (mk_status Internal ''component generation overflowed''), m)
          else (Inr \<lparr>plan_name = name, plan_old_generation = old_generation,
                  plan_new_generation = new_generation,
                  plan_backoff = restart_backoff (ch_policy c),
                  plan_recovery_timeout = recovery_timeout (ch_policy c)\<rparr>,
            put_component name (TransitionLocked Recovering (ch_reason c) now
              ''recovery hooks are running''
              (c\<lparr>ch_restart_attempts := ch_restart_attempts c + 1\<rparr>)) m))"

datatype 'a HookOutcome = HookReturned 'a | HookThrew string | HookThrewUnknown

text \<open>The hooks as the outcomes of their calls for a generation, and the clock readings in their
  order: the start of the recovery, the checks before and after the backoff, the checks after the
  restart.\<close>

record RecoveryHooks =
  hook_cleanup :: "u64 \<Rightarrow> Status HookOutcome"
  hook_start :: "u64 \<Rightarrow> int Result HookOutcome"
  hook_reconnect :: "u64 \<Rightarrow> Status HookOutcome"

record RecoveryClock =
  at_start :: time_point
  at_backoff_expired :: time_point
  at_backoff_now :: time_point
  at_restart_expired :: time_point
  at_restart_now :: time_point
  at_started_expired :: time_point
  at_started_now :: time_point

datatype HookCall = CallCleanup u64 | CallStart u64 | CallReconnect u64

fun hook_status :: "string \<Rightarrow> Status HookOutcome \<Rightarrow> Status" where
  "hook_status hook (HookReturned st) = st"
| "hook_status hook (HookThrew what) = mk_status Internal (hook @ '' hook threw: '' @ what)"
| "hook_status hook HookThrewUnknown = mk_status Internal (hook @ '' hook threw'')"

fun hook_result :: "string \<Rightarrow> int Result HookOutcome \<Rightarrow> int Result" where
  "hook_result hook (HookReturned r) = r"
| "hook_result hook (HookThrew what) = Inl (mk_status Internal (hook @ '' hook threw: '' @ what))"
| "hook_result hook HookThrewUnknown = Inl (mk_status Internal (hook @ '' hook threw''))"

text \<open>The run of the hooks without the lock: the calls made, and either the failure or the process of
  the replacement.\<close>

definition run_hooks ::
    "RecoveryHooks \<Rightarrow> Deadline \<Rightarrow> RecoveryClock \<Rightarrow> RecoveryPlan \<Rightarrow> HookCall list \<times> int Result" where
  "run_hooks hooks dl clk p =
     (let old = plan_old_generation p; new = plan_new_generation p;
          cleaned = hook_status ''cleanup'' (hook_cleanup hooks old) in
      if \<not> ok cleaned then ([CallCleanup old], Inl cleaned)
      else if expired (at_backoff_expired clk) dl \<or>
        (\<not> is_infinite dl \<and> time_point dl - at_backoff_now clk < plan_backoff p)
      then ([CallCleanup old], Inl (mk_status Timeout ''recovery deadline expires during backoff''))
      else if expired (at_restart_expired clk) dl \<or>
        at_restart_now clk - at_start clk > plan_recovery_timeout p
      then ([CallCleanup old], Inl (mk_status Timeout ''recovery timed out before restart''))
      else case hook_result ''start'' (hook_start hooks new) of
        Inl e \<Rightarrow> ([CallCleanup old, CallStart new], Inl e)
      | Inr pid \<Rightarrow>
        if pid \<le> 0
        then ([CallCleanup old, CallStart new],
          Inl (mk_status InvalidArgument ''start hook returned an invalid process id''))
        else if expired (at_started_expired clk) dl \<or>
          at_started_now clk - at_start clk > plan_recovery_timeout p
        then ([CallCleanup old, CallStart new, CallCleanup new],
          Inl (mk_status Timeout ''recovery timed out after restart''))
        else let reconnected = hook_status ''reconnect'' (hook_reconnect hooks new) in
          if \<not> ok reconnected
          then ([CallCleanup old, CallStart new, CallReconnect new, CallCleanup new], Inl reconnected)
          else ([CallCleanup old, CallStart new, CallReconnect new], Inr pid))"

text \<open>The section that reports a failure.\<close>

definition Recover_fail :: "RecoveryPlan \<Rightarrow> Status \<Rightarrow> time_point \<Rightarrow> HealthMonitor \<Rightarrow> HealthMonitor" where
  "Recover_fail p failure now m =
     (case FindLocked (plan_name p) m of
        Inl e \<Rightarrow> m
      | Inr c \<Rightarrow>
        if ch_generation c = plan_old_generation p
        then put_component (plan_name p)
          (TransitionLocked Failed RecoveryFailed now (detail failure) c) m
        else m)"

text \<open>The section that completes a recovery.\<close>

definition restarted_component :: "RecoveryPlan \<Rightarrow> int \<Rightarrow> time_point \<Rightarrow> ComponentHealth \<Rightarrow> ComponentHealth" where
  "restarted_component p pid now c =
     c\<lparr>ch_process_id := pid, ch_generation := plan_new_generation p, ch_last_seen := now,
       ch_last_progress := now, ch_heartbeat_sequence := 0, ch_progress_sequence := 0,
       ch_backlog := 0, ch_deadline_misses := 0\<rparr>"

definition Recover_complete ::
    "RecoveryPlan \<Rightarrow> int \<Rightarrow> time_point \<Rightarrow> HealthMonitor \<Rightarrow> ComponentHealth Result \<times> HealthMonitor" where
  "Recover_complete p pid now m =
     (case FindLocked (plan_name p) m of
        Inl e \<Rightarrow> (Inl e, m)
      | Inr c \<Rightarrow>
        if ch_generation c \<noteq> plan_old_generation p \<or> ch_state c \<noteq> Recovering
        then (Inl (mk_status StaleGeneration ''component changed during recovery''), m)
        else let tc = TransitionLocked Starting NoReason now ''restart complete; awaiting heartbeat''
                   (restarted_component p pid now c) in
          (Inr (snd tc), put_component (plan_name p) tc m))"

text \<open>\<open>Recover\<close>; \<open>hooks\<close> is \<open>None\<close> when one of them is missing, \<open>meanwhile\<close> is what other threads
  do to the monitor while the hooks run, \<open>now1\<close> and \<open>now2\<close> are the readings under the lock.\<close>

definition Recover ::
    "string \<Rightarrow> RecoveryHooks option \<Rightarrow> Deadline \<Rightarrow> RecoveryClock \<Rightarrow> time_point \<Rightarrow> time_point \<Rightarrow>
     (HealthMonitor \<Rightarrow> HealthMonitor) \<Rightarrow> HealthMonitor \<Rightarrow> ComponentHealth Result \<times> HealthMonitor" where
  "Recover name hooks dl clk now1 now2 meanwhile m =
     (case hooks of
        None \<Rightarrow> (Inl (mk_status InvalidArgument
          ''recovery requires cleanup, start, and reconnect hooks''), m)
      | Some hooks \<Rightarrow>
        (case Recover_begin name now1 m of
           (Inl e, m) \<Rightarrow> (Inl e, m)
         | (Inr p, m) \<Rightarrow>
           (case snd (run_hooks hooks dl clk p) of
              Inl failure \<Rightarrow> (Inl failure, Recover_fail p failure now2 (meanwhile m))
            | Inr pid \<Rightarrow> Recover_complete p pid now2 (meanwhile m))))"

fun HealthStateName :: "HealthState \<Rightarrow> string" where
  "HealthStateName Starting = ''STARTING''"
| "HealthStateName Running = ''RUNNING''"
| "HealthStateName Degraded = ''DEGRADED''"
| "HealthStateName Failed = ''FAILED''"
| "HealthStateName Recovering = ''RECOVERING''"

fun HealthReasonName :: "HealthReason \<Rightarrow> string" where
  "HealthReasonName NoReason = ''none''"
| "HealthReasonName HeartbeatLost = ''heartbeat_lost''"
| "HealthReasonName ProcessExited = ''process_exited''"
| "HealthReasonName NoProgress = ''no_progress''"
| "HealthReasonName BacklogExceeded = ''backlog_exceeded''"
| "HealthReasonName DeadlineMissesExceeded = ''deadline_misses_exceeded''"
| "HealthReasonName RecoveryFailed = ''recovery_failed''"


subsection \<open>The monitor and the recoveries under way\<close>

record HealthSystem =
  hs_monitor :: HealthMonitor
  hs_recoveries :: "RecoveryPlan list"

inductive hm_step :: "HealthSystem \<Rightarrow> HealthSystem \<Rightarrow> bool" where
  registers: "Register r now (hs_monitor s) = (res, m) \<Longrightarrow> hm_step s (s\<lparr>hs_monitor := m\<rparr>)"
| beats: "Heartbeat name gen seq now (hs_monitor s) = (st, m) \<Longrightarrow> hm_step s (s\<lparr>hs_monitor := m\<rparr>)"
| progresses: "Progress name gen seq now (hs_monitor s) = (st, m) \<Longrightarrow> hm_step s (s\<lparr>hs_monitor := m\<rparr>)"
| reports_backlog: "ReportBacklog name gen depth (hs_monitor s) = (st, m) \<Longrightarrow> hm_step s (s\<lparr>hs_monitor := m\<rparr>)"
| reports_misses: "ReportDeadlineMisses name gen n (hs_monitor s) = (st, m) \<Longrightarrow> hm_step s (s\<lparr>hs_monitor := m\<rparr>)"
| evaluates: "Evaluate_apply probes now (hs_monitor s) = (ts, m) \<Longrightarrow> hm_step s (s\<lparr>hs_monitor := m\<rparr>)"
| recovery_begins:
    "Recover_begin name now (hs_monitor s) = (Inr p, m) \<Longrightarrow>
     hm_step s (s\<lparr>hs_monitor := m, hs_recoveries := p # hs_recoveries s\<rparr>)"
| recovery_fails:
    "p \<in> set (hs_recoveries s) \<Longrightarrow>
     hm_step s (s\<lparr>hs_monitor := Recover_fail p failure now (hs_monitor s),
       hs_recoveries := remove1 p (hs_recoveries s)\<rparr>)"
| recovery_completes:
    "p \<in> set (hs_recoveries s) \<Longrightarrow> Recover_complete p pid now (hs_monitor s) = (res, m) \<Longrightarrow>
     hm_step s (s\<lparr>hs_monitor := m, hs_recoveries := remove1 p (hs_recoveries s)\<rparr>)"

definition hm_init :: "HealthSystem \<Rightarrow> bool" where
  "hm_init s \<longleftrightarrow> s = \<lparr>hs_monitor = HealthMonitor_new, hs_recoveries = []\<rparr>"

text \<open>The edges of the state machine.\<close>

fun legal_edge :: "HealthState \<Rightarrow> HealthState \<Rightarrow> bool" where
  "legal_edge Starting s = (s = Running \<or> s = Degraded \<or> s = Failed)"
| "legal_edge Running s = (s = Degraded \<or> s = Failed)"
| "legal_edge Degraded s = (s = Running \<or> s = Degraded \<or> s = Failed)"
| "legal_edge Failed s = (s = Recovering \<or> s = Failed)"
| "legal_edge Recovering s = (s = Starting \<or> s = Failed)"

text \<open>A log that leads from one state to another over legal edges.\<close>

fun leads :: "HealthState \<Rightarrow> HealthTransition list \<Rightarrow> HealthState \<Rightarrow> bool" where
  "leads s [] e = (s = e)"
| "leads s (t # ts) e = (ht_previous t = s \<and> legal_edge s (ht_current t) \<and> leads (ht_current t) ts e)"

definition trail :: "string \<Rightarrow> HealthTransition list \<Rightarrow> HealthTransition list" where
  "trail name ts = filter (\<lambda>t. ht_component t = name) ts"

definition restarts :: "HealthTransition list \<Rightarrow> nat" where
  "restarts ts = length (filter (\<lambda>t. ht_current t = Recovering) ts)"

definition trail_ok :: "string \<Rightarrow> HealthTransition list \<Rightarrow> ComponentHealth \<Rightarrow> bool" where
  "trail_ok name ts c \<longleftrightarrow>
     ch_name c = name \<and> leads Starting ts (ch_state c) \<and>
     restarts ts = unat (ch_restart_attempts c) \<and>
     ch_restart_attempts c \<le> max_restart_attempts (ch_policy c) \<and>
     sorted (map ht_generation ts @ [ch_generation c])"

lemma leads_append: "leads s (ts @ us) e \<longleftrightarrow> (\<exists>m. leads s ts m \<and> leads m us e)"
  by (induction ts arbitrary: s) auto

lemma trail_append [simp]: "trail name (ts @ us) = trail name ts @ trail name us"
  by (simp add: trail_def)

lemma restarts_append [simp]: "restarts (ts @ us) = restarts ts + restarts us"
  by (simp add: restarts_def)

lemma word_next_bounded:
  fixes a m :: "'a::len word"
  assumes "a < m"
  shows "unat (a + 1) = unat a + 1" "a + 1 \<le> m"
proof -
  have "unat a < unat m" using assms by (simp add: word_less_nat_alt)
  moreover have "unat m < 2 ^ LENGTH('a)" by (rule unsigned_less)
  ultimately have "Suc (unat a) < 2 ^ LENGTH('a)" by linarith
  then show n: "unat (a + 1) = unat a + 1" by (simp add: unat_word_ariths)
  show "a + 1 \<le> m" using \<open>unat a < unat m\<close> by (simp add: word_le_nat_alt n)
qed

text \<open>What one operation owes to a component: the new log entries belong to it and keep its trail.\<close>

definition extends :: "ComponentHealth \<Rightarrow> HealthTransition list \<times> ComponentHealth \<Rightarrow> bool" where
  "extends c tc \<longleftrightarrow> (\<forall>t \<in> set (fst tc). ht_component t = ch_name c) \<and>
     (\<forall>ts. trail_ok (ch_name c) ts c \<longrightarrow> trail_ok (ch_name c) (ts @ fst tc) (snd tc))"

lemma extends_refl [simp]: "extends c ([], c)"
  by (simp add: extends_def)

text \<open>Changes of a component that the trail does not see.\<close>

definition same_trail :: "ComponentHealth \<Rightarrow> ComponentHealth \<Rightarrow> bool" where
  "same_trail c c' \<longleftrightarrow> ch_name c' = ch_name c \<and> ch_state c' = ch_state c \<and>
     ch_generation c \<le> ch_generation c' \<and> ch_restart_attempts c' = ch_restart_attempts c \<and>
     ch_policy c' = ch_policy c"

lemma same_trail_ok: "same_trail c c' \<Longrightarrow> trail_ok name ts c \<Longrightarrow> trail_ok name ts c'"
  by (fastforce simp: same_trail_def trail_ok_def sorted_append)

lemma extends_same: "same_trail c c' \<Longrightarrow> extends c ([], c')"
  by (auto simp: extends_def intro: same_trail_ok)

lemma extends_transition:
  assumes "same_trail c c'" "legal_edge (ch_state c) state" "state \<noteq> Recovering"
  shows "extends c (TransitionLocked state reason now det c')"
proof -
  have "trail_ok (ch_name c) (ts @ fst (TransitionLocked state reason now det c'))
      (snd (TransitionLocked state reason now det c'))" if ok: "trail_ok (ch_name c) ts c" for ts
    using same_trail_ok [OF assms(1) ok] assms
    by (auto simp: TransitionLocked_def trail_ok_def same_trail_def leads_append restarts_def
        sorted_append)
  then show ?thesis
    using assms(1) by (auto simp: extends_def TransitionLocked_def same_trail_def)
qed

lemma extends_recovering:
  assumes "ch_state c = Failed" "ch_restart_attempts c < max_restart_attempts (ch_policy c)"
  shows "extends c (TransitionLocked Recovering reason now det
    (c\<lparr>ch_restart_attempts := ch_restart_attempts c + 1\<rparr>))"
proof -
  have "unat (ch_restart_attempts c + 1) = unat (ch_restart_attempts c) + 1"
    "ch_restart_attempts c + 1 \<le> max_restart_attempts (ch_policy c)"
    using assms(2) by (simp_all add: word_next_bounded)
  then show ?thesis
    using assms by (auto simp: extends_def TransitionLocked_def trail_ok_def leads_append restarts_def
        sorted_append)
qed


text \<open>The operations, component by component.\<close>

lemma extends_reports:
  "extends c (snd (heartbeat_component seq now c))" "extends c (snd (progress_component seq now c))"
  "extends c ([], c\<lparr>ch_backlog := depth\<rparr>)" "extends c ([], c\<lparr>ch_deadline_misses := n\<rparr>)"
  by (auto simp: heartbeat_component_def progress_component_def Let_def same_trail_def
      intro!: extends_same extends_transition)

lemma evaluate_component_extends: "extends c (evaluate_component probes now name c)"
  by (cases "ch_state c")
    (auto simp: evaluate_component_def Let_def same_trail_def intro!: extends_transition)

text \<open>The invariant of the table.\<close>

definition table_ok :: "HealthMonitor \<Rightarrow> bool" where
  "table_ok m \<longleftrightarrow> distinct (map fst (hm_components m)) \<and> (\<forall>name. case map_of (hm_components m) name of
     None \<Rightarrow> trail name (hm_transitions m) = []
   | Some c \<Rightarrow> trail_ok name (trail name (hm_transitions m)) c)"

definition hm_inv :: "HealthSystem \<Rightarrow> bool" where
  "hm_inv s \<longleftrightarrow> table_ok (hs_monitor s) \<and>
     (\<forall>p \<in> set (hs_recoveries s). plan_old_generation p < plan_new_generation p)"

lemma table_ok_Some: "table_ok m \<Longrightarrow> map_of (hm_components m) name = Some c \<Longrightarrow>
  trail_ok name (trail name (hm_transitions m)) c"
  by (auto simp: table_ok_def dest: spec [of _ name])

lemma trail_own: "(\<forall>t \<in> set ts. ht_component t = n) \<Longrightarrow> trail name ts = (if name = n then ts else [])"
  by (auto simp: trail_def filter_id_conv filter_empty_conv)

lemma table_ok_put:
  assumes "table_ok m" "map_of (hm_components m) name = Some c" "extends c tc"
  shows "table_ok (put_component name tc m)"
proof -
  have c: "ch_name c = name" using table_ok_Some [OF assms(1,2)] by (simp add: trail_ok_def)
  have t: "trail n (fst tc) = (if n = name then fst tc else [])" for n
    using assms(3) c by (intro trail_own) (simp add: extends_def)
  have "trail_ok name (trail name (hm_transitions m) @ fst tc) (snd tc)"
    using table_ok_Some [OF assms(1,2)] assms(3) c by (simp add: extends_def)
  then show ?thesis
    using assms(1) by (auto simp: table_ok_def put_component_def update_conv' t distinct_update cong: option.case_cong)
qed

lemma table_ok_with_component:
  assumes "table_ok m" "\<And>c. extends c (snd (report c))" "with_component name gen report m = (st, m')"
  shows "table_ok m'"
  using assms(3) table_ok_put [OF assms(1) _ assms(2)] assms(1)
  by (auto simp: with_component_def FindLocked_def split: option.splits if_splits prod.splits)
    (metis snd_conv)


lemma evaluate_all_map:
  "map_of (snd (evaluate_all probes now cs)) name =
     map_option (\<lambda>c. snd (evaluate_component probes now name c)) (map_of cs name)"
  by (induction cs) (auto split: prod.splits)

lemma evaluate_all_trail:
  assumes "distinct (map fst cs)" "\<And>k c. (k, c) \<in> set cs \<Longrightarrow> ch_name c = k"
  shows "trail name (fst (evaluate_all probes now cs)) =
    (case map_of cs name of None \<Rightarrow> [] | Some c \<Rightarrow> fst (evaluate_component probes now name c))"
  using assms
proof (induction cs)
  case Nil
  then show ?case by (simp add: trail_def)
next
  case (Cons kc cs)
  obtain k c where kc: "kc = (k, c)" by fastforce
  have own: "\<forall>t \<in> set (fst (evaluate_component probes now k c)). ht_component t = k"
    using evaluate_component_extends [of c probes now k] Cons.prems(2) [of k c]
    by (auto simp: extends_def kc)
  have none: "map_of cs k = None" using Cons.prems(1) by (simp add: kc map_of_eq_None_iff)
  have e: "fst (evaluate_all probes now (kc # cs)) =
      fst (evaluate_component probes now k c) @ fst (evaluate_all probes now cs)"
    by (simp add: kc split: prod.splits)
  have ih: "trail name (fst (evaluate_all probes now cs)) =
      (case map_of cs name of None \<Rightarrow> [] | Some c \<Rightarrow> fst (evaluate_component probes now name c))"
    using Cons by simp
  show ?case
    using none by (simp only: e trail_append ih trail_own [OF own]) (simp add: kc)
qed


lemma table_ok_evaluate:
  assumes "table_ok m" "Evaluate_apply probes now m = (ts, m')"
  shows "table_ok m'"
proof -
  let ?e = "evaluate_all probes now (hm_components m)"
  have named: "ch_name c = k" if "(k, c) \<in> set (hm_components m)" for k c
    using table_ok_Some [OF assms(1), of k c] that assms(1)
    by (simp add: table_ok_def trail_ok_def)
  have dist: "distinct (map fst (hm_components m))" using assms(1) by (simp add: table_ok_def)
  have m': "m' = m\<lparr>hm_components := snd ?e, hm_transitions := hm_transitions m @ fst ?e\<rparr>"
    using assms(2) by (simp add: Evaluate_apply_def split: prod.splits)
  have keys: "map fst (snd (evaluate_all probes now cs)) = map fst cs" for cs
    by (induction cs) (auto split: prod.splits)
  have "case map_of (hm_components m') name of None \<Rightarrow> trail name (hm_transitions m') = []
      | Some c \<Rightarrow> trail_ok name (trail name (hm_transitions m')) c" for name
  proof (cases "map_of (hm_components m) name")
    case None
    then show ?thesis
      using assms(1) evaluate_all_trail [OF dist named, of name probes now]
      by (auto simp: m' evaluate_all_map table_ok_def dest: spec [of _ name])
  next
    case (Some c)
    have c: "ch_name c = name" using named Some by (simp add: map_of_SomeD)
    show ?thesis
      using table_ok_Some [OF assms(1) Some] evaluate_component_extends [of c probes now name] Some c
        evaluate_all_trail [OF dist named, of name probes now]
      by (simp add: m' evaluate_all_map extends_def)
  qed
  moreover have "distinct (map fst (hm_components m'))" using dist by (simp add: m' keys)
  ultimately show ?thesis by (simp add: table_ok_def)
qed

lemma table_ok_register:
  assumes "table_ok m" "Register r now m = (res, m')"
  shows "table_ok m'"
proof (cases "m' = m")
  case False
  then have new: "map_of (hm_components m) (reg_name r) = None"
    and m': "m' = m\<lparr>hm_components := (reg_name r, new_component r now) # hm_components m\<rparr>"
    using assms(2) by (auto simp: Register_def Let_def split: if_splits)
  have "trail (reg_name r) (hm_transitions m) = []"
    using assms(1) new by (auto simp: table_ok_def dest: spec [of _ "reg_name r"])
  then show ?thesis
    using assms(1) new
    by (auto simp: m' table_ok_def trail_ok_def new_component_def restarts_def map_of_eq_None_iff
        cong: option.case_cong)
qed (use assms(1) in simp)

lemma table_ok_recover_begin:
  assumes "table_ok m" "Recover_begin name now m = (res, m')"
  shows "table_ok m'" "res = Inr p \<Longrightarrow> plan_old_generation p < plan_new_generation p"
proof -
  show "table_ok m'"
  proof (cases "m' = m")
    case False
    then obtain c where c: "map_of (hm_components m) name = Some c" "ch_state c = Failed"
      "ch_restart_attempts c < max_restart_attempts (ch_policy c)"
      and m': "m' = put_component name (TransitionLocked Recovering (ch_reason c) now
        ''recovery hooks are running'' (c\<lparr>ch_restart_attempts := ch_restart_attempts c + 1\<rparr>)) m"
      using assms(2)
      by (auto simp: Recover_begin_def FindLocked_def Let_def split: option.splits if_splits)
    show ?thesis unfolding m' by (rule table_ok_put [OF assms(1) c(1) extends_recovering [OF c(2,3)]])
  qed (use assms(1) in simp)
  assume "res = Inr p"
  then have "plan_new_generation p = plan_old_generation p + 1" "plan_new_generation p \<noteq> 0"
    using assms(2)
    by (auto simp: Recover_begin_def FindLocked_def Let_def split: option.splits if_splits)
  then show "plan_old_generation p < plan_new_generation p"
    using inc_less_eq_triv_imp [of "plan_old_generation p"] by (metis add.left_inverse not_less)
qed

lemma table_ok_recover_fail:
  assumes "table_ok m"
  shows "table_ok (Recover_fail p failure now m)"
proof -
  have "extends c (TransitionLocked Failed RecoveryFailed now d c)" for c d
    by (cases "ch_state c") (auto intro!: extends_transition simp: same_trail_def)
  then show ?thesis
    using assms
    by (auto intro!: table_ok_put [OF assms] simp: Recover_fail_def FindLocked_def split: option.splits)
qed

lemma table_ok_recover_complete:
  assumes "table_ok m" "plan_old_generation p < plan_new_generation p"
    and "Recover_complete p pid now m = (res, m')"
  shows "table_ok m'"
proof -
  have "extends c (TransitionLocked Starting NoReason now d (restarted_component p pid now c))"
    if "ch_generation c = plan_old_generation p" "ch_state c = Recovering" for c d
    using that assms(2)
    by (intro extends_transition) (auto simp: same_trail_def restarted_component_def)
  then show ?thesis
    using assms(1,3)
    by (auto intro!: table_ok_put [OF assms(1)] simp: Recover_complete_def FindLocked_def Let_def split: option.splits if_splits)
qed


lemma hm_step_inv: "hm_step s t \<Longrightarrow> hm_inv s \<Longrightarrow> hm_inv t"
proof (induction rule: hm_step.induct)
  case (recovery_begins name now s p m)
  then show ?case
    using table_ok_recover_begin(1) [OF _ recovery_begins(1)]
      table_ok_recover_begin(2) [OF _ recovery_begins(1) refl] by (simp add: hm_inv_def)
next
  case (recovery_fails p s failure now)
  then show ?case
    using table_ok_recover_fail by (auto simp: hm_inv_def dest: set_remove1_subset [THEN subsetD])
next
  case (recovery_completes p s pid now res m)
  then show ?case
    using table_ok_recover_complete [of "hs_monitor s" p pid now res m]
    by (auto simp: hm_inv_def dest: set_remove1_subset [THEN subsetD])
next
  case (reports_backlog name gen depth s st m)
  then show ?case
    using table_ok_with_component [OF _ _ reports_backlog(1) [unfolded ReportBacklog_def]]
      extends_reports(3) by (simp add: hm_inv_def)
next
  case (reports_misses name gen n s st m)
  then show ?case
    using table_ok_with_component [OF _ _ reports_misses(1) [unfolded ReportDeadlineMisses_def]]
      extends_reports(4) by (simp add: hm_inv_def)
qed (auto simp: hm_inv_def Heartbeat_def Progress_def ReportBacklog_def ReportDeadlineMisses_def
    dest: table_ok_register table_ok_evaluate
    intro: table_ok_with_component [rotated 2] extends_reports)

interpretation health_run: step_invariant hm_init hm_step hm_inv
proof
  show "hm_init s \<Longrightarrow> hm_inv s" for s
    by (simp add: hm_init_def hm_inv_def table_ok_def HealthMonitor_new_def trail_def)
qed (rule hm_step_inv)


subsection \<open>Properties\<close>

text \<open>C8: the log is an audit trail. In every reachable state, with recoveries overlapping in any way,
  the logged transitions of a component lead over legal edges from \<open>Starting\<close> to its present state,
  its restart counter is the number of logged recoveries and within the policy's budget, and
  generations never go back.\<close>

theorem health_audit_trail:
  assumes "hm_init s0" "hm_step\<^sup>*\<^sup>* s0 s" "map_of (hm_components (hs_monitor s)) name = Some c"
  shows "leads Starting (trail name (hm_transitions (hs_monitor s))) (ch_state c) \<and>
    restarts (trail name (hm_transitions (hs_monitor s))) = unat (ch_restart_attempts c) \<and>
    ch_restart_attempts c \<le> max_restart_attempts (ch_policy c) \<and>
    sorted (map ht_generation (trail name (hm_transitions (hs_monitor s))) @ [ch_generation c])"
  using health_run.reachable_inv [OF assms(1,2)] table_ok_Some [OF _ assms(3)]
  by (simp add: hm_inv_def trail_ok_def)

lemma TransitionLocked_state [simp]: "ch_state (snd (TransitionLocked state reason now d c)) = state"
  by (simp add: TransitionLocked_def)

lemma evaluate_component_state:
  "ch_state (snd (evaluate_component probes now name c)) =
     (if ch_state c = Failed then Failed
      else if (case map_of probes name of None \<Rightarrow> False | Some p \<Rightarrow> probe_process_id p = ch_process_id c \<and>
        probe_generation p = ch_generation c \<and> \<not> probe_alive p) then Failed
      else if ch_state c = Recovering
      then if TimedOut now (ch_last_transition c) (recovery_timeout (ch_policy c)) then Failed
        else Recovering
      else if TimedOut now (ch_last_seen c) (heartbeat_timeout (ch_policy c)) \<or>
        TimedOut now (ch_last_progress c) (no_progress_timeout (ch_policy c)) then Failed
      else if ch_backlog c > max_backlog (ch_policy c) \<or>
        ch_deadline_misses c > max_deadline_misses (ch_policy c) then Degraded
      else if ch_state c = Degraded then Running else ch_state c)"
  by (simp add: evaluate_component_def Let_def)

lemma probe_lookup:
  assumes "distinct (map fst cs)" "map_of cs name = Some c"
  shows "map_of (map (\<lambda>(name, c). (name, f c)) (filter (\<lambda>(name, c). P c) cs)) name =
    (if P c then Some (f c) else None)"
  using assms
proof (induction cs)
  case (Cons kc cs)
  obtain k d where kc: "kc = (k, d)" by fastforce
  show ?case
  proof (cases "k = name")
    case True
    then have "name \<notin> fst ` set cs" using Cons.prems(1) by (auto simp: kc)
    then have "map_of (map (\<lambda>(name, c). (name, f c)) (filter (\<lambda>(name, c). P c) cs)) name = None"
      by (force simp: map_of_eq_None_iff)
    with True Cons.prems(2) show ?thesis by (simp add: kc)
  next
    case False
    then show ?thesis using Cons by (simp add: kc)
  qed
qed simp

text \<open>C10: one evaluation decides exactly by the policy. A component fails if and only if it had
  failed, its process is gone, its recovery took too long, or (when it is not recovering) its
  heartbeat or its progress is overdue; otherwise it is degraded if and only if it is not recovering
  and its backlog or its deadline misses exceed the policy.\<close>

theorem evaluate_decides_by_policy:
  assumes "hm_init s0" "hm_step\<^sup>*\<^sup>* s0 s" "map_of (hm_components (hs_monitor s)) name = Some c"
    and "Evaluate process_probe now (hs_monitor s) = (ts, m')"
  shows "\<exists>c'. map_of (hm_components m') name = Some c' \<and>
    (ch_state c' = Failed \<longleftrightarrow> ch_state c = Failed \<or>
       (ch_process_id c > 0 \<and> process_probe (ch_process_id c) \<noteq> Some True) \<or>
       (if ch_state c = Recovering
        then TimedOut now (ch_last_transition c) (recovery_timeout (ch_policy c))
        else TimedOut now (ch_last_seen c) (heartbeat_timeout (ch_policy c)) \<or>
          TimedOut now (ch_last_progress c) (no_progress_timeout (ch_policy c)))) \<and>
    (ch_state c' = Degraded \<longleftrightarrow> ch_state c' \<noteq> Failed \<and> ch_state c \<noteq> Recovering \<and>
       (ch_backlog c > max_backlog (ch_policy c) \<or>
        ch_deadline_misses c > max_deadline_misses (ch_policy c))) \<and>
    (ch_state c' = Recovering \<longleftrightarrow> ch_state c' \<noteq> Failed \<and> ch_state c = Recovering)"
proof -
  let ?m = "hs_monitor s"
  have "distinct (map fst (hm_components ?m))"
    using health_run.reachable_inv [OF assms(1,2)] by (simp add: hm_inv_def table_ok_def)
  then have probe: "map_of (run_probes process_probe (probe_requests ?m)) name =
      (if ch_process_id c > 0 \<and> ch_state c \<noteq> Failed
       then Some \<lparr>probe_process_id = ch_process_id c, probe_generation = ch_generation c,
         probe_alive = (case process_probe (ch_process_id c) of Some alive \<Rightarrow> alive | None \<Rightarrow> False)\<rparr>
       else None)"
    using probe_lookup [OF _ assms(3), of "\<lambda>c. \<lparr>probe_process_id = ch_process_id c,
        probe_generation = ch_generation c, probe_alive = (case process_probe (ch_process_id c) of
          Some alive \<Rightarrow> alive | None \<Rightarrow> False)\<rparr>" "\<lambda>c. ch_process_id c > 0 \<and> ch_state c \<noteq> Failed"]
    by (simp add: run_probes_def probe_requests_def comp_def split_def)
  have "hm_components m' = snd (evaluate_all (run_probes process_probe (probe_requests ?m)) now
      (hm_components ?m))"
    using assms(4) by (auto simp: Evaluate_def Evaluate_apply_def split: prod.splits)
  then have m': "map_of (hm_components m') name =
      Some (snd (evaluate_component (run_probes process_probe (probe_requests ?m)) now name c))"
    by (simp add: evaluate_all_map assms(3))
  have "process_probe pid \<noteq> Some True \<longleftrightarrow>
      \<not> (case process_probe pid of Some alive \<Rightarrow> alive | None \<Rightarrow> False)" for pid
    by (cases "process_probe pid") auto
  then show ?thesis
    unfolding m' by (simp add: evaluate_component_state probe)
qed

text \<open>C9: recovery fences off the old generation. When \<open>Recover\<close> succeeds, whatever other threads did
  while its hooks ran, the component is in state \<open>Starting\<close> with the next generation, a positive
  process identifier and cleared counters, and every report of the old generation is refused and
  changes nothing.\<close>

theorem recovery_fences_old_generation:
  assumes "map_of (hm_components m) name = Some c"
    and "Recover name hooks dl clk now1 now2 meanwhile m = (Inr c', m')"
  shows "ch_generation c' = ch_generation c + 1 \<and> ch_generation c' \<noteq> 0 \<and> ch_state c' = Starting \<and>
    ch_process_id c' > 0 \<and> ch_heartbeat_sequence c' = 0 \<and> ch_backlog c' = 0 \<and>
    map_of (hm_components m') name = Some c' \<and>
    (\<exists>e. code e = StaleGeneration \<and> Heartbeat name (ch_generation c) seq now m' = (e, m') \<and>
      Progress name (ch_generation c) seq now m' = (e, m') \<and>
      ReportBacklog name (ch_generation c) depth m' = (e, m') \<and>
      ReportDeadlineMisses name (ch_generation c) misses m' = (e, m'))"
proof -
  from assms(2) obtain hs p m1 pid where hooks: "hooks = Some hs"
    and b: "Recover_begin name now1 m = (Inr p, m1)" and r: "snd (run_hooks hs dl clk p) = Inr pid"
    and d: "Recover_complete p pid now2 (meanwhile m1) = (Inr c', m')"
    by (auto simp: Recover_def split: option.splits prod.splits sum.splits)
  have p: "plan_name p = name" "plan_old_generation p = ch_generation c"
    "plan_new_generation p = ch_generation c + 1" "plan_new_generation p \<noteq> 0"
    using b assms(1) by (auto simp: Recover_begin_def FindLocked_def Let_def split: if_splits)
  have pid: "pid > 0"
    using r by (auto simp: run_hooks_def Let_def split: if_splits sum.splits)
  have c': "ch_generation c' = plan_new_generation p \<and> ch_state c' = Starting \<and>
      ch_process_id c' = pid \<and> ch_heartbeat_sequence c' = 0 \<and> ch_backlog c' = 0 \<and>
      map_of (hm_components m') name = Some c'"
    using d p(1)
    by (auto simp: Recover_complete_def FindLocked_def Let_def TransitionLocked_def put_component_def
        restarted_component_def update_conv' split: option.splits if_splits)
  have "ch_generation c \<noteq> ch_generation c'" using c' p(3) by simp
  then show ?thesis
    using c' p pid
    by (intro conjI exI [of _ "CheckGenerationLocked c' (ch_generation c)"])
      (auto simp: Heartbeat_def Progress_def ReportBacklog_def ReportDeadlineMisses_def
        with_component_def FindLocked_def CheckGenerationLocked_def)
qed

text \<open>clean-up. The hooks run in the order clean-up of the old generation, start and reconnection
  of the new one; a recovery that fails after the replacement was started, by its deadline or by
  the reconnection, ends with the clean-up of the replacement; one that succeeds never cleans it
  up.\<close>

theorem recovery_cleans_up:
  assumes "plan_old_generation p \<noteq> plan_new_generation p" "run_hooks hooks dl clk p = (calls, res)"
    and "hook_result ''start'' (hook_start hooks (plan_new_generation p)) = Inr pid" "pid > 0"
  shows "hd calls = CallCleanup (plan_old_generation p) \<and>
    (if CallStart (plan_new_generation p) \<in> set calls
     then (case res of
         Inr q \<Rightarrow> q = pid \<and> CallCleanup (plan_new_generation p) \<notin> set calls \<and>
           CallReconnect (plan_new_generation p) = last calls
       | Inl e \<Rightarrow> \<not> ok e \<and> last calls = CallCleanup (plan_new_generation p))
     else (\<exists>e. res = Inl e \<and> \<not> ok e) \<and> calls = [CallCleanup (plan_old_generation p)])"
  using assms(1,2,4) by (auto simp: run_hooks_def Let_def assms(3) split: if_splits)

text \<open>C11: an overtaken recovery abandons its replacement. When an evaluation declares the recovery
  failed while its hooks still run, the hooks go on to start and connect the replacement, \<open>Recover\<close>
  then answers with a stale generation, and no clean-up of the replacement is ever called.\<close>

theorem overtaken_recovery_leaks:
  assumes "Recover_begin name now1 m = (Inr p, m1)" "run_hooks hooks dl clk p = (calls, Inr pid)"
    and "now - now1 > plan_recovery_timeout p" "now > now1"
  shows "\<exists>e. fst (Recover_complete p pid now2 (snd (Evaluate_apply [] now m1))) = Inl e \<and>
    code e = StaleGeneration \<and> CallStart (plan_new_generation p) \<in> set calls \<and>
    CallCleanup (plan_new_generation p) \<notin> set calls"
proof -
  from assms(1) obtain c where c: "map_of (hm_components m) name = Some c"
    "plan_name p = name" "plan_old_generation p = ch_generation c"
    "plan_new_generation p = ch_generation c + 1" "ch_state c = Failed"
    "plan_recovery_timeout p = recovery_timeout (ch_policy c)"
    and m1: "m1 = put_component name (TransitionLocked Recovering (ch_reason c) now1
      ''recovery hooks are running'' (c\<lparr>ch_restart_attempts := ch_restart_attempts c + 1\<rparr>)) m"
    by (auto simp: Recover_begin_def FindLocked_def Let_def split: option.splits if_splits)
  let ?c1 = "snd (TransitionLocked Recovering (ch_reason c) now1 ''recovery hooks are running''
    (c\<lparr>ch_restart_attempts := ch_restart_attempts c + 1\<rparr>))"
  have c1: "map_of (hm_components m1) name = Some ?c1"
    by (simp add: m1 put_component_def update_conv')
  have "ch_last_transition ?c1 = now1" "ch_policy ?c1 = ch_policy c"
    using c(5) by (simp_all add: TransitionLocked_def)
  then have "ch_state (snd (evaluate_component [] now name ?c1)) = Failed"
    using assms(3,4) c(6) by (simp add: evaluate_component_state TimedOut_def)
  moreover have "map_of (hm_components (snd (Evaluate_apply [] now m1))) name =
      Some (snd (evaluate_component [] now name ?c1))"
    by (simp add: Evaluate_apply_def split_def evaluate_all_map c1)
  moreover have "CallStart (plan_new_generation p) \<in> set calls"
    "CallCleanup (plan_new_generation p) \<notin> set calls"
    using assms(2) c(3,4) by (auto simp: run_hooks_def Let_def split: if_splits sum.splits)
  ultimately show ?thesis
    using c(2) by (simp add: Recover_complete_def FindLocked_def)
qed


subsection \<open>Witnesses\<close>

definition demo_policy :: HealthPolicy where
  "demo_policy = \<lparr>heartbeat_timeout = 500, no_progress_timeout = 2000, max_backlog = 16,
     max_deadline_misses = 0, restart_backoff = 100, recovery_timeout = 5000,
     max_restart_attempts = 3\<rparr>"

text \<open>A component that is registered, sends a heartbeat and then falls silent.\<close>

definition demo_registered :: HealthMonitor where
  "demo_registered = snd (Register \<lparr>reg_name = ''camera'', reg_process_id = 42, reg_generation = 1,
     reg_policy = demo_policy\<rparr> 0 HealthMonitor_new)"

definition demo_beating :: HealthMonitor where
  "demo_beating = snd (Heartbeat ''camera'' 1 1 100 demo_registered)"

definition demo_failed :: HealthMonitor where
  "demo_failed = snd (Evaluate (\<lambda>pid. Some True) 1000 demo_beating)"

definition demo_hooks :: RecoveryHooks where
  "demo_hooks = \<lparr>hook_cleanup = (\<lambda>g. HookReturned OkStatus), hook_start = (\<lambda>g. HookReturned (Inr 43)),
     hook_reconnect = (\<lambda>g. HookReturned OkStatus)\<rparr>"

definition demo_recovery_clock :: RecoveryClock where
  "demo_recovery_clock = \<lparr>at_start = 1100, at_backoff_expired = 1101, at_backoff_now = 1102,
     at_restart_expired = 1203, at_restart_now = 1204, at_started_expired = 1205,
     at_started_now = 1206\<rparr>"

definition demo_health :: "HealthMonitor \<Rightarrow> HealthSystem" where
  "demo_health m = \<lparr>hs_monitor = m, hs_recoveries = []\<rparr>"

lemma demo_health_reachable:
  "hm_init (demo_health HealthMonitor_new)"
  "hm_step\<^sup>*\<^sup>* (demo_health HealthMonitor_new) (demo_health demo_beating)"
  "hm_step\<^sup>*\<^sup>* (demo_health HealthMonitor_new) (demo_health demo_failed)"
proof -
  have e: "hs_monitor (demo_health m) = m" "(demo_health m)\<lparr>hs_monitor := m'\<rparr> = demo_health m'" for m m'
    by (simp_all add: demo_health_def)
  show "hm_init (demo_health HealthMonitor_new)" by (simp add: hm_init_def demo_health_def)
  have "hm_step\<^sup>*\<^sup>* (demo_health HealthMonitor_new) (demo_health demo_registered)"
    unfolding demo_registered_def
    using registers [OF surjective_pairing, where s = "demo_health HealthMonitor_new"]
    by (intro r_into_rtranclp) (simp only: e)
  also have "hm_step (demo_health demo_registered) (demo_health demo_beating)"
    unfolding demo_beating_def
    using beats [OF surjective_pairing, where s = "demo_health demo_registered"] by (simp only: e)
  finally show b: "hm_step\<^sup>*\<^sup>* (demo_health HealthMonitor_new) (demo_health demo_beating)" .
  also have "hm_step (demo_health demo_beating) (demo_health demo_failed)"
    unfolding demo_failed_def Evaluate_def
    using evaluates [OF surjective_pairing, where s = "demo_health demo_beating"] by (simp only: e)
  finally show "hm_step\<^sup>*\<^sup>* (demo_health HealthMonitor_new) (demo_health demo_failed)" .
qed

theorem health_audit_trail_witness:
  "\<exists>c. map_of (hm_components demo_failed) ''camera'' = Some c \<and>
     leads Starting (trail ''camera'' (hm_transitions demo_failed)) (ch_state c) \<and>
     map ht_current (hm_transitions demo_failed) = [Running, Failed]"
proof -
  have "map ht_current (hm_transitions demo_failed) = [Running, Failed]" by code_simp
  moreover have "map_of (hm_components demo_failed) ''camera'' \<noteq> None" by code_simp
  then obtain c where "map_of (hm_components demo_failed) ''camera'' = Some c" by blast
  ultimately show ?thesis
    using health_audit_trail [OF demo_health_reachable(1,3), of "''camera''" c]
    by (auto simp: demo_health_def)
qed

theorem evaluate_decides_by_policy_witness:
  "\<exists>c'. map_of (hm_components demo_failed) ''camera'' = Some c' \<and> ch_state c' = Failed"
proof -
  have t: "map_option (\<lambda>c. (ch_state c \<noteq> Recovering, TimedOut 1000 (ch_last_seen c)
      (heartbeat_timeout (ch_policy c)))) (map_of (hm_components demo_beating) ''camera'') =
      Some (True, True)" by code_simp
  then obtain c where c: "map_of (hm_components demo_beating) ''camera'' = Some c"
    "ch_state c \<noteq> Recovering" "TimedOut 1000 (ch_last_seen c) (heartbeat_timeout (ch_policy c))"
    by auto
  show ?thesis
    using evaluate_decides_by_policy [OF demo_health_reachable(1,2), of "''camera''" c
        "\<lambda>pid. Some True" 1000 "fst (Evaluate (\<lambda>pid. Some True) 1000 demo_beating)" demo_failed] c
    by (auto simp: demo_health_def demo_failed_def)
qed

theorem recovery_fences_old_generation_witness:
  "\<exists>c' m'. Recover ''camera'' (Some demo_hooks) Infinite demo_recovery_clock 1100 1300 (\<lambda>m. m) demo_failed =
       (Inr c', m') \<and> ch_generation c' = 2 \<and> fst (Heartbeat ''camera'' 1 5 1400 m') \<noteq> OkStatus"
proof -
  let ?r = "Recover ''camera'' (Some demo_hooks) Infinite demo_recovery_clock 1100 1300 (\<lambda>m. m) demo_failed"
  have "result_ok (fst ?r)" by code_simp
  then obtain c' m' where r: "?r = (Inr c', m')"
    by (metis result_ok_def prod.collapse sum.case_eq_if sum.collapse(2))
  have "map_option ch_generation (map_of (hm_components demo_failed) ''camera'') = Some 1" by code_simp
  then obtain c where c: "map_of (hm_components demo_failed) ''camera'' = Some c" "ch_generation c = 1"
    by auto
  show ?thesis
    using recovery_fences_old_generation [OF c(1) r, of 5 1400 0 0] r c(2) code_OkStatus by auto
qed

theorem recovery_cleans_up_witness:
  "last (fst (run_hooks (demo_hooks\<lparr>hook_reconnect := (\<lambda>g. HookThrewUnknown)\<rparr>) Infinite demo_recovery_clock
     \<lparr>plan_name = ''camera'', plan_old_generation = 1, plan_new_generation = 2, plan_backoff = 100,
      plan_recovery_timeout = 5000\<rparr>)) = CallCleanup 2"
proof -
  let ?h = "demo_hooks\<lparr>hook_reconnect := (\<lambda>g. HookThrewUnknown)\<rparr>"
  let ?p = "\<lparr>plan_name = ''camera'', plan_old_generation = 1, plan_new_generation = 2, plan_backoff = 100,
      plan_recovery_timeout = 5000\<rparr> :: RecoveryPlan"
  have e: "CallStart 2 \<in> set (fst (run_hooks ?h Infinite demo_recovery_clock ?p))"
    "\<not> result_ok (snd (run_hooks ?h Infinite demo_recovery_clock ?p))" by code_simp+
  show ?thesis
    using recovery_cleans_up [of ?p ?h Infinite demo_recovery_clock
        "fst (run_hooks ?h Infinite demo_recovery_clock ?p)"
        "snd (run_hooks ?h Infinite demo_recovery_clock ?p)" 43] e
    by (auto simp: demo_hooks_def result_ok_def split: sum.splits)
qed

theorem overtaken_recovery_leaks_witness:
  "\<exists>p m1. Recover_begin ''camera'' 1100 demo_failed = (Inr p, m1) \<and>
     CallStart 2 \<in> set (fst (run_hooks demo_hooks Infinite demo_recovery_clock p)) \<and>
     CallCleanup 2 \<notin> set (fst (run_hooks demo_hooks Infinite demo_recovery_clock p)) \<and>
     \<not> result_ok (fst (Recover_complete p 43 9100 (snd (Evaluate_apply [] 9000 m1))))"
proof -
  let ?b = "Recover_begin ''camera'' 1100 demo_failed"
  have "result_ok (fst ?b)" by code_simp
  then obtain p m1 where b: "?b = (Inr p, m1)"
    by (metis result_ok_def prod.collapse sum.case_eq_if sum.collapse(2))
  have "(case fst ?b of Inl e \<Rightarrow> False | Inr p \<Rightarrow> plan_new_generation p = 2 \<and>
      plan_recovery_timeout p = 5000 \<and> snd (run_hooks demo_hooks Infinite demo_recovery_clock p) = Inr 43)"
    by code_simp
  then have p: "plan_new_generation p = 2" "plan_recovery_timeout p = 5000"
    "snd (run_hooks demo_hooks Infinite demo_recovery_clock p) = Inr 43" by (simp_all add: b)
  have h: "run_hooks demo_hooks Infinite demo_recovery_clock p =
      (fst (run_hooks demo_hooks Infinite demo_recovery_clock p), Inr 43)" using p(3) by (simp add: prod_eq_iff)
  show ?thesis
    using overtaken_recovery_leaks [OF b h, of 9000 9100] p(1,2) b by (auto simp: result_ok_def)
qed

end
