(* ===== verification/Discovery.thy ===== *)
theory Discovery
  imports Runtime_Core Byte_Codec "HOL-Library.AList" "HOL-Library.Char_ord"
    "HOL-Library.List_Lexorder"
begin

text \<open>
  The discovery service of \<open>discovery.cpp\<close>: announcements on the wire, the table of members with
  their leases, and the generation fences that keep an expired incarnation of a node from coming
  back.

  \<open>pton\<close> stands for \<open>inet_pton\<close> on a C string. Socket calls are arguments: the results of the sends,
  of the receives with the clock reading that follows each, and of the set-up calls. The unordered
  maps are association lists.
\<close>

subsection \<open>Data\<close>

record NetworkEndpoint =
  ep_address :: string
  ep_port :: u16

record MemberRecord =
  mb_node_id :: string
  mb_generation :: u64
  mb_heartbeat_sequence :: u64
  mb_rpc_endpoint :: NetworkEndpoint
  mb_last_seen :: time_point

record DiscoveryStats =
  announcements_sent :: u64
  announcements_received :: u64
  parse_errors :: u64
  stale_announcements :: u64
  duplicate_announcements :: u64
  generation_fence_rejections :: u64
  expired_members :: u64
  generation_fences_created :: u64
  generation_fences_expired :: u64
  generation_fence_evictions :: u64
  capacity_drops :: u64
  send_failures :: u64

definition zero_discovery_stats :: DiscoveryStats where
  "zero_discovery_stats =
     \<lparr>announcements_sent = 0, announcements_received = 0, parse_errors = 0, stale_announcements = 0,
      duplicate_announcements = 0, generation_fence_rejections = 0, expired_members = 0,
      generation_fences_created = 0, generation_fences_expired = 0, generation_fence_evictions = 0,
      capacity_drops = 0, send_failures = 0\<rparr>"

record DiscoveryConfig =
  dc_node_id :: string
  dc_generation :: u64
  dc_bind_endpoint :: NetworkEndpoint
  dc_advertised_rpc_endpoint :: NetworkEndpoint
  dc_peers :: "NetworkEndpoint list"
  dc_heartbeat_period :: duration
  dc_lease_timeout :: duration
  dc_generation_fence_timeout :: duration
  dc_max_members :: nat
  dc_max_peers :: nat
  dc_max_generation_fences :: nat

record Announcement =
  an_node_id :: string
  an_generation :: u64
  an_sequence :: u64
  an_rpc_endpoint :: NetworkEndpoint

record GenerationFence =
  gf_generation :: u64
  gf_expires_at :: time_point

record Discovery =
  ds_config :: DiscoveryConfig
  ds_local_endpoint :: NetworkEndpoint
  ds_peers :: "NetworkEndpoint list"
  ds_members :: "(string \<times> MemberRecord) list"
  ds_fences :: "(string \<times> GenerationFence) list"
  ds_stats :: DiscoveryStats
  ds_next_sequence :: u64
  ds_running :: bool


subsection \<open>Addresses\<close>

definition c_str :: "string \<Rightarrow> string" where
  "c_str s = takeWhile (\<lambda>c. c \<noteq> CHR 0x00) s"

definition ParseIpv4 :: "(string \<Rightarrow> u32 option) \<Rightarrow> string \<Rightarrow> u32 option" where
  "ParseIpv4 pton address = pton (c_str address)"

text \<open>The socket address is the parsed address with the port.\<close>

definition SocketAddress ::
    "(string \<Rightarrow> u32 option) \<Rightarrow> NetworkEndpoint \<Rightarrow> bool \<Rightarrow> (u32 \<times> u16) Result" where
  "SocketAddress pton ep allow_zero_port =
     (if ep_address ep = [] \<or> (\<not> allow_zero_port \<and> ep_port ep = 0)
      then Inl (mk_status InvalidArgument ''IPv4 endpoint requires address and port'')
      else case ParseIpv4 pton (ep_address ep) of
        None \<Rightarrow> Inl (mk_status InvalidArgument ''only numeric IPv4 endpoints are supported'')
      | Some a \<Rightarrow> Inr (a, ep_port ep))"

definition NetworkError :: "string \<Rightarrow> string \<Rightarrow> Status" where
  "NetworkError operation err = mk_status TransportError (operation @ '': '' @ err)"


subsection \<open>Announcements on the wire\<close>

definition kDiscoveryMagic :: bytes where
  "kDiscoveryMagic = bytes_of_string ''ARD1''"

definition kDiscoveryVersion :: u8 where
  "kDiscoveryVersion = 1"

definition kFixedAnnouncementBytes :: nat where
  "kFixedAnnouncementBytes = 26"

definition kMaximumIdentityBytes :: nat where
  "kMaximumIdentityBytes = 63"

definition kMaximumDatagramBytes :: nat where
  "kMaximumDatagramBytes = 512"

definition BuildAnnouncement :: "DiscoveryConfig \<Rightarrow> u64 \<Rightarrow> bytes" where
  "BuildAnnouncement config seq =
     (let node = bytes_of_string (dc_node_id config);
          address = bytes_of_string (ep_address (dc_advertised_rpc_endpoint config));
          node_length = of_nat (length node) :: u8; address_length = of_nat (length address) :: u8;
          packet = replicate (kFixedAnnouncementBytes + unat node_length + unat address_length) 0;
          packet = write_at packet 0 kDiscoveryMagic;
          packet = packet[4 := kDiscoveryVersion, 5 := node_length, 6 := address_length];
          packet = StoreU64 packet 8 (dc_generation config);
          packet = StoreU64 packet 16 seq;
          packet = StoreU16 packet 24 (ep_port (dc_advertised_rpc_endpoint config));
          packet = write_at packet kFixedAnnouncementBytes node in
      write_at packet (kFixedAnnouncementBytes + unat node_length) address)"

definition ParseAnnouncement :: "(string \<Rightarrow> u32 option) \<Rightarrow> bytes \<Rightarrow> Announcement option" where
  "ParseAnnouncement pton data =
     (if length data < kFixedAnnouncementBytes \<or> take 4 data \<noteq> kDiscoveryMagic \<or>
        data ! 4 \<noteq> kDiscoveryVersion
      then None
      else let node_length = unat (data ! 5); address_length = unat (data ! 6) in
        if node_length = 0 \<or> node_length > kMaximumIdentityBytes \<or> address_length = 0 \<or>
          address_length > kMaximumIdentityBytes \<or>
          length data \<noteq> kFixedAnnouncementBytes + node_length + address_length
        then None
        else let a = \<lparr>an_node_id = string_of_bytes (take node_length (drop kFixedAnnouncementBytes data)),
                   an_generation = LoadU64 data 8, an_sequence = LoadU64 data 16,
                   an_rpc_endpoint = \<lparr>ep_address = string_of_bytes (take address_length
                     (drop (kFixedAnnouncementBytes + node_length) data)), ep_port = LoadU16 data 24\<rparr>\<rparr> in
          if an_generation a = 0 \<or> an_sequence a = 0 \<or>
            ParseIpv4 pton (ep_address (an_rpc_endpoint a)) = None
          then None else Some a)"


subsection \<open>Fences\<close>

definition ExpireGenerationFencesLocked :: "time_point \<Rightarrow> Discovery \<Rightarrow> Discovery" where
  "ExpireGenerationFencesLocked observed_at d =
     (let kept = filter (\<lambda>(k, f). \<not> observed_at \<ge> gf_expires_at f) (ds_fences d) in
      d\<lparr>ds_fences := kept, ds_stats := (ds_stats d)\<lparr>generation_fences_expired :=
          generation_fences_expired (ds_stats d) + of_nat (length (ds_fences d) - length kept)\<rparr>\<rparr>)"

text \<open>\<open>std::min_element\<close>: the first fence with the earliest expiry.\<close>

fun oldest_fence :: "string \<times> GenerationFence \<Rightarrow> (string \<times> GenerationFence) list \<Rightarrow> string \<times> GenerationFence" where
  "oldest_fence best [] = best"
| "oldest_fence best (f # fs) =
     oldest_fence (if gf_expires_at (snd f) < gf_expires_at (snd best) then f else best) fs"

definition evict_fence :: "Discovery \<Rightarrow> Discovery" where
  "evict_fence d =
     (if length (ds_fences d) \<ge> dc_max_generation_fences (ds_config d)
      then case ds_fences d of
        [] \<Rightarrow> d
      | f # fs \<Rightarrow> d\<lparr>ds_fences := AList.delete (fst (oldest_fence f fs)) (ds_fences d),
          ds_stats := (ds_stats d)\<lparr>generation_fence_evictions :=
            generation_fence_evictions (ds_stats d) + 1\<rparr>\<rparr>
      else d)"

definition RememberGenerationFenceLocked :: "MemberRecord \<Rightarrow> time_point \<Rightarrow> Discovery \<Rightarrow> Discovery" where
  "RememberGenerationFenceLocked member observed_at d =
     (let expires_at = observed_at + dc_generation_fence_timeout (ds_config d) in
      case map_of (ds_fences d) (mb_node_id member) of
        Some f \<Rightarrow> d\<lparr>ds_fences := AList.update (mb_node_id member)
          \<lparr>gf_generation = max (gf_generation f) (mb_generation member),
           gf_expires_at = expires_at\<rparr> (ds_fences d)\<rparr>
      | None \<Rightarrow>
        let d = evict_fence d in
        d\<lparr>ds_fences := AList.update (mb_node_id member)
            \<lparr>gf_generation = mb_generation member, gf_expires_at = expires_at\<rparr> (ds_fences d),
          ds_stats := (ds_stats d)\<lparr>generation_fences_created :=
            generation_fences_created (ds_stats d) + 1\<rparr>\<rparr>)"


subsection \<open>Sending announcements\<close>

text \<open>The first critical section takes the peers and a sequence number, the second counts the
  results. \<open>sendto\<close> is the result of the send with the given number.\<close>

definition SendAnnouncement_begin :: "Discovery \<Rightarrow> NetworkEndpoint list \<times> u64 \<times> Discovery" where
  "SendAnnouncement_begin d =
     (ds_peers d, ds_next_sequence d, d\<lparr>ds_next_sequence := ds_next_sequence d + 1\<rparr>)"

fun send_loop ::
    "(string \<Rightarrow> u32 option) \<Rightarrow> (nat \<Rightarrow> u32 \<times> u16 \<Rightarrow> bytes \<Rightarrow> int) \<Rightarrow> bytes \<Rightarrow> nat \<Rightarrow> NetworkEndpoint list \<Rightarrow>
       u64 \<times> u64 \<Rightarrow> u64 \<times> u64" where
  "send_loop pton sendto packet i [] (sent, failed) = (sent, failed)"
| "send_loop pton sendto packet i (peer # rest) (sent, failed) =
     send_loop pton sendto packet (Suc i) rest
       (case SocketAddress pton peer False of
          Inl _ \<Rightarrow> (sent, failed + 1)
        | Inr address \<Rightarrow>
            let result = sendto i address packet in
            if result \<ge> 0 \<and> nat result = length packet then (sent + 1, failed)
            else (sent, failed + 1))"

definition SendAnnouncement_end :: "u64 \<Rightarrow> u64 \<Rightarrow> Discovery \<Rightarrow> Discovery" where
  "SendAnnouncement_end sent failed d =
     d\<lparr>ds_stats := (ds_stats d)\<lparr>announcements_sent := announcements_sent (ds_stats d) + sent,
         send_failures := send_failures (ds_stats d) + failed\<rparr>\<rparr>"

definition SendAnnouncement ::
    "(string \<Rightarrow> u32 option) \<Rightarrow> (nat \<Rightarrow> u32 \<times> u16 \<Rightarrow> bytes \<Rightarrow> int) \<Rightarrow> Discovery \<Rightarrow> Discovery" where
  "SendAnnouncement pton sendto d =
     (case SendAnnouncement_begin d of (peers, seq, d1) \<Rightarrow>
      case send_loop pton sendto (BuildAnnouncement (ds_config d) seq) 0 peers (0, 0) of
        (sent, failed) \<Rightarrow> SendAnnouncement_end sent failed d1)"


subsection \<open>Receiving announcements\<close>

definition Accept :: "Announcement \<Rightarrow> time_point \<Rightarrow> Discovery \<Rightarrow> Discovery" where
  "Accept a observed_at d =
     (if an_node_id a = dc_node_id (ds_config d) then d
      else
        let d = d\<lparr>ds_stats := (ds_stats d)\<lparr>announcements_received :=
              announcements_received (ds_stats d) + 1\<rparr>\<rparr>;
            d = ExpireGenerationFencesLocked observed_at d in
        case map_of (ds_members d) (an_node_id a) of
          None \<Rightarrow>
            (let fence = map_of (ds_fences d) (an_node_id a) in
             if (case fence of Some f \<Rightarrow> an_generation a \<le> gf_generation f | None \<Rightarrow> False)
             then d\<lparr>ds_stats := (ds_stats d)\<lparr>stale_announcements := stale_announcements (ds_stats d) + 1,
                 generation_fence_rejections := generation_fence_rejections (ds_stats d) + 1\<rparr>\<rparr>
             else if length (ds_members d) \<ge> dc_max_members (ds_config d)
             then d\<lparr>ds_stats := (ds_stats d)\<lparr>capacity_drops := capacity_drops (ds_stats d) + 1\<rparr>\<rparr>
             else
               let d = d\<lparr>ds_members := AList.update (an_node_id a)
                     \<lparr>mb_node_id = an_node_id a, mb_generation = an_generation a,
                      mb_heartbeat_sequence = an_sequence a, mb_rpc_endpoint = an_rpc_endpoint a,
                      mb_last_seen = observed_at\<rparr> (ds_members d)\<rparr> in
               if fence \<noteq> None then d\<lparr>ds_fences := AList.delete (an_node_id a) (ds_fences d)\<rparr> else d)
        | Some member \<Rightarrow>
            if an_generation a < mb_generation member
            then d\<lparr>ds_stats := (ds_stats d)\<lparr>stale_announcements := stale_announcements (ds_stats d) + 1\<rparr>\<rparr>
            else if an_generation a = mb_generation member \<and>
              an_sequence a \<le> mb_heartbeat_sequence member
            then d\<lparr>ds_stats := (ds_stats d)\<lparr>duplicate_announcements :=
                duplicate_announcements (ds_stats d) + 1\<rparr>\<rparr>
            else d\<lparr>ds_members := AList.update (an_node_id a)
                (member\<lparr>mb_generation := an_generation a, mb_heartbeat_sequence := an_sequence a,
                   mb_rpc_endpoint := an_rpc_endpoint a, mb_last_seen := observed_at\<rparr>) (ds_members d)\<rparr>)"

definition count_parse_error :: "Discovery \<Rightarrow> Discovery" where
  "count_parse_error d = d\<lparr>ds_stats := (ds_stats d)\<lparr>parse_errors := parse_errors (ds_stats d) + 1\<rparr>\<rparr>"

text \<open>The results of the calls of \<open>recvfrom\<close>, in order: a datagram (cut to the size of the buffer)
  with the clock reading that follows it, or one of the errors. The loop runs until it returns; a
  list that ends before is the part of the loop done so far.\<close>

datatype RecvResult = Datagram bytes time_point | RecvWouldBlock | RecvInterrupted | RecvFailed

fun ReceiveAnnouncements :: "(string \<Rightarrow> u32 option) \<Rightarrow> RecvResult list \<Rightarrow> Discovery \<Rightarrow> Discovery" where
  "ReceiveAnnouncements pton [] d = d"
| "ReceiveAnnouncements pton (RecvWouldBlock # rs) d = d"
| "ReceiveAnnouncements pton (RecvInterrupted # rs) d = ReceiveAnnouncements pton rs d"
| "ReceiveAnnouncements pton (RecvFailed # rs) d = count_parse_error d"
| "ReceiveAnnouncements pton (Datagram data now # rs) d =
     ReceiveAnnouncements pton rs
       (case ParseAnnouncement pton (take kMaximumDatagramBytes data) of
          None \<Rightarrow> count_parse_error d
        | Some a \<Rightarrow> Accept a now d)"


subsection \<open>Leases\<close>

fun expire_loop :: "time_point \<Rightarrow> (string \<times> MemberRecord) list \<Rightarrow> Discovery \<Rightarrow> Discovery" where
  "expire_loop observed_at [] d = d"
| "expire_loop observed_at ((key, member) # rest) d =
     expire_loop observed_at rest
       (if observed_at - mb_last_seen member > dc_lease_timeout (ds_config d)
        then let d = RememberGenerationFenceLocked member observed_at d in
          d\<lparr>ds_members := AList.delete key (ds_members d),
            ds_stats := (ds_stats d)\<lparr>expired_members := expired_members (ds_stats d) + 1\<rparr>\<rparr>
        else d)"

definition ExpireMembers :: "time_point \<Rightarrow> Discovery \<Rightarrow> Discovery" where
  "ExpireMembers observed_at d =
     (let d = ExpireGenerationFencesLocked observed_at d in expire_loop observed_at (ds_members d) d)"


subsection \<open>The worker\<close>

datatype PollResult = PollReady | PollOtherEvents | PollTimeout | PollInterrupted | PollFailed

definition Run_turn ::
    "(string \<Rightarrow> u32 option) \<Rightarrow> (nat \<Rightarrow> u32 \<times> u16 \<Rightarrow> bytes \<Rightarrow> int) \<Rightarrow> time_point \<Rightarrow> PollResult \<Rightarrow> RecvResult list \<Rightarrow>
       time_point \<Rightarrow> time_point \<times> Discovery \<Rightarrow> time_point \<times> Discovery" where
  "Run_turn pton sendto now poll_result received now2 st =
     (case st of (next_heartbeat, d) \<Rightarrow>
      let (next_heartbeat, d) =
            (if now \<ge> next_heartbeat
             then (now + dc_heartbeat_period (ds_config d), SendAnnouncement pton sendto d)
             else (next_heartbeat, d));
          d = (case poll_result of
                 PollReady \<Rightarrow> ReceiveAnnouncements pton received d
               | PollFailed \<Rightarrow> count_parse_error d
               | _ \<Rightarrow> d) in
      (next_heartbeat, ExpireMembers now2 d))"


subsection \<open>The service\<close>

text \<open>The set-up calls of \<open>Create\<close>: the text of the error of the ones that fail, and the port
  \<open>getsockname\<close> reports. The calls made are returned beside the result.\<close>

record SocketCalls =
  call_socket :: "string option"
  call_bind :: "string option"
  call_fcntl :: "string option"
  call_getsockname :: "string + u16"

datatype SocketCall = MadeSocket | MadeBind | MadeFcntl | MadeGetsockname | MadeClose

definition discovery_config_valid :: "DiscoveryConfig \<Rightarrow> bool" where
  "discovery_config_valid config \<longleftrightarrow>
     \<not> (dc_node_id config = [] \<or> length (dc_node_id config) > kMaximumIdentityBytes \<or>
       dc_generation config = 0 \<or> ep_address (dc_advertised_rpc_endpoint config) = [] \<or>
       length (ep_address (dc_advertised_rpc_endpoint config)) > kMaximumIdentityBytes \<or>
       dc_heartbeat_period config \<le> 0 \<or> dc_lease_timeout config \<le> dc_heartbeat_period config \<or>
       dc_generation_fence_timeout config < dc_lease_timeout config \<or> dc_max_members config = 0 \<or>
       dc_max_peers config = 0 \<or> dc_max_generation_fences config = 0 \<or>
       length (dc_peers config) > dc_max_peers config)"

fun check_peers :: "(string \<Rightarrow> u32 option) \<Rightarrow> NetworkEndpoint list \<Rightarrow> Status option" where
  "check_peers pton [] = None"
| "check_peers pton (peer # rest) =
     (case SocketAddress pton peer False of Inl e \<Rightarrow> Some e | Inr _ \<Rightarrow> check_peers pton rest)"

definition Discovery_Create ::
    "(string \<Rightarrow> u32 option) \<Rightarrow> SocketCalls \<Rightarrow> DiscoveryConfig \<Rightarrow> Discovery Result \<times> SocketCall list" where
  "Discovery_Create pton calls config =
     (if \<not> discovery_config_valid config
      then (Inl (mk_status InvalidArgument ''invalid discovery configuration''), [])
      else if ParseIpv4 pton (ep_address (dc_advertised_rpc_endpoint config)) = None
      then (Inl (mk_status InvalidArgument ''advertised RPC endpoint must be numeric IPv4''), [])
      else case SocketAddress pton (dc_bind_endpoint config) True of
        Inl e \<Rightarrow> (Inl e, [])
      | Inr _ \<Rightarrow>
      case check_peers pton (dc_peers config) of
        Some e \<Rightarrow> (Inl e, [])
      | None \<Rightarrow>
      case call_socket calls of
        Some err \<Rightarrow> (Inl (NetworkError ''socket(discovery)'' err), [MadeSocket])
      | None \<Rightarrow>
      case call_bind calls of
        Some err \<Rightarrow> (Inl (NetworkError ''bind(discovery)'' err), [MadeSocket, MadeBind, MadeClose])
      | None \<Rightarrow>
      case call_fcntl calls of
        Some err \<Rightarrow>
          (Inl (NetworkError ''fcntl(O_NONBLOCK)'' err), [MadeSocket, MadeBind, MadeFcntl, MadeClose])
      | None \<Rightarrow>
      case call_getsockname calls of
        Inl err \<Rightarrow> (Inl (NetworkError ''getsockname(discovery)'' err),
          [MadeSocket, MadeBind, MadeFcntl, MadeGetsockname, MadeClose])
      | Inr port \<Rightarrow>
          (Inr \<lparr>ds_config = config,
             ds_local_endpoint = \<lparr>ep_address = ep_address (dc_bind_endpoint config), ep_port = port\<rparr>,
             ds_peers = dc_peers config, ds_members = [], ds_fences = [],
             ds_stats = zero_discovery_stats, ds_next_sequence = 1, ds_running = False\<rparr>,
           [MadeSocket, MadeBind, MadeFcntl, MadeGetsockname]))"

definition AddPeer ::
    "(string \<Rightarrow> u32 option) \<Rightarrow> NetworkEndpoint \<Rightarrow> Discovery \<Rightarrow> Status \<times> Discovery" where
  "AddPeer pton peer d =
     (case SocketAddress pton peer False of
        Inl e \<Rightarrow> (e, d)
      | Inr _ \<Rightarrow>
          if peer \<in> set (ds_peers d)
          then (mk_status AlreadyExists ''discovery peer already exists'', d)
          else if length (ds_peers d) \<ge> dc_max_peers (ds_config d)
          then (mk_status QueueFull ''discovery peer capacity reached'', d)
          else (OkStatus, d\<lparr>ds_peers := ds_peers d @ [peer]\<rparr>))"

definition Discovery_Start :: "Discovery \<Rightarrow> Status \<times> Discovery" where
  "Discovery_Start d =
     (if ds_running d then (mk_status AlreadyExists ''discovery service is already running'', d)
      else (OkStatus, d\<lparr>ds_running := True\<rparr>))"

definition Discovery_Stop :: "Discovery \<Rightarrow> Status \<times> Discovery" where
  "Discovery_Stop d = (OkStatus, d\<lparr>ds_running := False\<rparr>)"

definition Members :: "Discovery \<Rightarrow> MemberRecord list" where
  "Members d = sort_key mb_node_id (map snd (ds_members d))"

definition Discovery_Find :: "string \<Rightarrow> Discovery \<Rightarrow> MemberRecord Result" where
  "Discovery_Find node_id d =
     (case map_of (ds_members d) node_id of
        None \<Rightarrow> Inl (mk_status NotFound ''discovery member was not found'')
      | Some member \<Rightarrow> Inr member)"


section \<open>The wire format\<close>

lemma write_at_split:
  "offset = length pre \<Longrightarrow> length old = length field \<Longrightarrow>
     write_at (pre @ old @ post) offset field = pre @ field @ post"
  by (simp add: write_at_def)

definition announcement_layout :: "u8 \<Rightarrow> u64 \<Rightarrow> u64 \<Rightarrow> u16 \<Rightarrow> string \<Rightarrow> string \<Rightarrow> bytes" where
  "announcement_layout reserved generation seq port node address =
     (kDiscoveryMagic @ [kDiscoveryVersion, of_nat (length node), of_nat (length address), reserved]) @
     be64 generation @ be64 seq @ be16 port @ bytes_of_string node @ bytes_of_string address"

lemma length_be_fields [simp]:
  "length (be64 x) = 8" "length (be16 y) = 2" "length kDiscoveryMagic = 4"
  by (simp_all add: be64_def be16_def kDiscoveryMagic_def bytes_of_string_def)

lemma unat_of_nat_byte: "n < 256 \<Longrightarrow> unat (of_nat n :: u8) = n"
  by (simp add: unat_of_nat)

lemma BuildAnnouncement_layout:
  assumes "length (dc_node_id c) < 256" "length (ep_address (dc_advertised_rpc_endpoint c)) < 256"
  shows "BuildAnnouncement c seq = announcement_layout 0 (dc_generation c) seq
    (ep_port (dc_advertised_rpc_endpoint c)) (dc_node_id c) (ep_address (dc_advertised_rpc_endpoint c))"
proof -
  define node address where "node = bytes_of_string (dc_node_id c)"
    and "address = bytes_of_string (ep_address (dc_advertised_rpc_endpoint c))"
  have len: "length node = length (dc_node_id c)"
    "length address = length (ep_address (dc_advertised_rpc_endpoint c))"
    by (simp_all add: node_def address_def bytes_of_string_def)
  let ?n = "of_nat (length node) :: u8" and ?a = "of_nat (length address) :: u8"
  let ?head = "kDiscoveryMagic @ [kDiscoveryVersion, ?n, ?a, 0]"
  let ?z = "\<lambda>k. replicate k (0 :: u8)"
  have n: "unat ?n = length node" and a: "unat ?a = length address"
    using assms by (simp_all add: len unat_of_nat_byte)
  have zeros: "?z (26 + length node + length address) =
      ?z 4 @ [0, 0, 0, 0] @ ?z 8 @ ?z 8 @ ?z 2 @ ?z (length node) @ ?z (length address)"
    by (simp add: replicate_add numeral_eq_Suc)
  let ?body = "?z 8 @ ?z 8 @ ?z 2 @ ?z (length node) @ ?z (length address)"
  have 1: "write_at (?z 4 @ [0, 0, 0, 0] @ ?body) 0 kDiscoveryMagic =
      kDiscoveryMagic @ [0, 0, 0, 0] @ ?body"
    using write_at_split [of 0 "[]" "?z 4"] by simp
  have 2: "(kDiscoveryMagic @ [0, 0, 0, 0] @ ?body)[4 := kDiscoveryVersion, 5 := ?n, 6 := ?a] =
      ?head @ ?body"
    by (simp add: list_update_append)
  have 3: "StoreU64 (?head @ ?body) 8 g = ?head @ be64 g @ ?z 8 @ ?z 2 @ ?z (length node) @
      ?z (length address)" for g
    unfolding StoreU64_def by (rule write_at_split) simp_all
  have 4: "StoreU64 (?head @ be64 g @ ?z 8 @ ?z 2 @ ?z (length node) @ ?z (length address)) 16 s =
      (?head @ be64 g) @ be64 s @ ?z 2 @ ?z (length node) @ ?z (length address)" for g s
    using write_at_split [of 16 "?head @ be64 g" "?z 8" "be64 s"] by (simp add: StoreU64_def)
  have 5: "StoreU16 ((?head @ be64 g) @ be64 s @ ?z 2 @ ?z (length node) @ ?z (length address)) 24 p =
      (?head @ be64 g @ be64 s) @ be16 p @ ?z (length node) @ ?z (length address)" for g s p
    using write_at_split [of 24 "?head @ be64 g @ be64 s" "?z 2" "be16 p"] by (simp add: StoreU16_def)
  have 6: "write_at ((?head @ be64 g @ be64 s) @ be16 p @ ?z (length node) @ ?z (length address)) 26 node =
      (?head @ be64 g @ be64 s @ be16 p) @ node @ ?z (length address)" for g s p
    using write_at_split [of 26 "?head @ be64 g @ be64 s @ be16 p" "?z (length node)" node] by simp
  have 7: "write_at ((?head @ be64 g @ be64 s @ be16 p) @ node @ ?z (length address))
      (26 + length node) address = (?head @ be64 g @ be64 s @ be16 p @ node) @ address" for g s p
    using write_at_split [of "26 + length node" "?head @ be64 g @ be64 s @ be16 p @ node"
      "?z (length address)" address "[]"] by simp
  have "BuildAnnouncement c seq = (?head @ be64 (dc_generation c) @ be64 seq @
      be16 (ep_port (dc_advertised_rpc_endpoint c)) @ node) @ address"
    unfolding BuildAnnouncement_def Let_def kFixedAnnouncementBytes_def node_def[symmetric]
      address_def[symmetric] n a zeros 1 2 3 4 5 6 7 ..
  then show ?thesis
    by (simp add: announcement_layout_def node_def address_def len bytes_of_string_def)
qed


definition announcement_ok :: "(string \<Rightarrow> u32 option) \<Rightarrow> Announcement \<Rightarrow> bool" where
  "announcement_ok pton a \<longleftrightarrow>
     an_node_id a \<noteq> [] \<and> length (an_node_id a) \<le> 63 \<and> ep_address (an_rpc_endpoint a) \<noteq> [] \<and>
     length (ep_address (an_rpc_endpoint a)) \<le> 63 \<and> an_generation a \<noteq> 0 \<and> an_sequence a \<noteq> 0 \<and>
     ParseIpv4 pton (ep_address (an_rpc_endpoint a)) \<noteq> None"

definition layout_of :: "u8 \<Rightarrow> Announcement \<Rightarrow> bytes" where
  "layout_of reserved a = announcement_layout reserved (an_generation a) (an_sequence a)
     (ep_port (an_rpc_endpoint a)) (an_node_id a) (ep_address (an_rpc_endpoint a))"

lemma ParseAnnouncement_layout:
  assumes "announcement_ok pton a"
  shows "ParseAnnouncement pton (layout_of reserved a) = Some a"
proof -
  let ?n = "length (an_node_id a)" and ?m = "length (ep_address (an_rpc_endpoint a))"
  let ?head = "kDiscoveryMagic @ [kDiscoveryVersion, of_nat ?n :: u8, of_nat ?m, reserved]"
  let ?g = "be64 (an_generation a)" and ?s = "be64 (an_sequence a)"
    and ?p = "be16 (ep_port (an_rpc_endpoint a))"
    and ?tail = "bytes_of_string (an_node_id a) @ bytes_of_string (ep_address (an_rpc_endpoint a))"
  define data where "data = layout_of reserved a"
  have data: "data = ?head @ ?g @ ?s @ ?p @ ?tail"
    by (simp add: data_def layout_of_def announcement_layout_def)
  have g: "LoadU64 data 8 = an_generation a"
    using u64be.load_enc [of ?head 8 _ "?s @ ?p @ ?tail"] by (simp add: data)
  have s: "LoadU64 data 16 = an_sequence a"
    using u64be.load_enc [of "?head @ ?g" 16 _ "?p @ ?tail"] by (simp add: data)
  have p: "LoadU16 data 24 = ep_port (an_rpc_endpoint a)"
    using u16be.load_enc [of "?head @ ?g @ ?s" 24 _ ?tail] by (simp add: data)
  have head: "length data = 26 + ?n + ?m" "take 4 data = kDiscoveryMagic"
    "data ! 4 = kDiscoveryVersion" "data ! 5 = of_nat ?n" "data ! 6 = of_nat ?m"
    by (simp_all add: data nth_append)
  have tail: "drop 26 data = ?tail"
    by (simp add: data)
  then have "drop ?n (drop 26 data) = bytes_of_string (ep_address (an_rpc_endpoint a))"
    by simp
  then have address: "drop (26 + ?n) data = bytes_of_string (ep_address (an_rpc_endpoint a))"
    by (simp add: add.commute)
  have "unat (of_nat ?n :: u8) = ?n" "unat (of_nat ?m :: u8) = ?m"
    using assms by (simp_all add: announcement_ok_def unat_of_nat_byte)
  then show ?thesis
    using assms
    by (simp add: data_def [symmetric] ParseAnnouncement_def kFixedAnnouncementBytes_def
        kMaximumIdentityBytes_def head g s p tail address Let_def announcement_ok_def)
qed

lemma ParseAnnouncement_SomeE:
  assumes "ParseAnnouncement pton data = Some a"
  shows "announcement_ok pton a" "data = layout_of (data ! 7) a"
proof -
  let ?n = "unat (data ! 5)" and ?m = "unat (data ! 6)"
  note parse = assms [unfolded ParseAnnouncement_def kFixedAnnouncementBytes_def
      kMaximumIdentityBytes_def Let_def]
  from parse have size: "length data = 26 + ?n + ?m" "0 < ?n" "?n \<le> 63" "0 < ?m" "?m \<le> 63"
    and magic: "take 4 data = kDiscoveryMagic" "data ! 4 = kDiscoveryVersion"
    by (auto split: if_splits)
  from parse have a: "a = \<lparr>an_node_id = string_of_bytes (take ?n (drop 26 data)),
      an_generation = LoadU64 data 8, an_sequence = LoadU64 data 16,
      an_rpc_endpoint = \<lparr>ep_address = string_of_bytes (take ?m (drop (26 + ?n) data)),
        ep_port = LoadU16 data 24\<rparr>\<rparr>"
    and valid: "an_generation a \<noteq> 0" "an_sequence a \<noteq> 0"
      "ParseIpv4 pton (ep_address (an_rpc_endpoint a)) \<noteq> None"
    by (auto split: if_splits)
  have lens: "length (an_node_id a) = ?n" "length (ep_address (an_rpc_endpoint a)) = ?m"
    using size by (simp_all add: a string_of_bytes_def)
  show "announcement_ok pton a"
    using valid size lens by (auto simp: announcement_ok_def)
  have fields: "be64 (an_generation a) = take 8 (drop 8 data)" "be64 (an_sequence a) = take 8 (drop 16 data)"
    "be16 (ep_port (an_rpc_endpoint a)) = take 2 (drop 24 data)"
    using size by (simp_all add: a u64be.enc_load u16be.enc_load)
  have "drop 4 data = data ! 4 # data ! 5 # data ! 6 # data ! 7 # drop 8 data"
    using size by (simp add: Cons_nth_drop_Suc numeral_eq_Suc)
  moreover have "drop 8 data = take 8 (drop 8 data) @ take 8 (drop 16 data) @ take 2 (drop 24 data) @
      take ?n (drop 26 data) @ take ?m (drop (26 + ?n) data)"
    using size slice_step [of 8 8 16 data] slice_step [of 16 8 24 data] slice_step [of 24 2 26 data]
      slice_step [of 26 ?n "26 + ?n" data] by simp
  ultimately have "data = (take 4 data @ [data ! 4, data ! 5, data ! 6, data ! 7]) @
      take 8 (drop 8 data) @ take 8 (drop 16 data) @ take 2 (drop 24 data) @
      take ?n (drop 26 data) @ take ?m (drop (26 + ?n) data)"
    by (metis append_take_drop_id append.assoc append_Cons append_Nil)
  then show "data = layout_of (data ! 7) a"
    unfolding layout_of_def announcement_layout_def lens fields magic
    by (simp add: a)
qed


lemma layout_reserved: "(layout_of b a)[7 := b'] = layout_of b' a" "layout_of b a ! 7 = b"
  by (simp_all add: layout_of_def announcement_layout_def list_update_append nth_append)

text \<open>C20: the parser inverts the builder and accepts nothing else. A datagram parses to an announcement
  if and only if the announcement is well-formed and the datagram is, up to the reserved byte, the
  packet that a node with that identity, generation and endpoint builds for that sequence
  number.\<close>

theorem announcement_wire_exact:
  assumes "dc_node_id c = an_node_id a" "dc_generation c = an_generation a"
    "dc_advertised_rpc_endpoint c = an_rpc_endpoint a"
  shows "ParseAnnouncement pton data = Some a \<longleftrightarrow>
    announcement_ok pton a \<and> data[7 := 0] = BuildAnnouncement c (an_sequence a)"
proof (cases "announcement_ok pton a")
  case False
  then show ?thesis using ParseAnnouncement_SomeE(1) by blast
next
  case True
  then have "BuildAnnouncement c (an_sequence a) = layout_of 0 a"
    using assms by (simp add: BuildAnnouncement_layout announcement_ok_def layout_of_def)
  moreover have "data = layout_of (data ! 7) a \<longleftrightarrow> data[7 := 0] = layout_of 0 a"
    by (metis layout_reserved list_update_id list_update_overwrite)
  ultimately show ?thesis
    using True ParseAnnouncement_SomeE(2) ParseAnnouncement_layout by metis
qed

lemma check_peers_None: "check_peers pton ps = None \<longleftrightarrow> (\<forall>p \<in> set ps. \<exists>a. SocketAddress pton p False = Inr a)"
  by (induction ps) (auto split: sum.splits)

lemma Discovery_Create_InrE:
  assumes "fst (Discovery_Create pton calls config) = Inr d"
  shows "discovery_config_valid config" "ParseIpv4 pton (ep_address (dc_advertised_rpc_endpoint config)) \<noteq> None"
    "check_peers pton (dc_peers config) = None" "ds_config d = config" "ds_peers d = dc_peers config"
    "ds_members d = []" "ds_fences d = []" "ds_next_sequence d = 1" "ds_stats d = zero_discovery_stats"
  using assms by (auto simp: Discovery_Create_def split: if_splits sum.splits option.splits)

lemma created_announcement_parses:
  assumes "fst (Discovery_Create pton calls config) = Inr d" "seq \<noteq> 0"
  shows "ParseAnnouncement pton (BuildAnnouncement config seq) =
    Some \<lparr>an_node_id = dc_node_id config, an_generation = dc_generation config, an_sequence = seq,
      an_rpc_endpoint = dc_advertised_rpc_endpoint config\<rparr>" (is "_ = Some ?a")
proof -
  have ok: "announcement_ok pton ?a"
    using Discovery_Create_InrE [OF assms(1)] assms(2)
    by (simp add: discovery_config_valid_def announcement_ok_def kMaximumIdentityBytes_def)
  then have "BuildAnnouncement config seq = layout_of 0 ?a"
    by (simp add: BuildAnnouncement_layout announcement_ok_def layout_of_def)
  with ok show ?thesis by (simp add: ParseAnnouncement_layout)
qed

text \<open>A failed creation keeps no socket: whatever was opened is closed.\<close>

lemma create_leaks_no_socket:
  assumes "Discovery_Create pton calls config = (Inl e, made)"
  shows "MadeSocket \<notin> set made \<or> call_socket calls \<noteq> None \<or> last made = MadeClose"
  using assms by (auto simp: Discovery_Create_def split: if_splits sum.splits option.splits)


section \<open>The member table under all interleavings\<close>

text \<open>Every step is one critical section of the worker or of a client; the label is the clock reading
  it uses, if any.\<close>

inductive disc_step :: "(string \<Rightarrow> u32 option) \<Rightarrow> time_point option \<Rightarrow> Discovery \<Rightarrow> Discovery \<Rightarrow> bool"
  for pton where
  Step_send: "disc_step pton None d (snd (snd (SendAnnouncement_begin d)))"
| Step_sent: "disc_step pton None d (SendAnnouncement_end sent failed d)"
| Step_accept: "ParseAnnouncement pton data = Some a \<Longrightarrow> disc_step pton (Some now) d (Accept a now d)"
| Step_parse_error: "disc_step pton None d (count_parse_error d)"
| Step_expire: "disc_step pton (Some now) d (ExpireMembers now d)"
| Step_add_peer: "disc_step pton None d (snd (AddPeer pton peer d))"
| Step_start: "disc_step pton None d (snd (Discovery_Start d))"
| Step_stop: "disc_step pton None d (snd (Discovery_Stop d))"

definition disc_moves :: "(string \<Rightarrow> u32 option) \<Rightarrow> Discovery \<Rightarrow> Discovery \<Rightarrow> bool" where
  "disc_moves pton d d' \<longleftrightarrow> (\<exists>now. disc_step pton now d d')"

definition disc_init :: "(string \<Rightarrow> u32 option) \<Rightarrow> Discovery \<Rightarrow> bool" where
  "disc_init pton d \<longleftrightarrow> (\<exists>calls. fst (Discovery_Create pton calls (ds_config d)) = Inr d)"

definition keys :: "('k \<times> 'v) list \<Rightarrow> 'k set" where
  "keys xs = fst ` set xs"

lemma keys_simps [simp]:
  "keys (AList.update k v xs) = insert k (keys xs)" "keys (AList.delete k xs) = keys xs - {k}"
  "keys [] = {}"
  using arg_cong [OF delete_keys, of set k xs]
  by (auto simp: keys_def dom_update)

lemma map_of_None_keys: "map_of xs k = None \<longleftrightarrow> k \<notin> keys xs"
  by (simp add: keys_def map_of_eq_None_iff)

lemma keys_intro: "(k, v) \<in> set xs \<Longrightarrow> k \<in> keys xs"
  by (force simp: keys_def)

lemma keys_mono: "set xs \<subseteq> set ys \<Longrightarrow> keys xs \<subseteq> keys ys"
  by (auto simp: keys_def)

definition tables_ok :: "Discovery \<Rightarrow> bool" where
  "tables_ok d \<longleftrightarrow>
     distinct (map fst (ds_members d)) \<and> distinct (map fst (ds_fences d)) \<and>
     keys (ds_members d) \<inter> keys (ds_fences d) = {} \<and>
     dc_node_id (ds_config d) \<notin> keys (ds_members d) \<union> keys (ds_fences d) \<and>
     (\<forall>(k, m) \<in> set (ds_members d). mb_node_id m = k \<and> mb_generation m \<noteq> 0) \<and>
     length (ds_members d) \<le> dc_max_members (ds_config d) \<and>
     length (ds_fences d) \<le> dc_max_generation_fences (ds_config d) \<and>
     0 < dc_max_generation_fences (ds_config d)"

definition disc_inv :: "(string \<Rightarrow> u32 option) \<Rightarrow> Discovery \<Rightarrow> bool" where
  "disc_inv pton d \<longleftrightarrow> tables_ok d \<and> length (ds_peers d) \<le> dc_max_peers (ds_config d) \<and>
     check_peers pton (ds_peers d) = None"

lemma ExpireGenerationFences_frame [simp]:
  "ds_config (ExpireGenerationFencesLocked now d) = ds_config d"
  "ds_members (ExpireGenerationFencesLocked now d) = ds_members d"
  "ds_peers (ExpireGenerationFencesLocked now d) = ds_peers d"
  "ds_fences (ExpireGenerationFencesLocked now d) =
     filter (\<lambda>(k, f). now < gf_expires_at f) (ds_fences d)"
  by (simp_all add: ExpireGenerationFencesLocked_def Let_def not_le)

lemma evict_fence_frame [simp]:
  "ds_config (evict_fence d) = ds_config d" "ds_members (evict_fence d) = ds_members d"
  "ds_peers (evict_fence d) = ds_peers d"
  by (auto simp: evict_fence_def split: list.split)

lemma Remember_frame [simp]:
  "ds_config (RememberGenerationFenceLocked m now d) = ds_config d"
  "ds_members (RememberGenerationFenceLocked m now d) = ds_members d"
  "ds_peers (RememberGenerationFenceLocked m now d) = ds_peers d"
  by (auto simp: RememberGenerationFenceLocked_def Let_def split: option.split)

lemma expire_loop_frame [simp]:
  "ds_config (expire_loop now ms d) = ds_config d" "ds_peers (expire_loop now ms d) = ds_peers d"
  by (induction now ms d rule: expire_loop.induct) (simp_all add: Let_def)

lemma oldest_fence_mem: "oldest_fence f fs \<in> insert f (set fs)"
proof (induction f fs rule: oldest_fence.induct)
  case (2 best f fs)
  then show ?case by (auto split: if_splits)
qed simp

lemma oldest_fence_min:
  "g \<in> insert f (set fs) \<Longrightarrow> gf_expires_at (snd (oldest_fence f fs)) \<le> gf_expires_at (snd g)"
proof (induction f fs arbitrary: g rule: oldest_fence.induct)
  case (2 best f fs)
  let ?b = "if gf_expires_at (snd f) < gf_expires_at (snd best) then f else best"
  have "gf_expires_at (snd ?b) \<le> gf_expires_at (snd f)" "gf_expires_at (snd ?b) \<le> gf_expires_at (snd best)"
    by simp_all
  moreover have "gf_expires_at (snd (oldest_fence ?b fs)) \<le> gf_expires_at (snd ?b)"
    by (rule 2(1)) simp
  moreover have "gf_expires_at (snd (oldest_fence ?b fs)) \<le> gf_expires_at (snd g)" if "g \<in> set fs"
    using that by (intro 2(1)) simp
  ultimately show ?case using 2(2) by (auto simp del: if_split intro: order_trans)
qed simp

lemma length_delete_less:
  "k \<in> fst ` set xs \<Longrightarrow> length (AList.delete k xs) < length xs"
  by (auto simp: AList.delete_eq intro!: length_filter_less)

lemma length_update_le: "length (AList.update k v xs) \<le> Suc (length xs)"
  by (induction xs) auto


text \<open>One expired member: its fence is stored under its key, at most one older fence goes.\<close>

lemma evict_fence_cases:
  assumes "distinct (map fst (ds_fences d))" "0 < dc_max_generation_fences (ds_config d)"
    "length (ds_fences d) \<le> dc_max_generation_fences (ds_config d)"
  shows "length (ds_fences (evict_fence d)) < dc_max_generation_fences (ds_config d)"
    "set (ds_fences (evict_fence d)) \<subseteq> set (ds_fences d)"
    "distinct (map fst (ds_fences (evict_fence d)))"
proof -
  have "fst (oldest_fence f fs) \<in> fst ` set (f # fs)" for f fs
    using oldest_fence_mem [of f fs] by auto
  then have "length (AList.delete (fst (oldest_fence f fs)) (f # fs)) < length (f # fs)" for f fs
    by (rule length_delete_less)
  then show "length (ds_fences (evict_fence d)) < dc_max_generation_fences (ds_config d)"
    using assms(2,3) by (auto simp del: AList.delete_simps simp: evict_fence_def not_le split: list.split
        intro: less_le_trans)
  have "ds_fences (evict_fence d) = ds_fences d \<or> (\<exists>k. ds_fences (evict_fence d) = AList.delete k (ds_fences d))"
    by (auto simp: evict_fence_def split: list.split)
  then show "set (ds_fences (evict_fence d)) \<subseteq> set (ds_fences d)"
    "distinct (map fst (ds_fences (evict_fence d)))"
    using assms(1) distinct_delete [OF assms(1)] by (auto simp: AList.delete_eq)
qed


lemma evict_fence_room: "length (ds_fences d) < dc_max_generation_fences (ds_config d) \<Longrightarrow> evict_fence d = d"
  by (simp add: evict_fence_def)

lemma Remember_fresh:
  assumes "tables_ok d" "mb_node_id m \<notin> keys (ds_fences d)"
    and "d' = RememberGenerationFenceLocked m now d"
  shows "ds_fences d' = AList.update (mb_node_id m) \<lparr>gf_generation = mb_generation m,
       gf_expires_at = now + dc_generation_fence_timeout (ds_config d)\<rparr> (ds_fences (evict_fence d))"
    "length (ds_fences d') \<le> dc_max_generation_fences (ds_config d)"
    "distinct (map fst (ds_fences d'))"
    "keys (ds_fences d') \<subseteq> insert (mb_node_id m) (keys (ds_fences d))"
proof -
  have tab: "distinct (map fst (ds_fences d))" "0 < dc_max_generation_fences (ds_config d)"
    "length (ds_fences d) \<le> dc_max_generation_fences (ds_config d)"
    using assms(1) by (simp_all add: tables_ok_def)
  note ev = evict_fence_cases [OF tab]
  have none: "map_of (ds_fences d) (mb_node_id m) = None"
    using assms(2) by (simp add: map_of_None_keys)
  show d': "ds_fences d' = AList.update (mb_node_id m) \<lparr>gf_generation = mb_generation m,
       gf_expires_at = now + dc_generation_fence_timeout (ds_config d)\<rparr> (ds_fences (evict_fence d))"
    by (simp add: assms(3) RememberGenerationFenceLocked_def none Let_def)
  show "length (ds_fences d') \<le> dc_max_generation_fences (ds_config d)"
    unfolding d' by (rule order_trans [OF length_update_le Suc_leI [OF ev(1)]])
  show "distinct (map fst (ds_fences d'))"
    unfolding d' by (rule distinct_update [OF ev(3)])
  show "keys (ds_fences d') \<subseteq> insert (mb_node_id m) (keys (ds_fences d))"
    using keys_mono [OF ev(2)] unfolding d' by (simp add: subset_insertI2)
qed

text \<open>The expiry of one member, as the loop does it.\<close>

definition expire_one :: "time_point \<Rightarrow> string \<times> MemberRecord \<Rightarrow> Discovery \<Rightarrow> Discovery" where
  "expire_one now km d =
     (if now - mb_last_seen (snd km) > dc_lease_timeout (ds_config d)
      then let d = RememberGenerationFenceLocked (snd km) now d in
        d\<lparr>ds_members := AList.delete (fst km) (ds_members d),
          ds_stats := (ds_stats d)\<lparr>expired_members := expired_members (ds_stats d) + 1\<rparr>\<rparr>
      else d)"

lemma expire_loop_fold: "expire_loop now ms d = fold (expire_one now) ms d"
  by (induction now ms d rule: expire_loop.induct) (simp_all add: expire_one_def)

lemma expire_one_frame [simp]:
  "ds_config (expire_one now km d) = ds_config d" "ds_peers (expire_one now km d) = ds_peers d"
  by (simp_all add: expire_one_def Let_def)

lemma tables_okD:
  assumes "tables_ok d"
  shows "distinct (map fst (ds_members d))" "distinct (map fst (ds_fences d))"
    "k \<in> keys (ds_members d) \<Longrightarrow> k \<notin> keys (ds_fences d)"
    "k \<in> keys (ds_members d) \<Longrightarrow> k \<noteq> dc_node_id (ds_config d)"
    "k \<in> keys (ds_fences d) \<Longrightarrow> k \<noteq> dc_node_id (ds_config d)"
    "(k, m) \<in> set (ds_members d) \<Longrightarrow> mb_node_id m = k"
    "(k, m) \<in> set (ds_members d) \<Longrightarrow> mb_generation m \<noteq> 0"
    "length (ds_members d) \<le> dc_max_members (ds_config d)"
    "length (ds_fences d) \<le> dc_max_generation_fences (ds_config d)"
    "0 < dc_max_generation_fences (ds_config d)"
  using assms by (auto simp: tables_ok_def)

lemma tables_okI:
  assumes "distinct (map fst (ds_members d))" "distinct (map fst (ds_fences d))"
    "\<And>k. k \<in> keys (ds_members d) \<Longrightarrow> k \<notin> keys (ds_fences d)"
    "\<And>k. k \<in> keys (ds_members d) \<Longrightarrow> k \<noteq> dc_node_id (ds_config d)"
    "\<And>k. k \<in> keys (ds_fences d) \<Longrightarrow> k \<noteq> dc_node_id (ds_config d)"
    "\<And>k m. (k, m) \<in> set (ds_members d) \<Longrightarrow> mb_node_id m = k \<and> mb_generation m \<noteq> 0"
    "length (ds_members d) \<le> dc_max_members (ds_config d)"
    "length (ds_fences d) \<le> dc_max_generation_fences (ds_config d)"
    "0 < dc_max_generation_fences (ds_config d)"
  shows "tables_ok d"
  using assms by (auto simp: tables_ok_def)

lemma tables_ok_expire_one:
  assumes "tables_ok d" "km \<in> set (ds_members d)"
  shows "tables_ok (expire_one now km d)"
proof (cases "now - mb_last_seen (snd km) > dc_lease_timeout (ds_config d)")
  case True
  obtain k m where km: "km = (k, m)" by force
  have mem: "k \<in> keys (ds_members d)" using assms(2) by (simp add: km keys_intro)
  note ok = tables_okD [OF assms(1)]
  have id: "mb_node_id m = k"
    using ok(6) assms(2) by (simp add: km)
  then have fresh: "mb_node_id m \<notin> keys (ds_fences d)"
    using ok(3) mem by simp
  note r = Remember_fresh [OF assms(1) fresh refl, of now, unfolded id]
  have left: "set (AList.delete k (ds_members d)) \<subseteq> set (ds_members d)"
    "length (AList.delete k (ds_members d)) \<le> length (ds_members d)"
    by (auto simp: AList.delete_eq)
  have tabs: "ds_members (expire_one now km d) = AList.delete k (ds_members d)"
    "ds_fences (expire_one now km d) = ds_fences (RememberGenerationFenceLocked m now d)"
    using True by (simp_all add: expire_one_def km Let_def)
  show ?thesis
  proof (rule tables_okI; unfold tabs expire_one_frame keys_simps)
    fix k' assume "k' \<in> keys (ds_members d) - {k}"
    then show "k' \<notin> keys (ds_fences (RememberGenerationFenceLocked m now d))"
      "k' \<noteq> dc_node_id (ds_config d)" using ok(3,4) r(4) by blast+
  next
    fix k' assume "k' \<in> keys (ds_fences (RememberGenerationFenceLocked m now d))"
    then show "k' \<noteq> dc_node_id (ds_config d)" using ok(4,5) mem r(4) by blast
  next
    fix k' m' assume "(k', m') \<in> set (AList.delete k (ds_members d))"
    then show "mb_node_id m' = k' \<and> mb_generation m' \<noteq> 0" using ok(6,7) left(1) by blast
  qed (rule distinct_delete [OF ok(1)] r(2,3) ok(10) order_trans [OF left(2) ok(8)])+
qed (use assms in \<open>simp add: expire_one_def\<close>)


lemma fold_expire:
  assumes "tables_ok d" "set ms \<subseteq> set (ds_members d)" "distinct (map fst ms)"
    and base: "P d"
    and step: "\<And>d km. tables_ok d \<Longrightarrow> km \<in> set (ds_members d) \<Longrightarrow> P d \<Longrightarrow> P (expire_one now km d)"
  shows "tables_ok (expire_loop now ms d) \<and> P (expire_loop now ms d)"
  using assms(1-4)
proof (induction ms arbitrary: d)
  case (Cons km ms)
  have km: "km \<in> set (ds_members d)" using Cons.prems(2) by simp
  have "set ms \<subseteq> set (ds_members (expire_one now km d))"
    using Cons.prems(2,3) by (auto simp: expire_one_def Let_def AList.delete_eq image_iff)
  then show ?case
    using Cons.IH [OF tables_ok_expire_one [OF Cons.prems(1) km] _ _ step [OF Cons.prems(1) km Cons.prems(4)]]
      Cons.prems(3) by (simp add: expire_loop_fold)
qed (simp add: expire_loop_fold)

lemma tables_ok_fewer_fences:
  assumes "tables_ok d" "ds_config d' = ds_config d" "ds_members d' = ds_members d"
    and "keys (ds_fences d') \<subseteq> keys (ds_fences d)" "distinct (map fst (ds_fences d'))"
    and "length (ds_fences d') \<le> length (ds_fences d)"
  shows "tables_ok d'"
proof -
  have "keys (ds_members d) \<inter> keys (ds_fences d') = {}"
    "dc_node_id (ds_config d) \<notin> keys (ds_members d) \<union> keys (ds_fences d')"
    using assms(1,4) unfolding tables_ok_def by blast+
  then show ?thesis
    using assms(1,5,6) by (simp add: tables_ok_def assms(2,3))
qed

lemma tables_ok_expire_fences:
  assumes "tables_ok d" shows "tables_ok (ExpireGenerationFencesLocked now d)"
  by (rule tables_ok_fewer_fences [OF assms])
    (simp_all add: keys_mono distinct_map_filter tables_okD(2) [OF assms])

lemma ExpireMembers_rule:
  assumes "tables_ok d" "P (ExpireGenerationFencesLocked now d)"
    and "\<And>d km. tables_ok d \<Longrightarrow> km \<in> set (ds_members d) \<Longrightarrow> P d \<Longrightarrow> P (expire_one now km d)"
  shows "tables_ok (ExpireMembers now d) \<and> P (ExpireMembers now d)"
  unfolding ExpireMembers_def Let_def
  by (rule fold_expire [OF tables_ok_expire_fences [OF assms(1)]])
    (use assms tables_okD(1) [OF assms(1)] in simp_all)


lemma update_existing:
  assumes "map_of xs k = Some v"
  shows "length (AList.update k v' xs) = length xs" "keys (AList.update k v' xs) = keys xs"
proof -
  show "length (AList.update k v' xs) = length xs"
    using assms by (induction xs) (auto split: if_splits)
  show "keys (AList.update k v' xs) = keys xs"
    using assms keys_intro [OF map_of_SomeD [OF assms]] by (simp add: insert_absorb)
qed

lemma set_update_subset: "set (AList.update k v xs) \<subseteq> insert (k, v) (set xs)"
  by (induction xs) auto

lemma tables_ok_put_member:
  assumes "tables_ok d" "k \<noteq> dc_node_id (ds_config d)" "mb_node_id m = k" "mb_generation m \<noteq> 0"
    and "ds_config d' = ds_config d" "ds_members d' = AList.update k m (ds_members d)"
    and "ds_fences d' = AList.delete k (ds_fences d)"
    and "k \<in> keys (ds_members d) \<or> length (ds_members d) < dc_max_members (ds_config d)"
  shows "tables_ok d'"
proof -
  note ok = assms(1) [unfolded tables_ok_def]
  have "length (AList.update k m (ds_members d)) \<le> dc_max_members (ds_config d)"
  proof (cases "k \<in> keys (ds_members d)")
    case True
    then obtain v where "map_of (ds_members d) k = Some v" by (cases "map_of (ds_members d) k") (simp_all add: map_of_None_keys)
    then show ?thesis using ok by (simp add: update_existing)
  next
    case False
    then show ?thesis using assms(8) length_update_le [of k m "ds_members d"] by simp
  qed
  moreover have "length (AList.delete k (ds_fences d)) \<le> length (ds_fences d)"
    by (simp add: AList.delete_eq)
  moreover have "\<forall>(k, m) \<in> set (AList.update k m (ds_members d)). mb_node_id m = k \<and> mb_generation m \<noteq> 0"
    using ok assms(3,4) by (auto dest!: subsetD [OF set_update_subset])
  moreover have "insert k (keys (ds_members d)) \<inter> (keys (ds_fences d) - {k}) = {}"
    "dc_node_id (ds_config d) \<notin> insert k (keys (ds_members d)) \<union> (keys (ds_fences d) - {k})"
    using ok assms(2) by blast+
  ultimately show ?thesis
    using ok by (simp add: tables_ok_def assms(5-7) distinct_update distinct_delete)
qed


definition live :: "time_point \<Rightarrow> (string \<times> GenerationFence) list \<Rightarrow> (string \<times> GenerationFence) list" where
  "live now fs = filter (\<lambda>(k, f). now < gf_expires_at f) fs"

lemma delete_absent: "map_of xs k = None \<Longrightarrow> AList.delete k xs = xs"
  by (simp add: map_of_eq_None_iff)

lemma Accept_cases:
  assumes "tables_ok d"
  obtains (ignored) "ds_members (Accept a now d) = ds_members d"
      "ds_fences (Accept a now d) = ds_fences d \<or> ds_fences (Accept a now d) = live now (ds_fences d)"
  | (stored) m where "an_node_id a \<noteq> dc_node_id (ds_config d)"
      "mb_node_id m = an_node_id a" "mb_generation m = an_generation a"
      "ds_members (Accept a now d) = AList.update (an_node_id a) m (ds_members d)"
      "ds_fences (Accept a now d) = AList.delete (an_node_id a) (live now (ds_fences d))"
      "an_node_id a \<in> keys (ds_members d) \<or> length (ds_members d) < dc_max_members (ds_config d)"
      "\<And>f. map_of (live now (ds_fences d)) (an_node_id a) = Some f \<Longrightarrow> an_node_id a \<notin> keys (ds_members d) \<Longrightarrow>
         gf_generation f < an_generation a"
      "\<And>m0. map_of (ds_members d) (an_node_id a) = Some m0 \<Longrightarrow> mb_generation m0 \<le> an_generation a"
proof -
  let ?k = "an_node_id a"
  let ?d = "ExpireGenerationFencesLocked now
    (d\<lparr>ds_stats := (ds_stats d)\<lparr>announcements_received := announcements_received (ds_stats d) + 1\<rparr>\<rparr>)"
  consider (self) "?k = dc_node_id (ds_config d)"
    | (new) "?k \<noteq> dc_node_id (ds_config d)" "map_of (ds_members d) ?k = None"
    | (known) m0 where "?k \<noteq> dc_node_id (ds_config d)" "map_of (ds_members d) ?k = Some m0"
    by fastforce
  then show thesis
  proof cases
    case self
    then show thesis by (intro ignored) (simp_all add: Accept_def)
  next
    case new
    show thesis
    proof (cases "(case map_of (live now (ds_fences d)) ?k of Some f \<Rightarrow> an_generation a \<le> gf_generation f | None \<Rightarrow> False) \<or>
        dc_max_members (ds_config d) \<le> length (ds_members d)")
      case True
      with new show thesis by (intro ignored) (auto simp: Accept_def Let_def live_def)
    next
      case False
      let ?m = "\<lparr>mb_node_id = ?k, mb_generation = an_generation a, mb_heartbeat_sequence = an_sequence a,
        mb_rpc_endpoint = an_rpc_endpoint a, mb_last_seen = now\<rparr>"
      have "ds_members (Accept a now d) = AList.update ?k ?m (ds_members d)"
        "ds_fences (Accept a now d) = AList.delete ?k (live now (ds_fences d))"
        using new False by (auto simp: Accept_def Let_def live_def delete_absent)
      with new False show thesis by (intro stored [of ?m]) (auto simp: not_le split: option.splits)
    qed
  next
    case known
    have k: "?k \<in> keys (ds_members d)" using known(2) by (auto dest: map_of_SomeD keys_intro)
    show thesis
    proof (cases "an_generation a < mb_generation m0 \<or>
        an_generation a = mb_generation m0 \<and> an_sequence a \<le> mb_heartbeat_sequence m0")
      case True
      with known show thesis by (intro ignored) (auto simp: Accept_def Let_def live_def)
    next
      case False
      let ?m = "m0\<lparr>mb_generation := an_generation a, mb_heartbeat_sequence := an_sequence a,
        mb_rpc_endpoint := an_rpc_endpoint a, mb_last_seen := now\<rparr>"
      have "?k \<notin> keys (live now (ds_fences d))"
        using tables_okD(3) [OF assms k] keys_mono [of "live now (ds_fences d)" "ds_fences d"]
        by (auto simp: live_def)
      moreover have "ds_members (Accept a now d) = AList.update ?k ?m (ds_members d)"
        "ds_fences (Accept a now d) = live now (ds_fences d)"
        using known False by (auto simp: Accept_def Let_def live_def)
      moreover have "mb_node_id m0 = ?k"
        using tables_okD(6) [OF assms map_of_SomeD [OF known(2)]] .
      ultimately show thesis
        using known False k by (intro stored [of ?m]) (auto simp: keys_def)
    qed
  qed
qed

lemma Accept_frame [simp]:
  "ds_config (Accept a now d) = ds_config d" "ds_peers (Accept a now d) = ds_peers d"
  by (simp_all add: Accept_def Let_def split: option.split)

lemma live_fewer:
  assumes "tables_ok d"
  shows "keys (live now (ds_fences d)) \<subseteq> keys (ds_fences d)" "distinct (map fst (live now (ds_fences d)))"
    "length (live now (ds_fences d)) \<le> length (ds_fences d)"
  using tables_okD(2) [OF assms] by (simp_all add: live_def keys_mono distinct_map_filter)

lemma tables_ok_Accept:
  assumes "tables_ok d" "an_generation a \<noteq> 0"
  shows "tables_ok (Accept a now d)"
  using assms(1)
proof (cases rule: Accept_cases [where a = a and now = now])
  case ignored
  then show ?thesis
    using assms(1) live_fewer [OF assms(1)] tables_okD(2) [OF assms(1)]
    by (intro tables_ok_fewer_fences [OF assms(1)]) (auto dest: subsetD [OF live_fewer(1) [OF assms(1)]])
next
  case (stored m)
  have "tables_ok (d\<lparr>ds_fences := live now (ds_fences d)\<rparr>)"
    using live_fewer [OF assms(1)] by (intro tables_ok_fewer_fences [OF assms(1)]) simp_all
  then show ?thesis
    by (rule tables_ok_put_member [where k = "an_node_id a" and m = m]) (use stored assms(2) in simp_all)
qed


lemma tables_ok_frame:
  "tables_ok d \<Longrightarrow> ds_config d' = ds_config d \<Longrightarrow> ds_members d' = ds_members d \<Longrightarrow>
     ds_fences d' = ds_fences d \<Longrightarrow> tables_ok d'"
  by (simp add: tables_ok_def)

lemma client_frames [simp]:
  "ds_config (snd (AddPeer pton peer d)) = ds_config d" "ds_members (snd (AddPeer pton peer d)) = ds_members d"
  "ds_fences (snd (AddPeer pton peer d)) = ds_fences d"
  "ds_config (snd (snd (SendAnnouncement_begin d))) = ds_config d"
  "ds_members (snd (snd (SendAnnouncement_begin d))) = ds_members d"
  "ds_fences (snd (snd (SendAnnouncement_begin d))) = ds_fences d"
  "ds_peers (snd (snd (SendAnnouncement_begin d))) = ds_peers d"
  "ds_config (SendAnnouncement_end s f d) = ds_config d"
  "ds_members (SendAnnouncement_end s f d) = ds_members d"
  "ds_fences (SendAnnouncement_end s f d) = ds_fences d" "ds_peers (SendAnnouncement_end s f d) = ds_peers d"
  "ds_config (count_parse_error d) = ds_config d" "ds_members (count_parse_error d) = ds_members d"
  "ds_fences (count_parse_error d) = ds_fences d" "ds_peers (count_parse_error d) = ds_peers d"
  "ds_config (snd (Discovery_Start d)) = ds_config d" "ds_members (snd (Discovery_Start d)) = ds_members d"
  "ds_fences (snd (Discovery_Start d)) = ds_fences d" "ds_peers (snd (Discovery_Start d)) = ds_peers d"
  "ds_config (snd (Discovery_Stop d)) = ds_config d" "ds_members (snd (Discovery_Stop d)) = ds_members d"
  "ds_fences (snd (Discovery_Stop d)) = ds_fences d" "ds_peers (snd (Discovery_Stop d)) = ds_peers d"
  "ds_config (ExpireMembers now d) = ds_config d" "ds_peers (ExpireMembers now d) = ds_peers d"
  by (simp_all add: AddPeer_def SendAnnouncement_begin_def SendAnnouncement_end_def count_parse_error_def
      Discovery_Start_def Discovery_Stop_def ExpireMembers_def Let_def split: sum.split)

lemma AddPeer_peers:
  assumes "length (ds_peers d) \<le> dc_max_peers (ds_config d)" "check_peers pton (ds_peers d) = None"
  shows "length (ds_peers (snd (AddPeer pton peer d))) \<le> dc_max_peers (ds_config d) \<and>
    check_peers pton (ds_peers (snd (AddPeer pton peer d))) = None"
  using assms by (auto simp: AddPeer_def check_peers_None split: sum.split)

lemma tables_ok_ExpireMembers: "tables_ok d \<Longrightarrow> tables_ok (ExpireMembers now d)"
  using ExpireMembers_rule [of d "\<lambda>_. True"] by simp

lemma tables_ok_step:
  assumes "disc_step pton now d d'" "tables_ok d" shows "tables_ok d'"
  using assms
proof (cases rule: disc_step.cases)
  case (Step_accept data a now)
  then show ?thesis
    using tables_ok_Accept [OF assms(2)] ParseAnnouncement_SomeE(1) [OF Step_accept(3)]
    by (simp add: announcement_ok_def)
qed (auto intro: tables_ok_frame tables_ok_ExpireMembers)

lemma step_config: "disc_step pton now d d' \<Longrightarrow> ds_config d' = ds_config d"
  by (auto elim: disc_step.cases)

lemma disc_inv_step:
  assumes "disc_inv pton d" "disc_moves pton d d'" shows "disc_inv pton d'"
proof -
  from assms(2) obtain now where step: "disc_step pton now d d'" by (auto simp: disc_moves_def)
  have "length (ds_peers d') \<le> dc_max_peers (ds_config d) \<and> check_peers pton (ds_peers d') = None"
    using step assms(1) AddPeer_peers [of d pton]
    by (cases rule: disc_step.cases) (simp_all add: disc_inv_def)
  then show ?thesis
    using assms(1) tables_ok_step [OF step] step_config [OF step] by (simp add: disc_inv_def)
qed

lemma disc_inv_init:
  assumes "disc_init pton d" shows "disc_inv pton d"
proof -
  from assms obtain calls where "fst (Discovery_Create pton calls (ds_config d)) = Inr d"
    by (auto simp: disc_init_def)
  from Discovery_Create_InrE [OF this] show ?thesis
    by (simp add: disc_inv_def tables_ok_def discovery_config_valid_def)
qed

interpretation discovery_run: step_invariant "disc_init pton" "disc_moves pton" "disc_inv pton" for pton
  by unfold_locales (auto intro: disc_inv_init disc_inv_step)

text \<open>C22: the tables stay bounded and consistent. In every reachable state of the service, peers, members
  and fences respect their capacities, a node is a member or fenced off but not both and appears
  once, the node itself is neither, every member is stored under its own identity with a non-zero
  generation, and every peer has a valid address.\<close>

theorem discovery_tables_consistent:
  assumes "disc_init pton d0" "(disc_moves pton)\<^sup>*\<^sup>* d0 d"
  shows "length (ds_members d) \<le> dc_max_members (ds_config d) \<and>
    length (ds_fences d) \<le> dc_max_generation_fences (ds_config d) \<and>
    length (ds_peers d) \<le> dc_max_peers (ds_config d) \<and> check_peers pton (ds_peers d) = None \<and>
    distinct (map mb_node_id (Members d)) \<and> sorted (map mb_node_id (Members d)) \<and>
    dc_node_id (ds_config d) \<notin> set (map mb_node_id (Members d)) \<and>
    (\<forall>node m. Discovery_Find node d = Inr m \<longleftrightarrow> m \<in> set (Members d) \<and> mb_node_id m = node) \<and>
    keys (ds_members d) \<inter> keys (ds_fences d) = {}"
proof -
  have inv: "disc_inv pton d" by (rule discovery_run.reachable_inv [OF assms])
  then have ok: "tables_ok d" by (simp add: disc_inv_def)
  have ids: "map mb_node_id (map snd (ds_members d)) = map fst (ds_members d)"
    using tables_okD(6) [OF ok] by auto
  have find: "map_of (ds_members d) node = Some m \<longleftrightarrow> (node, m) \<in> set (ds_members d)" for node m
    using tables_okD(1) [OF ok] by (simp add: map_of_eq_Some_iff)
  have "distinct (map mb_node_id (Members d))"
    using tables_okD(1) [OF ok] ids by (simp add: Members_def distinct_map inj_on_def) metis
  moreover have "dc_node_id (ds_config d) \<notin> mb_node_id ` snd ` set (ds_members d)"
    using ok arg_cong [OF ids, of set] by (simp add: tables_ok_def keys_def image_image)
  moreover have "Discovery_Find node d = Inr m \<longleftrightarrow> m \<in> set (Members d) \<and> mb_node_id m = node" for node m
    using find [of node m] tables_okD(6) [OF ok]
    by (auto simp: Discovery_Find_def Members_def image_iff split: option.split intro: rev_bexI)
  ultimately show ?thesis
    using inv ok by (simp add: disc_inv_def tables_ok_def Members_def)
qed


section \<open>Fencing of expired incarnations\<close>

text \<open>There is a free place in the fence table for every member, so that no fence is evicted.\<close>

definition with_room :: "Discovery \<Rightarrow> bool" where
  "with_room d \<longleftrightarrow> length (ds_fences d) + length (ds_members d) \<le> dc_max_generation_fences (ds_config d)"

definition overdue :: "time_point \<Rightarrow> Discovery \<Rightarrow> MemberRecord \<Rightarrow> bool" where
  "overdue now d m \<longleftrightarrow> now - mb_last_seen m > dc_lease_timeout (ds_config d)"

definition quiet_move ::
    "(string \<Rightarrow> u32 option) \<Rightarrow> time_point \<Rightarrow> time_point \<Rightarrow> Discovery \<Rightarrow> Discovery \<Rightarrow> bool" where
  "quiet_move pton t t' d d' \<longleftrightarrow> with_room d \<and>
     (\<exists>now. disc_step pton now d d' \<and> (case now of None \<Rightarrow> True | Some n \<Rightarrow> t \<le> n \<and> n < t'))"

definition fenced :: "string \<Rightarrow> u64 \<Rightarrow> time_point \<Rightarrow> Discovery \<Rightarrow> bool" where
  "fenced node g t' d \<longleftrightarrow>
     (case map_of (ds_members d) node of
        Some m \<Rightarrow> g < mb_generation m
      | None \<Rightarrow> \<exists>f. map_of (ds_fences d) node = Some f \<and> g \<le> gf_generation f \<and> t' \<le> gf_expires_at f)"

lemma with_room_expire_fences: "with_room d \<Longrightarrow> with_room (ExpireGenerationFencesLocked now d)"
  unfolding with_room_def ExpireGenerationFences_frame
  by (rule order_trans [OF add_right_mono [OF length_filter_le]])

lemma expire_one_tables:
  assumes "tables_ok d" "(k, m) \<in> set (ds_members d)" "with_room d"
  shows "ds_members (expire_one now (k, m) d) =
      (if overdue now d m then AList.delete k (ds_members d) else ds_members d)"
    "ds_fences (expire_one now (k, m) d) =
      (if overdue now d m then AList.update k \<lparr>gf_generation = mb_generation m,
         gf_expires_at = now + dc_generation_fence_timeout (ds_config d)\<rparr> (ds_fences d) else ds_fences d)"
    "with_room (expire_one now (k, m) d)"
proof -
  have id: "mb_node_id m = k" by (rule tables_okD(6) [OF assms(1,2)])
  have less: "length (AList.delete k (ds_members d)) < length (ds_members d)"
    using assms(2) by (intro length_delete_less) force
  then have "length (ds_fences d) < dc_max_generation_fences (ds_config d)"
    using assms(3) by (simp add: with_room_def)
  then have ev: "evict_fence d = d" by (rule evict_fence_room)
  have "mb_node_id m \<notin> keys (ds_fences d)"
    using tables_okD(3) [OF assms(1)] keys_intro [OF assms(2)] id by simp
  note r = Remember_fresh(1) [OF assms(1) this refl, of now, unfolded ev id]
  show m: "ds_members (expire_one now (k, m) d) =
      (if overdue now d m then AList.delete k (ds_members d) else ds_members d)"
    by (simp add: expire_one_def overdue_def Let_def)
  show f: "ds_fences (expire_one now (k, m) d) =
      (if overdue now d m then AList.update k \<lparr>gf_generation = mb_generation m,
         gf_expires_at = now + dc_generation_fence_timeout (ds_config d)\<rparr> (ds_fences d) else ds_fences d)"
    by (simp add: expire_one_def overdue_def Let_def r)
  show "with_room (expire_one now (k, m) d)"
    using assms(3) less length_update_le [of k "\<lparr>gf_generation = mb_generation m,
         gf_expires_at = now + dc_generation_fence_timeout (ds_config d)\<rparr>" "ds_fences d"]
    unfolding with_room_def m f expire_one_frame by (cases "overdue now d m") simp_all
qed

lemma fenced_expire_one:
  assumes "tables_ok d" "km \<in> set (ds_members d)"
    and "with_room d \<and> ds_config d = c \<and> fenced node g t' d"
    and "t' \<le> now + dc_generation_fence_timeout c"
  shows "with_room (expire_one now km d) \<and> ds_config (expire_one now km d) = c \<and>
    fenced node g t' (expire_one now km d)"
proof -
  obtain k m where km: "km = (k, m)" by force
  have m: "map_of (ds_members d) k = Some m"
    using tables_okD(1) [OF assms(1)] assms(2) by (simp add: km map_of_eq_Some_iff)
  note e = expire_one_tables [OF assms(1) assms(2) [unfolded km] conjunct1 [OF assms(3)], of now]
  have "fenced node g t' (expire_one now (k, m) d)"
    using assms(3,4) m unfolding fenced_def e(1,2)
    by (cases "node = k") (auto simp: delete_conv' update_conv' split: option.splits)
  with e(3) assms(3) show ?thesis by (simp add: km)
qed

lemma live_lookup:
  assumes "distinct (map fst fs)"
  shows "map_of (live now fs) k = (case map_of fs k of Some f \<Rightarrow> if now < gf_expires_at f then Some f else None
    | None \<Rightarrow> None)"
  using assms by (induction fs) (auto simp: live_def map_of_eq_None_iff split: option.split)

lemma fenced_fewer:
  assumes "fenced node g t' d" "now < t'" "distinct (map fst (ds_fences d))"
    and "ds_members d' = ds_members d" "ds_fences d' = ds_fences d \<or> ds_fences d' = live now (ds_fences d)"
  shows "fenced node g t' d'"
  using assms by (auto simp: fenced_def live_lookup split: option.splits)

lemma fenced_Accept:
  assumes "tables_ok d" "fenced node g t' d" "now < t'"
  shows "fenced node g t' (Accept a now d)"
  using assms(1)
proof (cases rule: Accept_cases [where a = a and now = now])
  case ignored
  then show ?thesis
    using fenced_fewer [OF assms(2,3) tables_okD(2) [OF assms(1)]] by blast
next
  case (stored m)
  show ?thesis
  proof (cases "an_node_id a = node")
    case False
    then show ?thesis
      using assms(2,3) tables_okD(2) [OF assms(1)]
      by (auto simp: fenced_def stored(4,5) update_conv' live_lookup simp del: map_of_eq_Some_iff split: option.splits)
  next
    case True
    have "g < mb_generation m"
    proof (cases "map_of (ds_members d) node")
      case None
      with assms(2) obtain f where f: "map_of (ds_fences d) node = Some f" "g \<le> gf_generation f" "t' \<le> gf_expires_at f"
        by (auto simp: fenced_def)
      then have "map_of (live now (ds_fences d)) node = Some f"
        using assms(3) tables_okD(2) [OF assms(1)] by (simp add: live_lookup)
      then show ?thesis
        using stored(7) None f(2) by (simp add: stored(3) True map_of_None_keys)
    next
      case (Some m0)
      then show ?thesis
        using assms(2) stored(8) by (auto simp: fenced_def stored(3) True)
    qed
    then show ?thesis by (simp add: fenced_def stored(4) update_conv' True)
  qed
qed


lemma fenced_quiet:
  assumes "quiet_move pton t (t + dc_generation_fence_timeout (ds_config d)) d d'" "tables_ok d"
    and "fenced node g (t + dc_generation_fence_timeout (ds_config d)) d"
  shows "fenced node g (t + dc_generation_fence_timeout (ds_config d)) d'"
proof -
  let ?t = "t + dc_generation_fence_timeout (ds_config d)"
  from assms(1) obtain l where room: "with_room d" and step: "disc_step pton l d d'"
    and time: "case l of None \<Rightarrow> True | Some n \<Rightarrow> t \<le> n \<and> n < ?t"
    by (auto simp: quiet_move_def)
  show ?thesis using step
  proof (cases rule: disc_step.cases)
    case (Step_accept data a now)
    then show ?thesis using fenced_Accept [OF assms(2,3)] time by simp
  next
    case (Step_expire now)
    let ?P = "\<lambda>e. with_room e \<and> ds_config e = ds_config d \<and> fenced node g ?t e"
    have "with_room (ExpireGenerationFencesLocked now d)"
      by (rule with_room_expire_fences [OF room])
    moreover have "fenced node g ?t (ExpireGenerationFencesLocked now d)"
      by (rule fenced_fewer [OF assms(3) _ tables_okD(2) [OF assms(2)], where now = now])
        (use time Step_expire in \<open>simp_all add: live_def\<close>)
    ultimately have "tables_ok (ExpireMembers now d) \<and> ?P (ExpireMembers now d)"
      by (intro ExpireMembers_rule [OF assms(2)] fenced_expire_one)
        (use time Step_expire in simp_all)
    then show ?thesis using Step_expire by simp
  qed (use assms(3) in \<open>simp_all add: fenced_def cong: option.case_cong\<close>)
qed

lemma expire_loop_keys: "keys (ds_members (expire_loop now ms d)) \<subseteq> keys (ds_members d)"
  by (induction now ms d rule: expire_loop.induct) (auto simp: Let_def split: if_splits)

lemma expire_loop_gone:
  "(k, m) \<in> set ms \<Longrightarrow> overdue now d m \<Longrightarrow> k \<notin> keys (ds_members (expire_loop now ms d))"
proof (induction now ms d rule: expire_loop.induct)
  case (2 now key member rest d)
  show ?case
  proof (cases "(k, m) = (key, member)")
    case True
    then have "k \<notin> keys (ds_members (expire_one now (key, member) d))"
      using 2(3) by (simp add: expire_one_def overdue_def Let_def)
    then show ?thesis
      using expire_loop_keys [of now rest "expire_one now (key, member) d"]
      by (auto simp: expire_one_def)
  next
    case False
    then have "(k, m) \<in> set rest" using 2(2) by auto
    then show ?thesis
      using 2(1) 2(3) by (simp add: overdue_def Let_def)
  qed
qed simp

lemma expiry_fences:
  assumes "tables_ok d" "with_room d" "map_of (ds_members d) node = Some m" "overdue t d m"
  shows "fenced node (mb_generation m) (t + dc_generation_fence_timeout (ds_config d)) (ExpireMembers t d)"
proof -
  let ?f = "\<lparr>gf_generation = mb_generation m, gf_expires_at = t + dc_generation_fence_timeout (ds_config d)\<rparr>"
  define Q where "Q e \<longleftrightarrow> with_room e \<and> ds_config e = ds_config d \<and>
    (map_of (ds_members e) node = Some m \<or>
     map_of (ds_members e) node = None \<and> map_of (ds_fences e) node = Some ?f)" for e
  have "tables_ok (ExpireMembers t d) \<and> Q (ExpireMembers t d)"
  proof (rule ExpireMembers_rule [OF assms(1)])
    show "Q (ExpireGenerationFencesLocked t d)"
      using assms(2,3) by (simp add: Q_def with_room_expire_fences)
  next
    fix e km assume ok: "tables_ok e" "km \<in> set (ds_members e)" and Q: "Q e"
    obtain k m' where km: "km = (k, m')" by force
    have m': "map_of (ds_members e) k = Some m'"
      using tables_okD(1) [OF ok(1)] ok(2) by (simp add: km map_of_eq_Some_iff)
    have room: "with_room e" using Q by (simp add: Q_def)
    note x = expire_one_tables [OF ok(1) ok(2) [unfolded km] room, of t]
    show "Q (expire_one t km e)"
      using Q m' x(3) unfolding Q_def km x(1,2)
      by (cases "node = k") (auto simp: delete_conv' update_conv')
  qed
  moreover have "map_of (ds_members (ExpireMembers t d)) node = None"
    using expire_loop_gone [OF map_of_SomeD [OF assms(3)], of t "ExpireGenerationFencesLocked t d"] assms(4)
    by (simp add: ExpireMembers_def Let_def overdue_def map_of_None_keys)
  ultimately show ?thesis by (simp add: Q_def fenced_def)
qed

text \<open>C21: an expired incarnation stays out. Once a member's lease has expired, then for the duration of
  the fence time-out, while the fence table has room, whatever announcements arrive and whatever
  expires, the node is a member again only with a later generation.\<close>

theorem expired_generation_stays_out:
  assumes "disc_init pton d0" "(disc_moves pton)\<^sup>*\<^sup>* d0 d"
    and "map_of (ds_members d) node = Some m" "overdue t d m" "with_room d"
    and "(quiet_move pton t (t + dc_generation_fence_timeout (ds_config d)))\<^sup>*\<^sup>* (ExpireMembers t d) d'"
    and "Discovery_Find node d' = Inr m'"
  shows "mb_generation m < mb_generation m'"
proof -
  let ?t = "t + dc_generation_fence_timeout (ds_config d)"
  have ok: "tables_ok d"
    using discovery_run.reachable_inv [OF assms(1,2)] by (simp add: disc_inv_def)
  from assms(6) have "tables_ok d' \<and> ds_config d' = ds_config d \<and> fenced node (mb_generation m) ?t d'"
  proof (induction rule: rtranclp_induct)
    case base
    show ?case using expiry_fences [OF ok assms(5,3,4)] tables_ok_ExpireMembers [OF ok] by simp
  next
    case (step e e')
    then show ?case
      using fenced_quiet [of pton t e e'] tables_ok_step step_config by (metis quiet_move_def)
  qed
  then show ?thesis
    using assms(7) by (auto simp: fenced_def Discovery_Find_def split: option.splits)
qed


lemma move_parse_error: "disc_moves pton d (count_parse_error d)"
  unfolding disc_moves_def by (rule exI, rule Step_parse_error)

lemma ReceiveAnnouncements_steps:
  "(disc_moves pton)\<^sup>*\<^sup>* d (ReceiveAnnouncements pton rs d)"
proof (induction pton rs d rule: ReceiveAnnouncements.induct)
  case (5 pton data now rs d)
  let ?d = "case ParseAnnouncement pton (take kMaximumDatagramBytes data) of
    None \<Rightarrow> count_parse_error d | Some a \<Rightarrow> Accept a now d"
  have "disc_moves pton d ?d"
    by (auto simp: disc_moves_def split: option.split intro: disc_step.intros)
  then show ?case using 5 by (simp add: converse_rtranclp_into_rtranclp)
qed (auto simp: disc_moves_def intro: disc_step.intros r_into_rtranclp)

lemma SendAnnouncement_steps: "(disc_moves pton)\<^sup>*\<^sup>* d (SendAnnouncement pton sendto d)"
proof -
  have "SendAnnouncement pton sendto d = SendAnnouncement_end
      (fst (send_loop pton sendto (BuildAnnouncement (ds_config d) (ds_next_sequence d)) 0 (ds_peers d) (0, 0)))
      (snd (send_loop pton sendto (BuildAnnouncement (ds_config d) (ds_next_sequence d)) 0 (ds_peers d) (0, 0)))
      (snd (snd (SendAnnouncement_begin d)))" (is "_ = SendAnnouncement_end ?s ?f ?d")
    by (simp add: SendAnnouncement_def SendAnnouncement_begin_def split_def)
  moreover have "disc_moves pton d ?d" "disc_moves pton ?d (SendAnnouncement_end ?s ?f ?d)"
    unfolding disc_moves_def by (rule exI, rule Step_send, rule exI, rule Step_sent)
  ultimately show ?thesis by auto
qed

text \<open>A turn of the worker is a sequence of the steps above.\<close>

lemma Run_turn_steps:
  "(disc_moves pton)\<^sup>*\<^sup>* d (snd (Run_turn pton sendto now p received now2 (next, d)))"
proof -
  let ?d1 = "if now \<ge> next then SendAnnouncement pton sendto d else d"
  let ?d2 = "case p of PollReady \<Rightarrow> ReceiveAnnouncements pton received ?d1
    | PollFailed \<Rightarrow> count_parse_error ?d1 | _ \<Rightarrow> ?d1"
  have 1: "(disc_moves pton)\<^sup>*\<^sup>* d ?d1" by (simp add: SendAnnouncement_steps)
  have "(disc_moves pton)\<^sup>*\<^sup>* e (count_parse_error e)" for e
    by (rule r_into_rtranclp, rule move_parse_error)
  then have 2: "(disc_moves pton)\<^sup>*\<^sup>* ?d1 ?d2"
    using ReceiveAnnouncements_steps by (cases p) (simp_all only: PollResult.case rtranclp.rtrancl_refl)
  have 3: "disc_moves pton ?d2 (ExpireMembers now2 ?d2)"
    unfolding disc_moves_def by (rule exI, rule Step_expire)
  have "snd (Run_turn pton sendto now p received now2 (next, d)) = ExpireMembers now2 ?d2"
    by (cases "now \<ge> next") (simp_all only: Run_turn_def Let_def prod.case if_True if_False snd_conv)
  then show ?thesis
    using rtranclp.rtrancl_into_rtrancl [of "disc_moves pton", OF rtranclp_trans [OF 1 2] 3] by (simp only:)
qed

text \<open>Two nodes and an address parser that knows one address.\<close>

definition demo_pton :: "string \<Rightarrow> u32 option" where
  "demo_pton s = (if s = ''10.0.0.1'' then Some 0x0a000001 else None)"

definition demo_endpoint :: NetworkEndpoint where
  "demo_endpoint = \<lparr>ep_address = ''10.0.0.1'', ep_port = 7400\<rparr>"

definition demo_discovery_config :: DiscoveryConfig where
  "demo_discovery_config = \<lparr>dc_node_id = ''a'', dc_generation = 3, dc_bind_endpoint = demo_endpoint,
     dc_advertised_rpc_endpoint = demo_endpoint, dc_peers = [demo_endpoint], dc_heartbeat_period = 100,
     dc_lease_timeout = 500, dc_generation_fence_timeout = 5000, dc_max_members = 2, dc_max_peers = 1,
     dc_max_generation_fences = 4\<rparr>"

definition demo_discovery :: Discovery where
  "demo_discovery = \<lparr>ds_config = demo_discovery_config, ds_local_endpoint = demo_endpoint,
     ds_peers = [demo_endpoint], ds_members = [], ds_fences = [], ds_stats = zero_discovery_stats,
     ds_next_sequence = 1, ds_running = False\<rparr>"

definition demo_announcement :: "u64 \<Rightarrow> Announcement" where
  "demo_announcement g = \<lparr>an_node_id = ''b'', an_generation = g, an_sequence = 1, an_rpc_endpoint = demo_endpoint\<rparr>"

lemma demo_discovery_init: "disc_init demo_pton demo_discovery"
proof -
  have "fst (Discovery_Create demo_pton \<lparr>call_socket = None, call_bind = None, call_fcntl = None,
      call_getsockname = Inr 7400\<rparr> (ds_config demo_discovery)) = Inr demo_discovery"
    by code_simp
  then show ?thesis unfolding disc_init_def by blast
qed

lemma demo_parse: "g \<noteq> 0 \<Longrightarrow> ParseAnnouncement demo_pton (layout_of 0 (demo_announcement g)) = Some (demo_announcement g)"
  by (rule ParseAnnouncement_layout)
    (simp add: announcement_ok_def demo_announcement_def demo_endpoint_def ParseIpv4_def c_str_def demo_pton_def)

lemma demo_accept: "g \<noteq> 0 \<Longrightarrow> disc_step demo_pton (Some now) d (Accept (demo_announcement g) now d)"
  by (rule Step_accept, rule demo_parse)

definition demo_joined :: Discovery where
  "demo_joined = Accept (demo_announcement 7) 1000 demo_discovery"

lemma demo_joined_reachable: "(disc_moves demo_pton)\<^sup>*\<^sup>* demo_discovery demo_joined"
  unfolding demo_joined_def
  by (rule r_into_rtranclp) (unfold disc_moves_def, rule exI, rule demo_accept, simp)

theorem announcement_wire_exact_witness:
  "ParseAnnouncement demo_pton ((BuildAnnouncement demo_discovery_config 9)[7 := 5]) =
     Some \<lparr>an_node_id = ''a'', an_generation = 3, an_sequence = 9, an_rpc_endpoint = demo_endpoint\<rparr>"
  using announcement_wire_exact [of demo_discovery_config
      "\<lparr>an_node_id = ''a'', an_generation = 3, an_sequence = 9, an_rpc_endpoint = demo_endpoint\<rparr>"
      demo_pton "(BuildAnnouncement demo_discovery_config 9)[7 := 5]"]
    list_update_id [of "BuildAnnouncement demo_discovery_config 9" 7]
  by (simp add: demo_discovery_config_def announcement_ok_def demo_endpoint_def ParseIpv4_def c_str_def
      demo_pton_def BuildAnnouncement_layout announcement_layout_def list_update_append)

theorem discovery_tables_consistent_witness:
  "map mb_node_id (Members demo_joined) = [''b''] \<and> distinct (map mb_node_id (Members demo_joined)) \<and>
   keys (ds_members demo_joined) \<inter> keys (ds_fences demo_joined) = {}"
proof -
  have "map mb_node_id (Members demo_joined) = [''b'']" by code_simp
  then show ?thesis
    using discovery_tables_consistent [OF demo_discovery_init demo_joined_reachable] by simp
qed

text \<open>The member of generation 7 expires, its announcements are refused, and generation 8 joins.\<close>

theorem expired_generation_stays_out_witness:
  "\<exists>m'. Discovery_Find ''b'' (Accept (demo_announcement 8) 2100 (Accept (demo_announcement 7) 2050
     (ExpireMembers 2000 demo_joined))) = Inr m' \<and> mb_generation m' = 8 \<and> 7 < mb_generation m'"
proof -
  let ?e = "ExpireMembers 2000 demo_joined"
  let ?e1 = "Accept (demo_announcement 7) 2050 ?e"
  let ?e2 = "Accept (demo_announcement 8) 2100 ?e1"
  let ?m = "\<lparr>mb_node_id = ''b'', mb_generation = 7, mb_heartbeat_sequence = 1,
    mb_rpc_endpoint = demo_endpoint, mb_last_seen = 1000\<rparr>"
  have m: "map_of (ds_members demo_joined) ''b'' = Some ?m" "overdue 2000 demo_joined ?m" "with_room demo_joined"
    "2000 + dc_generation_fence_timeout (ds_config demo_joined) = 7000"
    by code_simp+
  have room: "with_room ?e" "with_room ?e1" by code_simp+
  have "quiet_move demo_pton 2000 7000 ?e ?e1" "quiet_move demo_pton 2000 7000 ?e1 ?e2"
    unfolding quiet_move_def
    by (rule conjI [OF room(1)], rule exI, rule conjI, rule demo_accept, simp, simp,
        rule conjI [OF room(2)], rule exI, rule conjI, rule demo_accept, simp, simp)
  then have path: "(quiet_move demo_pton 2000 7000)\<^sup>*\<^sup>* ?e ?e2" by auto
  have "\<exists>m'. Discovery_Find ''b'' ?e2 = Inr m' \<and> mb_generation m' = 8"
    by (rule exI [of _ "?m\<lparr>mb_generation := 8, mb_last_seen := 2100\<rparr>"]) code_simp
  then obtain m' where "Discovery_Find ''b'' ?e2 = Inr m'" "mb_generation m' = 8" by blast
  with expired_generation_stays_out [OF demo_discovery_init demo_joined_reachable m(1-3), unfolded m(4), OF path this(1)]
  show ?thesis by auto
qed

end
