(* ===== verification/Rpc.thy ===== *)
theory Rpc
  imports Discovery "HOL-Library.Sublist"
begin

text \<open>
  The TCP RPC of \<open>rpc.cpp\<close>: exact reads and writes under a deadline, the request and response
  frames, the server's handling of a connection and the client's call.

  A connection has the bytes the peer sends, the bytes written so far and a script: what the stop
  token, the clock, \<open>poll\<close> and the \<open>send\<close> or \<open>recv\<close> that follows do in each turn of the waiting loop.
  How the peer's bytes are cut into segments is part of the script and not of the bytes. A function
  that has used up its script without returning has the value \<open>None\<close>.
\<close>

subsection \<open>Waiting\<close>

record Revents =
  rv_nval :: bool
  rv_err :: bool
  rv_ready :: bool
  rv_hup :: bool

datatype PollOutcome = PollError bool string | PollNothing | PollEvents Revents

text \<open>The number of bytes moved (at most), \<open>EAGAIN\<close>, \<open>EWOULDBLOCK\<close> or \<open>EINTR\<close>, or another error.\<close>

datatype IoResult = Moved nat | Retry | IoError string

text \<open>\<open>poll\<close> gets the time-out in milliseconds.\<close>

record Turn =
  tn_stop :: bool
  tn_now :: time_point
  tn_now2 :: time_point
  tn_poll :: "int \<Rightarrow> PollOutcome"
  tn_io :: IoResult

record Conn =
  cn_input :: bytes
  cn_output :: bytes
  cn_script :: "Turn list"

text \<open>\<open>duration_cast\<close> to milliseconds truncates towards zero; the rest is rounded up.\<close>

definition milliseconds_up :: "duration \<Rightarrow> int" where
  "milliseconds_up remaining =
     (let ms = sgn remaining * (\<bar>remaining\<bar> div 1000000) in
      if ms * 1000000 < remaining then ms + 1 else ms)"

definition clamp :: "int \<Rightarrow> int \<Rightarrow> int \<Rightarrow> int" where
  "clamp v lo hi = (if v < lo then lo else if hi < v then hi else v)"

definition wait_timeout :: "Deadline \<Rightarrow> time_point \<Rightarrow> int" where
  "wait_timeout dl now =
     (if is_infinite dl then 20 else clamp (milliseconds_up (time_point dl - now)) 1 20)"

text \<open>The result is the status, what the following \<open>send\<close> or \<open>recv\<close> will do, and the rest of the
  script.\<close>

fun WaitFor :: "bool \<Rightarrow> Deadline \<Rightarrow> Turn list \<Rightarrow> (Status \<times> IoResult \<times> Turn list) option" where
  "WaitFor pollin dl [] = None"
| "WaitFor pollin dl (t # ts) =
     (if tn_stop t then Some (mk_status Cancelled ''RPC operation cancelled'', tn_io t, ts)
      else if expired (tn_now t) dl then Some (mk_status Timeout ''RPC deadline expired'', tn_io t, ts)
      else case tn_poll t (wait_timeout dl (tn_now2 t)) of
        PollError eintr err \<Rightarrow>
          if eintr then WaitFor pollin dl ts else Some (NetworkError ''poll(RPC)'' err, tn_io t, ts)
      | PollNothing \<Rightarrow> WaitFor pollin dl ts
      | PollEvents ev \<Rightarrow>
          if rv_nval ev \<or> rv_err ev \<and> \<not> rv_ready ev
          then Some (mk_status TransportError ''RPC socket reported an error'', tn_io t, ts)
          else if rv_ready ev \<or> pollin \<and> rv_hup ev then Some (OkStatus, tn_io t, ts)
          else if rv_hup ev
          then Some (mk_status TransportError ''RPC peer closed the connection'', tn_io t, ts)
          else WaitFor pollin dl ts)"

lemma WaitFor_shorter: "WaitFor pollin dl ts = Some (st, io, ts') \<Longrightarrow> length ts' < length ts"
proof (induction ts)
  case (Cons t ts)
  then have "WaitFor pollin dl ts = Some (st, io, ts') \<or> ts' = ts"
    by (simp split: if_split_asm PollOutcome.split_asm)
  with Cons.IH show ?case by (auto intro: less_SucI)
qed simp


subsection \<open>Exact writes and reads\<close>

function write_loop :: "Deadline \<Rightarrow> bytes \<Rightarrow> nat \<Rightarrow> Conn \<Rightarrow> (Status \<times> Conn) option" where
  "write_loop dl data offset cn =
     (if offset < length data
      then case WaitFor False dl (cn_script cn) of
        None \<Rightarrow> None
      | Some (ready, io, rest) \<Rightarrow>
          let cn = cn\<lparr>cn_script := rest\<rparr> in
          if \<not> ok ready then Some (ready, cn)
          else (case io of
            Moved n \<Rightarrow>
              let written = min n (length data - offset) in
              if written > 0
              then write_loop dl data (offset + written)
                (cn\<lparr>cn_output := cn_output cn @ take written (drop offset data)\<rparr>)
              else Some (mk_status TransportError ''RPC socket wrote zero bytes'', cn)
          | Retry \<Rightarrow> write_loop dl data offset cn
          | IoError err \<Rightarrow> Some (NetworkError ''send(RPC)'' err, cn))
      else Some (OkStatus, cn))"
  by pat_completeness auto
termination
  by (relation "measure (\<lambda>(dl, data, offset, cn). length (cn_script cn))") (auto dest: WaitFor_shorter)

definition rpc_WriteExact :: "Deadline \<Rightarrow> bytes \<Rightarrow> Conn \<Rightarrow> (Status \<times> Conn) option" where
  "rpc_WriteExact dl data cn = write_loop dl data 0 cn"

text \<open>The buffer holds what was read so far; its length is the offset.\<close>

function read_loop :: "Deadline \<Rightarrow> nat \<Rightarrow> bytes \<Rightarrow> Conn \<Rightarrow> (Status \<times> bytes \<times> Conn) option" where
  "read_loop dl amount data cn =
     (if length data < amount
      then case WaitFor True dl (cn_script cn) of
        None \<Rightarrow> None
      | Some (ready, io, rest) \<Rightarrow>
          let cn = cn\<lparr>cn_script := rest\<rparr> in
          if \<not> ok ready then Some (ready, data, cn)
          else (case io of
            Moved n \<Rightarrow>
              let received = min (min n (amount - length data)) (length (cn_input cn)) in
              if received > 0
              then read_loop dl amount (data @ take received (cn_input cn))
                (cn\<lparr>cn_input := drop received (cn_input cn)\<rparr>)
              else Some (mk_status TransportError ''RPC peer closed before frame completed'', data, cn)
          | Retry \<Rightarrow> read_loop dl amount data cn
          | IoError err \<Rightarrow> Some (NetworkError ''recv(RPC)'' err, data, cn))
      else Some (OkStatus, data, cn))"
  by pat_completeness auto
termination
  by (relation "measure (\<lambda>(dl, amount, data, cn). length (cn_script cn))") (auto dest: WaitFor_shorter)

definition rpc_ReadExact :: "Deadline \<Rightarrow> nat \<Rightarrow> Conn \<Rightarrow> (Status \<times> bytes \<times> Conn) option" where
  "rpc_ReadExact dl amount cn = read_loop dl amount [] cn"

declare write_loop.simps [simp del] read_loop.simps [simp del]

definition RemainingMilliseconds :: "Deadline \<Rightarrow> time_point \<Rightarrow> u32" where
  "RemainingMilliseconds dl now =
     (if is_infinite dl then 2 ^ 32 - 1
      else let remaining = time_point dl - now in
        if remaining \<le> 0 then 0
        else of_int (clamp (milliseconds_up remaining) 1 (2 ^ 32 - 1)))"

definition ValidStatusCode :: "u16 \<Rightarrow> bool" where
  "ValidStatusCode raw \<longleftrightarrow> raw \<le> status_code_raw Internal"


subsection \<open>Frames\<close>

definition kRequestMagic :: bytes where
  "kRequestMagic = bytes_of_string ''ARRQ''"

definition kResponseMagic :: bytes where
  "kResponseMagic = bytes_of_string ''ARRS''"

definition kRpcVersion :: u16 where
  "kRpcVersion = 1"

definition kRequestHeaderBytes :: nat where
  "kRequestHeaderBytes = 28"

definition kResponseHeaderBytes :: nat where
  "kResponseHeaderBytes = 24"

definition kMaximumMethodBytes :: nat where
  "kMaximumMethodBytes = 128"

definition kMaximumDetailBytes :: nat where
  "kMaximumDetailBytes = 1024"

definition kAbsolutePayloadLimit :: nat where
  "kAbsolutePayloadLimit = 16 * 1024 * 1024"

definition request_header :: "u64 \<Rightarrow> u32 \<Rightarrow> nat \<Rightarrow> nat \<Rightarrow> bytes" where
  "request_header request_id timeout_milliseconds method_size payload_size =
     (let header = write_at (replicate kRequestHeaderBytes 0) 0 kRequestMagic;
          header = StoreU16 header 4 kRpcVersion;
          header = StoreU64 header 8 request_id;
          header = StoreU32 header 16 timeout_milliseconds;
          header = StoreU32 header 20 (of_nat method_size) in
      StoreU32 header 24 (of_nat payload_size))"

definition response_header :: "StatusCode \<Rightarrow> u64 \<Rightarrow> nat \<Rightarrow> nat \<Rightarrow> bytes" where
  "response_header response_code request_id detail_size payload_size =
     (let header = write_at (replicate kResponseHeaderBytes 0) 0 kResponseMagic;
          header = StoreU16 header 4 kRpcVersion;
          header = StoreU16 header 6 (status_code_raw response_code);
          header = StoreU64 header 8 request_id;
          header = StoreU32 header 16 (of_nat detail_size) in
      StoreU32 header 20 (of_nat payload_size))"


subsection \<open>The server\<close>

record RpcServerConfig =
  rs_bind_endpoint :: NetworkEndpoint
  rs_max_request_bytes :: nat
  rs_io_timeout :: duration
  rs_listen_backlog :: nat

record RpcServerStats =
  accepted_connections :: u64
  requests :: u64
  responses :: u64
  malformed_requests :: u64
  handler_failures :: u64
  io_failures :: u64

text \<open>What running a handler gives: its result, or an exception with or without a text.\<close>

datatype HandlerOutcome = Answered "bytes Result" | HandlerThrew string | HandlerThrewUnknown

type_synonym RpcHandler = "bytes \<Rightarrow> HandlerOutcome"

record RpcServer =
  sv_config :: RpcServerConfig
  sv_local_endpoint :: NetworkEndpoint
  sv_handlers :: "(string \<times> RpcHandler) list"
  sv_stats :: RpcServerStats
  sv_running :: bool

definition CountIoFailure :: "RpcServer \<Rightarrow> RpcServer" where
  "CountIoFailure sv = sv\<lparr>sv_stats := (sv_stats sv)\<lparr>io_failures := io_failures (sv_stats sv) + 1\<rparr>\<rparr>"

definition CountMalformed :: "RpcServer \<Rightarrow> RpcServer" where
  "CountMalformed sv =
     sv\<lparr>sv_stats := (sv_stats sv)\<lparr>malformed_requests := malformed_requests (sv_stats sv) + 1\<rparr>\<rparr>"

datatype ReadRequest = ReadFailed | Malformed | Received u64 u32 string bytes

definition read_request :: "RpcServerConfig \<Rightarrow> Deadline \<Rightarrow> Conn \<Rightarrow> (ReadRequest \<times> Conn) option" where
  "read_request config io_deadline cn = do {
     (status, header, cn) \<leftarrow> rpc_ReadExact io_deadline kRequestHeaderBytes cn;
     if \<not> ok status then Some (ReadFailed, cn)
     else if take 4 header \<noteq> kRequestMagic \<or> LoadU16 header 4 \<noteq> kRpcVersion then Some (Malformed, cn)
     else
       let request_id = LoadU64 header 8; timeout_milliseconds = LoadU32 header 16;
           method_size = unat (LoadU32 header 20); payload_size = unat (LoadU32 header 24) in
       if request_id = 0 \<or> timeout_milliseconds = 0 \<or> method_size = 0 \<or>
         method_size > kMaximumMethodBytes \<or> payload_size > rs_max_request_bytes config
       then Some (Malformed, cn)
       else do {
         (status, method, cn) \<leftarrow> rpc_ReadExact io_deadline method_size cn;
         (status, request, cn) \<leftarrow>
           (if ok status \<and> payload_size \<noteq> 0 then rpc_ReadExact io_deadline payload_size cn
            else Some (status, [], cn));
         if \<not> ok status then Some (ReadFailed, cn)
         else Some (Received request_id timeout_milliseconds (string_of_bytes method) request, cn)
       }
   }"

text \<open>The clock readings of one connection: its start, the two of the request's own deadline, and the
  start of the answer.\<close>

record ConnClock =
  ck_start :: time_point
  ck_after :: time_point
  ck_expired :: time_point
  ck_write :: time_point

definition run_handler :: "HandlerOutcome \<Rightarrow> bytes Result" where
  "run_handler outcome =
     (case outcome of
        Answered r \<Rightarrow> r
      | HandlerThrew what \<Rightarrow> Inl (mk_status Internal (''RPC handler threw: '' @ what))
      | HandlerThrewUnknown \<Rightarrow> Inl (mk_status Internal ''RPC handler threw''))"

definition dispatch_request :: "RpcHandler option \<Rightarrow> ConnClock \<Rightarrow> u32 \<Rightarrow> bytes \<Rightarrow> bytes Result" where
  "dispatch_request handler ck timeout_milliseconds request =
     (case handler of
        None \<Rightarrow> Inl (mk_status NotFound ''RPC method is not registered'')
      | Some h \<Rightarrow>
          if expired (ck_expired ck) (After (ck_after ck) (uint timeout_milliseconds * 1000000))
          then Inl (mk_status Timeout ''RPC request expired before dispatch'')
          else run_handler (h request))"

definition answer_parts :: "RpcServerConfig \<Rightarrow> bytes Result \<Rightarrow> StatusCode \<times> string \<times> bytes" where
  "answer_parts config response =
     (case response of
        Inr p \<Rightarrow>
          if length p > rs_max_request_bytes config
          then (Internal, ''RPC response exceeds configured size'', [])
          else (Ok, '''', p)
      | Inl e \<Rightarrow> (code e, take kMaximumDetailBytes (detail e), []))"

definition write_answer ::
    "Deadline \<Rightarrow> u64 \<Rightarrow> StatusCode \<times> string \<times> bytes \<Rightarrow> Conn \<Rightarrow> (Status \<times> Conn) option" where
  "write_answer write_deadline request_id parts cn =
     (case parts of (response_code, det, p) \<Rightarrow> do {
        (status, cn) \<leftarrow> rpc_WriteExact write_deadline
          (response_header response_code request_id (length det) (length p)) cn;
        (status, cn) \<leftarrow>
          (if ok status \<and> det \<noteq> [] then rpc_WriteExact write_deadline (bytes_of_string det) cn
           else Some (status, cn));
        if ok status \<and> p \<noteq> [] then rpc_WriteExact write_deadline p cn else Some (status, cn)
      })"

definition HandleConnection :: "ConnClock \<Rightarrow> Conn \<Rightarrow> RpcServer \<Rightarrow> (RpcServer \<times> Conn) option" where
  "HandleConnection ck cn sv = do {
     (received, cn) \<leftarrow> read_request (sv_config sv) (After (ck_start ck) (rs_io_timeout (sv_config sv))) cn;
     (case received of
        ReadFailed \<Rightarrow> Some (CountIoFailure sv, cn)
      | Malformed \<Rightarrow> Some (CountMalformed sv, cn)
      | Received request_id timeout_milliseconds method request \<Rightarrow>
          let sv = sv\<lparr>sv_stats := (sv_stats sv)\<lparr>requests := requests (sv_stats sv) + 1\<rparr>\<rparr>;
              response = dispatch_request (map_of (sv_handlers sv) method) ck timeout_milliseconds request;
              sv = (if result_ok response then sv
                    else sv\<lparr>sv_stats := (sv_stats sv)\<lparr>handler_failures :=
                        handler_failures (sv_stats sv) + 1\<rparr>\<rparr>) in
          do {
            (status, cn) \<leftarrow> write_answer (After (ck_write ck) (rs_io_timeout (sv_config sv))) request_id
              (answer_parts (sv_config sv) response) cn;
            Some (if ok status
                  then sv\<lparr>sv_stats := (sv_stats sv)\<lparr>responses := responses (sv_stats sv) + 1\<rparr>\<rparr>
                  else CountIoFailure sv, cn)
          })
   }"

text \<open>One turn of the server thread: what \<open>poll\<close>, \<open>accept\<close> and \<open>fcntl\<close> do.\<close>

datatype AcceptOutcome =
    ListenPollFailed bool | NoConnection | AcceptFailed bool | AcceptNotNonblocking
  | Accepted ConnClock Conn

definition rpc_Run_turn :: "AcceptOutcome \<Rightarrow> RpcServer \<Rightarrow> RpcServer option" where
  "rpc_Run_turn outcome sv =
     (case outcome of
        ListenPollFailed eintr \<Rightarrow> Some (if eintr then sv else CountIoFailure sv)
      | NoConnection \<Rightarrow> Some sv
      | AcceptFailed retry \<Rightarrow> Some (if retry then sv else CountIoFailure sv)
      | AcceptNotNonblocking \<Rightarrow> Some (CountIoFailure sv)
      | Accepted ck cn \<Rightarrow>
          map_option fst (HandleConnection ck cn
            (sv\<lparr>sv_stats := (sv_stats sv)\<lparr>accepted_connections := accepted_connections (sv_stats sv) + 1\<rparr>\<rparr>)))"

record ListenCalls =
  lc_socket :: "string option"
  lc_bind :: "string option"
  lc_listen :: "string option"
  lc_fcntl :: "string option"
  lc_getsockname :: "string + u16"

definition RpcServer_Create ::
    "(string \<Rightarrow> u32 option) \<Rightarrow> ListenCalls \<Rightarrow> RpcServerConfig \<Rightarrow> RpcServer Result" where
  "RpcServer_Create pton calls config =
     (if rs_max_request_bytes config = 0 \<or> rs_max_request_bytes config > kAbsolutePayloadLimit \<or>
        rs_io_timeout config \<le> 0 \<or> rs_listen_backlog config = 0 \<or> rs_listen_backlog config > 1024
      then Inl (mk_status InvalidArgument ''invalid RPC server configuration'')
      else case SocketAddress pton (rs_bind_endpoint config) True of
        Inl e \<Rightarrow> Inl e
      | Inr _ \<Rightarrow>
      case lc_socket calls of Some err \<Rightarrow> Inl (NetworkError ''socket(RPC)'' err) | None \<Rightarrow>
      case lc_bind calls of Some err \<Rightarrow> Inl (NetworkError ''bind(RPC)'' err) | None \<Rightarrow>
      case lc_listen calls of Some err \<Rightarrow> Inl (NetworkError ''listen(RPC)'' err) | None \<Rightarrow>
      case lc_fcntl calls of Some err \<Rightarrow> Inl (NetworkError ''fcntl(O_NONBLOCK)'' err) | None \<Rightarrow>
      case lc_getsockname calls of Inl err \<Rightarrow> Inl (NetworkError ''getsockname(RPC)'' err) | Inr port \<Rightarrow>
      Inr \<lparr>sv_config = config,
        sv_local_endpoint = \<lparr>ep_address = ep_address (rs_bind_endpoint config), ep_port = port\<rparr>,
        sv_handlers = [],
        sv_stats = \<lparr>accepted_connections = 0, requests = 0, responses = 0, malformed_requests = 0,
          handler_failures = 0, io_failures = 0\<rparr>,
        sv_running = False\<rparr>)"

definition RegisterHandler :: "string \<Rightarrow> RpcHandler option \<Rightarrow> RpcServer \<Rightarrow> Status \<times> RpcServer" where
  "RegisterHandler method handler sv =
     (if method = [] \<or> length method > kMaximumMethodBytes
      then (mk_status InvalidArgument ''RPC handler requires a bounded method and callback'', sv)
      else case handler of
        None \<Rightarrow> (mk_status InvalidArgument ''RPC handler requires a bounded method and callback'', sv)
      | Some h \<Rightarrow>
          if map_of (sv_handlers sv) method \<noteq> None
          then (mk_status AlreadyExists ''RPC method is already registered'', sv)
          else (OkStatus, sv\<lparr>sv_handlers := AList.update method h (sv_handlers sv)\<rparr>))"

definition RpcServer_Start :: "RpcServer \<Rightarrow> Status \<times> RpcServer" where
  "RpcServer_Start sv =
     (if sv_running sv then (mk_status AlreadyExists ''RPC server is already running'', sv)
      else (OkStatus, sv\<lparr>sv_running := True\<rparr>))"

definition RpcServer_Stop :: "RpcServer \<Rightarrow> Status \<times> RpcServer" where
  "RpcServer_Stop sv = (OkStatus, sv\<lparr>sv_running := False\<rparr>)"


subsection \<open>The client\<close>

datatype ConnectOutcome = Connected | ConnectInProgress | ConnectFailed string

record ClientCalls =
  cc_socket :: "string option"
  cc_fcntl :: "string option"
  cc_connect :: ConnectOutcome
  cc_getsockopt :: "string option"
  cc_so_error :: "string option"

definition connect_client :: "ClientCalls \<Rightarrow> Deadline \<Rightarrow> Conn \<Rightarrow> (Status \<times> Conn) option" where
  "connect_client calls dl cn =
     (case cc_connect calls of
        Connected \<Rightarrow> Some (OkStatus, cn)
      | ConnectFailed err \<Rightarrow> Some (NetworkError ''connect(RPC)'' err, cn)
      | ConnectInProgress \<Rightarrow> do {
          (connected, _, rest) \<leftarrow> WaitFor False dl (cn_script cn);
          let cn = cn\<lparr>cn_script := rest\<rparr>;
          if \<not> ok connected then Some (connected, cn)
          else case cc_getsockopt calls of
            Some err \<Rightarrow> Some (NetworkError ''getsockopt(SO_ERROR)'' err, cn)
          | None \<Rightarrow>
              (case cc_so_error calls of
                 Some err \<Rightarrow> Some (NetworkError ''connect(RPC)'' err, cn)
               | None \<Rightarrow> Some (OkStatus, cn))
        })"

definition write_request ::
    "Deadline \<Rightarrow> u64 \<Rightarrow> u32 \<Rightarrow> string \<Rightarrow> bytes \<Rightarrow> Conn \<Rightarrow> (Status \<times> Conn) option" where
  "write_request dl request_id timeout_milliseconds method p cn = do {
     (status, cn) \<leftarrow> rpc_WriteExact dl
       (request_header request_id timeout_milliseconds (length method) (length p)) cn;
     (status, cn) \<leftarrow>
       (if ok status then rpc_WriteExact dl (bytes_of_string method) cn else Some (status, cn));
     if ok status \<and> p \<noteq> [] then rpc_WriteExact dl p cn else Some (status, cn)
   }"

definition read_response :: "Deadline \<Rightarrow> u64 \<Rightarrow> Conn \<Rightarrow> (bytes Result \<times> Conn) option" where
  "read_response dl request_id cn = do {
     (status, header, cn) \<leftarrow> rpc_ReadExact dl kResponseHeaderBytes cn;
     if \<not> ok status then Some (Inl status, cn)
     else if take 4 header \<noteq> kResponseMagic \<or> LoadU16 header 4 \<noteq> kRpcVersion
     then Some (Inl (mk_status TransportError ''RPC response header is invalid''), cn)
     else
       let raw_code = LoadU16 header 6; response_request_id = LoadU64 header 8;
           detail_size = unat (LoadU32 header 16); response_size = unat (LoadU32 header 20) in
       if \<not> ValidStatusCode raw_code \<or> response_request_id \<noteq> request_id \<or>
         detail_size > kMaximumDetailBytes \<or> response_size > kAbsolutePayloadLimit
       then Some (Inl (mk_status TransportError ''RPC response bounds or correlation are invalid''), cn)
       else do {
         (status, det, cn) \<leftarrow>
           (if detail_size \<noteq> 0 then rpc_ReadExact dl detail_size cn else Some (status, [], cn));
         (status, response, cn) \<leftarrow>
           (if ok status \<and> response_size \<noteq> 0 then rpc_ReadExact dl response_size cn
            else Some (status, [], cn));
         if \<not> ok status then Some (Inl status, cn)
         else if status_code_of_raw raw_code \<noteq> Ok
         then Some (Inl (mk_status (status_code_of_raw raw_code) (string_of_bytes det)), cn)
         else Some (Inr response, cn)
       }
   }"

text \<open>\<open>request_id\<close> is the value drawn from the process-wide counter; \<open>stopped\<close> and the three clock
  readings are those of the checks before the connection and of the remaining time.\<close>

definition Call ::
    "(string \<Rightarrow> u32 option) \<Rightarrow> ClientCalls \<Rightarrow> u64 \<Rightarrow> bool \<Rightarrow> time_point \<Rightarrow> time_point \<Rightarrow> NetworkEndpoint \<Rightarrow>
       string \<Rightarrow> bytes \<Rightarrow> Deadline \<Rightarrow> Conn \<Rightarrow> (bytes Result \<times> Conn) option" where
  "Call pton calls request_id stopped now1 now2 endpoint method p dl cn =
     (if method = [] \<or> length method > kMaximumMethodBytes \<or> length p > kAbsolutePayloadLimit
      then Some (Inl (mk_status InvalidArgument ''invalid RPC request bounds''), cn)
      else if stopped then Some (Inl (mk_status Cancelled ''RPC operation cancelled''), cn)
      else if expired now1 dl then Some (Inl (mk_status Timeout ''RPC deadline expired''), cn)
      else case SocketAddress pton endpoint False of
        Inl e \<Rightarrow> Some (Inl e, cn)
      | Inr _ \<Rightarrow>
      case cc_socket calls of
        Some err \<Rightarrow> Some (Inl (NetworkError ''socket(RPC client)'' err), cn)
      | None \<Rightarrow>
      case cc_fcntl calls of
        Some err \<Rightarrow> Some (Inl (NetworkError ''fcntl(O_NONBLOCK)'' err), cn)
      | None \<Rightarrow> do {
          (status, cn) \<leftarrow> connect_client calls dl cn;
          if \<not> ok status then Some (Inl status, cn)
          else
            let timeout_milliseconds = RemainingMilliseconds dl now2 in
            if timeout_milliseconds = 0
            then Some (Inl (mk_status Timeout ''RPC deadline expired''), cn)
            else do {
              (status, cn) \<leftarrow> write_request dl request_id timeout_milliseconds method p cn;
              if \<not> ok status then Some (Inl status, cn) else read_response dl request_id cn
            }
        })"


section \<open>Exact transfers\<close>

lemma WaitFor_suffix: "WaitFor pollin dl ts = Some (st, io, ts') \<Longrightarrow> suffix ts' ts"
proof (induction ts)
  case (Cons t ts)
  then have "WaitFor pollin dl ts = Some (st, io, ts') \<or> ts' = ts"
    by (simp split: if_split_asm PollOutcome.split_asm)
  with Cons.IH show ?case by (auto intro: suffix_ConsI)
qed simp

lemma cn_self_update [simp]: "cn\<lparr>cn_script := s, cn_input := cn_input cn\<rparr> = cn\<lparr>cn_script := s\<rparr>"
  "cn\<lparr>cn_script := s, cn_output := cn_output cn\<rparr> = cn\<lparr>cn_script := s\<rparr>"
  by simp_all

text \<open>One turn of a transfer: it ends, it fails, or it moves some bytes and goes on.\<close>

lemma read_loop_cases:
  assumes "read_loop dl amount data cn = Some (st, data', cn')"
  obtains (finished) "amount \<le> length data" "st = OkStatus" "data' = data" "cn' = cn"
  | (failed) rest where "suffix rest (cn_script cn)" "\<not> ok st" "data' = data" "cn' = cn\<lparr>cn_script := rest\<rparr>"
  | (moved) got left rest where "suffix rest (cn_script cn)" "length rest < length (cn_script cn)"
      "length data < amount" "cn_input cn = got @ left" "length (data @ got) \<le> amount"
      "read_loop dl amount (data @ got) (cn\<lparr>cn_script := rest, cn_input := left\<rparr>) = Some (st, data', cn')"
proof (cases "length data < amount")
  case False
  with assms show thesis by (intro finished) (simp_all add: read_loop.simps)
next
  case True
  note unf = assms [unfolded read_loop.simps [of dl amount data cn] Let_def]
  obtain ready io rest where w: "WaitFor True dl (cn_script cn) = Some (ready, io, rest)"
    using unf True by (auto split: option.splits)
  note rest = WaitFor_suffix [OF w] WaitFor_shorter [OF w]
  show thesis
  proof (cases "ok ready")
    case False
    with unf True w rest show thesis by (intro failed [of rest]) simp_all
  next
    case ready: True
    show thesis
    proof (cases io)
      case (Moved n)
      let ?r = "min (min n (amount - length data)) (length (cn_input cn))"
      show thesis
      proof (cases "?r > 0")
        case False
        with unf True w rest ready Moved show thesis by (intro failed [of rest]) auto
      next
        case r: True
        with unf True w rest ready Moved show thesis
          by (intro moved [of rest "take ?r (cn_input cn)" "drop ?r (cn_input cn)"]) simp_all
      qed
    next
      case Retry
      with unf True w rest ready show thesis by (intro moved [of rest "[]" "cn_input cn"]) simp_all
    next
      case (IoError err)
      with unf True w rest ready show thesis by (intro failed [of rest]) (auto simp: NetworkError_def)
    qed
  qed
qed

lemma write_loop_cases:
  assumes "write_loop dl data offset cn = Some (st, cn')"
  obtains (finished) "length data \<le> offset" "st = OkStatus" "cn' = cn"
  | (failed) rest where "suffix rest (cn_script cn)" "\<not> ok st" "cn' = cn\<lparr>cn_script := rest\<rparr>"
  | (moved) n rest where "suffix rest (cn_script cn)" "length rest < length (cn_script cn)"
      "offset + n \<le> length data"
      "write_loop dl data (offset + n) (cn\<lparr>cn_script := rest,
         cn_output := cn_output cn @ take n (drop offset data)\<rparr>) = Some (st, cn')"
proof (cases "offset < length data")
  case False
  with assms show thesis by (intro finished) (simp_all add: write_loop.simps)
next
  case True
  note unf = assms [unfolded write_loop.simps [of dl data offset cn] Let_def]
  obtain ready io rest where w: "WaitFor False dl (cn_script cn) = Some (ready, io, rest)"
    using unf True by (auto split: option.splits)
  note rest = WaitFor_suffix [OF w] WaitFor_shorter [OF w]
  show thesis
  proof (cases "ok ready")
    case False
    with unf True w rest show thesis by (intro failed [of rest]) simp_all
  next
    case ready: True
    show thesis
    proof (cases io)
      case (Moved n)
      show thesis
      proof (cases "min n (length data - offset) > 0")
        case False
        with unf True w rest ready Moved show thesis by (intro failed [of rest]) auto
      next
        case r: True
        with unf True w rest ready Moved show thesis
          by (intro moved [of rest "min n (length data - offset)"]) simp_all
      qed
    next
      case Retry
      with unf True w rest ready show thesis by (intro moved [of rest 0]) simp_all
    next
      case (IoError err)
      with unf True w rest ready show thesis by (intro failed [of rest]) (auto simp: NetworkError_def)
    qed
  qed
qed

text \<open>Reading takes a prefix of the peer's bytes, however they are cut; success takes all that was asked
  for.\<close>

lemma read_loop_spec:
  "read_loop dl amount data cn = Some (st, data', cn') \<Longrightarrow> length data \<le> amount \<Longrightarrow>
     (\<exists>got. data' = data @ got \<and> cn_input cn = got @ cn_input cn') \<and> length data' \<le> amount \<and>
     (ok st \<longrightarrow> length data' = amount) \<and> cn_output cn' = cn_output cn \<and> suffix (cn_script cn') (cn_script cn)"
proof (induction "length (cn_script cn)" arbitrary: data cn rule: less_induct)
  case less
  from less.prems(1) show ?case
  proof (cases rule: read_loop_cases)
    case (moved got left rest)
    with less.hyps [OF _ moved(6)] show ?thesis
      using suffix_order.trans [OF _ moved(1)] by auto
  qed (use less.prems(2) in auto)
qed

lemma write_loop_spec:
  "write_loop dl data offset cn = Some (st, cn') \<Longrightarrow> offset \<le> length data \<Longrightarrow>
     (\<exists>k. cn_output cn' = cn_output cn @ take k (drop offset data) \<and> (ok st \<longrightarrow> k = length data - offset)) \<and>
     cn_input cn' = cn_input cn \<and> suffix (cn_script cn') (cn_script cn)"
proof (induction "length (cn_script cn)" arbitrary: offset cn rule: less_induct)
  case less
  from less.prems(1) show ?case
  proof (cases rule: write_loop_cases)
    case (moved n rest)
    from less.hyps [OF _ moved(4)] moved(2,3) obtain k where
      "cn_output cn' = cn_output cn @ take n (drop offset data) @ take k (drop (offset + n) data)"
      "ok st \<longrightarrow> k = length data - (offset + n)" "cn_input cn' = cn_input cn" "suffix (cn_script cn') rest"
      by auto
    then show ?thesis
      using suffix_order.trans [OF _ moved(1)] moved(3)
      by (intro conjI exI [of _ "n + k"]) (simp_all add: take_add add.commute [of offset n])
  qed (use less.prems(2) in \<open>auto intro: exI [of _ 0]\<close>)
qed

lemma rpc_ReadExact_spec:
  assumes "rpc_ReadExact dl amount cn = Some (st, data, cn')"
  shows "cn_input cn = data @ cn_input cn'" "length data \<le> amount" "ok st \<Longrightarrow> length data = amount"
    "cn_output cn' = cn_output cn" "suffix (cn_script cn') (cn_script cn)"
  using read_loop_spec [OF assms [unfolded rpc_ReadExact_def]] by auto

lemma rpc_WriteExact_spec:
  assumes "rpc_WriteExact dl data cn = Some (st, cn')"
  obtains k where "cn_output cn' = cn_output cn @ take k data" "ok st \<longrightarrow> k = length data"
    "cn_input cn' = cn_input cn" "suffix (cn_script cn') (cn_script cn)"
  using write_loop_spec [OF assms [unfolded rpc_WriteExact_def]] by auto


text \<open>A transfer returns when a turn finds the stop token set or the deadline passed; when it returns
  success, that turn is still to come.\<close>

definition late :: "Deadline \<Rightarrow> Turn \<Rightarrow> bool" where
  "late dl t \<longleftrightarrow> tn_stop t \<or> expired (tn_now t) dl"

lemma WaitFor_returns:
  assumes "\<exists>t \<in> set ts. P t" "\<And>t. P t \<Longrightarrow> late dl t"
  obtains st io ts' where "WaitFor pollin dl ts = Some (st, io, ts')" "ok st \<Longrightarrow> \<exists>t \<in> set ts'. P t"
  using assms(1)
proof (induction ts arbitrary: thesis)
  case (Cons t ts)
  show ?case
  proof (cases "late dl t")
    case True
    then have "\<exists>st. WaitFor pollin dl (t # ts) = Some (st, tn_io t, ts) \<and> \<not> ok st"
      by (auto simp: late_def)
    then show ?thesis using Cons.prems(1) by blast
  next
    case False
    then have ts: "\<exists>t \<in> set ts. P t" using Cons.prems(2) assms(2) by auto
    obtain st io ts' where IH: "WaitFor pollin dl ts = Some (st, io, ts')" "ok st \<Longrightarrow> \<exists>t \<in> set ts'. P t"
      using Cons.IH [OF _ ts] by blast
    have "WaitFor pollin dl (t # ts) = WaitFor pollin dl ts \<or>
        (\<exists>st io. WaitFor pollin dl (t # ts) = Some (st, io, ts))"
      by (simp split: PollOutcome.split)
    then show ?thesis using Cons.prems(1) IH ts by (elim disjE exE) auto
  qed
qed simp

lemma read_loop_returns:
  assumes "\<And>t. P t \<Longrightarrow> late dl t"
  shows "\<exists>t \<in> set (cn_script cn). P t \<Longrightarrow> \<exists>st data' cn'. read_loop dl amount data cn = Some (st, data', cn') \<and>
     (ok st \<longrightarrow> (\<exists>t \<in> set (cn_script cn'). P t))"
proof (induction "length (cn_script cn)" arbitrary: data cn rule: less_induct)
  case less
  obtain ready io rest where w: "WaitFor True dl (cn_script cn) = Some (ready, io, rest)"
    "ok ready \<Longrightarrow> \<exists>t \<in> set rest. P t"
    using WaitFor_returns [OF less.prems assms] by blast
  have IH: "\<exists>st data' cn'. read_loop dl amount data (cn\<lparr>cn_script := rest, cn_input := i\<rparr>) = Some (st, data', cn') \<and>
      (ok st \<longrightarrow> (\<exists>t \<in> set (cn_script cn'). P t))" if "ok ready" for data i
    using WaitFor_shorter [OF w(1)] w(2) [OF that] by (intro less.hyps) simp_all
  show ?case
    using less.prems w IH IH [of _ "cn_input cn"]
    by (subst read_loop.simps) (auto simp: Let_def NetworkError_def split: IoResult.split)
qed

lemma write_loop_returns:
  assumes "\<And>t. P t \<Longrightarrow> late dl t"
  shows "\<exists>t \<in> set (cn_script cn). P t \<Longrightarrow> \<exists>st cn'. write_loop dl data offset cn = Some (st, cn') \<and>
     (ok st \<longrightarrow> (\<exists>t \<in> set (cn_script cn'). P t))"
proof (induction "length (cn_script cn)" arbitrary: offset cn rule: less_induct)
  case less
  obtain ready io rest where w: "WaitFor False dl (cn_script cn) = Some (ready, io, rest)"
    "ok ready \<Longrightarrow> \<exists>t \<in> set rest. P t"
    using WaitFor_returns [OF less.prems assms] by blast
  have IH: "\<exists>st cn'. write_loop dl data offset (cn\<lparr>cn_script := rest, cn_output := i\<rparr>) = Some (st, cn') \<and>
      (ok st \<longrightarrow> (\<exists>t \<in> set (cn_script cn'). P t))" if "ok ready" for offset i
    using WaitFor_shorter [OF w(1)] w(2) [OF that] by (intro less.hyps) simp_all
  show ?case
    using less.prems w IH IH [of _ "cn_output cn"]
    by (subst write_loop.simps) (auto simp: Let_def NetworkError_def split: IoResult.split)
qed

text \<open>Under a script in which the socket is always ready and moves at least a byte, one turn for each
  byte is enough.\<close>

definition smooth :: "Deadline \<Rightarrow> Turn \<Rightarrow> bool" where
  "smooth dl t \<longleftrightarrow> \<not> tn_stop t \<and> \<not> expired (tn_now t) dl \<and>
     (case tn_poll t (wait_timeout dl (tn_now2 t)) of PollEvents ev \<Rightarrow> rv_ready ev \<and> \<not> rv_nval ev | _ \<Rightarrow> False) \<and>
     (case tn_io t of Moved n \<Rightarrow> 0 < n | _ \<Rightarrow> False)"

lemma WaitFor_smooth:
  assumes "list_all (smooth dl) ts" "ts \<noteq> []"
  obtains n where "WaitFor pollin dl ts = Some (OkStatus, Moved (Suc n), tl ts)" "list_all (smooth dl) (tl ts)"
proof -
  obtain t rest where ts: "ts = t # rest" using assms(2) by (cases ts) auto
  then obtain n where "tn_io t = Moved (Suc n)"
    using assms(1) by (auto simp: smooth_def gr0_conv_Suc split: IoResult.splits)
  with ts assms(1) show thesis
    by (intro that [of n]) (auto simp: smooth_def split: PollOutcome.splits)
qed

lemma read_loop_smooth:
  "list_all (smooth dl) (cn_script cn) \<Longrightarrow> amount - length data \<le> length (cn_script cn) \<Longrightarrow>
   amount - length data \<le> length (cn_input cn) \<Longrightarrow> \<exists>data' cn'. read_loop dl amount data cn = Some (OkStatus, data', cn') \<and>
     list_all (smooth dl) (cn_script cn') \<and> length (cn_script cn) \<le> length (cn_script cn') + (amount - length data)"
proof (induction "length (cn_script cn)" arbitrary: data cn rule: less_induct)
  case less
  show ?case
  proof (cases "length data < amount")
    case False
    then show ?thesis using less.prems by (simp add: read_loop.simps)
  next
    case True
    then have "cn_script cn \<noteq> []" using less.prems(2) by auto
    then obtain n where w: "WaitFor True dl (cn_script cn) = Some (OkStatus, Moved (Suc n), tl (cn_script cn))"
      "list_all (smooth dl) (tl (cn_script cn))" by (rule WaitFor_smooth [OF less.prems(1)])
    define r where "r = min (min (Suc n) (amount - length data)) (length (cn_input cn))"
    have r: "0 < r" "r \<le> amount - length data" "r \<le> length (cn_input cn)"
      using True less.prems(3) by (auto simp: r_def)
    let ?cn = "cn\<lparr>cn_script := tl (cn_script cn), cn_input := drop r (cn_input cn)\<rparr>"
    have "\<exists>data' cn'. read_loop dl amount (data @ take r (cn_input cn)) ?cn = Some (OkStatus, data', cn') \<and>
        list_all (smooth dl) (cn_script cn') \<and>
        length (cn_script ?cn) \<le> length (cn_script cn') + (amount - length (data @ take r (cn_input cn)))"
      using less.prems w(2) r \<open>cn_script cn \<noteq> []\<close> by (intro less.hyps) auto
    moreover have "read_loop dl amount data cn = read_loop dl amount (data @ take r (cn_input cn)) ?cn"
      using True w(1) r(1) by (subst read_loop.simps) (simp add: r_def Let_def)
    ultimately show ?thesis using r by auto
  qed
qed

lemma write_loop_smooth:
  "list_all (smooth dl) (cn_script cn) \<Longrightarrow> length data - offset \<le> length (cn_script cn) \<Longrightarrow>
   \<exists>cn'. write_loop dl data offset cn = Some (OkStatus, cn') \<and>
     list_all (smooth dl) (cn_script cn') \<and> length (cn_script cn) \<le> length (cn_script cn') + (length data - offset)"
proof (induction "length (cn_script cn)" arbitrary: offset cn rule: less_induct)
  case less
  show ?case
  proof (cases "offset < length data")
    case False
    then show ?thesis using less.prems by (simp add: write_loop.simps)
  next
    case True
    then have "cn_script cn \<noteq> []" using less.prems(2) by auto
    then obtain n where w: "WaitFor False dl (cn_script cn) = Some (OkStatus, Moved (Suc n), tl (cn_script cn))"
      "list_all (smooth dl) (tl (cn_script cn))" by (rule WaitFor_smooth [OF less.prems(1)])
    define r where "r = min (Suc n) (length data - offset)"
    have r: "0 < r" "r \<le> length data - offset" using True by (auto simp: r_def)
    let ?cn = "cn\<lparr>cn_script := tl (cn_script cn), cn_output := cn_output cn @ take r (drop offset data)\<rparr>"
    have "\<exists>cn'. write_loop dl data (offset + r) ?cn = Some (OkStatus, cn') \<and> list_all (smooth dl) (cn_script cn') \<and>
        length (cn_script ?cn) \<le> length (cn_script cn') + (length data - (offset + r))"
      using less.prems w(2) r \<open>cn_script cn \<noteq> []\<close> by (intro less.hyps) auto
    moreover have "write_loop dl data offset cn = write_loop dl data (offset + r) ?cn"
      using True w(1) r(1) by (subst write_loop.simps) (simp add: r_def Let_def)
    ultimately show ?thesis using r by auto
  qed
qed

end
