(* ===== verification/Rpc_Properties.thy ===== *)
theory Rpc_Properties
  imports Rpc
begin

text \<open>
  The frames of \<open>rpc.cpp\<close> and what the client and the server guarantee together: a remote call is the
  local dispatch, the server answers whole requests only, and both sides end by their deadlines.
\<close>

section \<open>Frames\<close>

lemma length_rpc_fields [simp]:
  "length (be32 x) = 4" "length kRequestMagic = 4" "length kResponseMagic = 4"
  by (simp_all add: be32_def kRequestMagic_def kResponseMagic_def bytes_of_string_def)

definition request_layout :: "bytes \<Rightarrow> u64 \<Rightarrow> u32 \<Rightarrow> u32 \<Rightarrow> u32 \<Rightarrow> bytes" where
  "request_layout reserved request_id tmo m n =
     (kRequestMagic @ be16 kRpcVersion @ reserved) @ be64 request_id @ be32 tmo @ be32 m @ be32 n"

lemma request_header_layout:
  "request_header request_id tmo m n = request_layout [0, 0] request_id tmo (of_nat m) (of_nat n)"
  unfolding request_header_def Let_def kRequestHeaderBytes_def StoreU16_def StoreU32_def StoreU64_def
  by (simp add: write_at_def request_layout_def kRequestMagic_def bytes_of_string_def be16_def be32_def
      be64_def upt_conv_Cons numeral_eq_Suc)

lemma response_header_layout:
  "response_header c request_id m n = kResponseMagic @ be16 kRpcVersion @ be16 (status_code_raw c) @
     be64 request_id @ be32 (of_nat m) @ be32 (of_nat n)"
  unfolding response_header_def Let_def kResponseHeaderBytes_def StoreU16_def StoreU32_def StoreU64_def
  by (simp add: write_at_def kResponseMagic_def bytes_of_string_def be16_def be32_def
      be64_def upt_conv_Cons numeral_eq_Suc)

lemma length_headers [simp]:
  "length (request_header i t m n) = 28" "length (response_header c i m n) = 24"
  by (simp_all add: request_header_layout response_header_layout request_layout_def)

lemma request_layout_fields:
  assumes "length reserved = 2" and "h = request_layout reserved request_id tmo m n"
  shows "take 4 h = kRequestMagic" "LoadU16 h 4 = kRpcVersion" "LoadU64 h 8 = request_id" "LoadU32 h 16 = tmo"
    "LoadU32 h 20 = m" "LoadU32 h 24 = n"
proof -
  let ?h = "kRequestMagic @ be16 kRpcVersion @ reserved"
  show "take 4 h = kRequestMagic" by (simp add: assms request_layout_def)
  show "LoadU16 h 4 = kRpcVersion"
    using u16be.load_enc [of kRequestMagic 4] by (simp add: assms request_layout_def)
  show "LoadU64 h 8 = request_id"
    using u64be.load_enc [of ?h 8] by (simp add: assms request_layout_def)
  show "LoadU32 h 16 = tmo"
    using u32be.load_enc [of "?h @ be64 request_id" 16] by (simp add: assms request_layout_def)
  show "LoadU32 h 20 = m"
    using u32be.load_enc [of "?h @ be64 request_id @ be32 tmo" 20] by (simp add: assms request_layout_def)
  show "LoadU32 h 24 = n"
    using u32be.load_enc [of "?h @ be64 request_id @ be32 tmo @ be32 m" 24 _ "[]"] by (simp add: assms request_layout_def)
qed

lemma response_header_fields:
  assumes "h = response_header c request_id m n"
  shows "take 4 h = kResponseMagic" "LoadU16 h 4 = kRpcVersion" "LoadU16 h 6 = status_code_raw c"
    "LoadU64 h 8 = request_id" "LoadU32 h 16 = of_nat m" "LoadU32 h 20 = of_nat n"
proof -
  let ?h = "kResponseMagic @ be16 kRpcVersion @ be16 (status_code_raw c)"
  show "take 4 h = kResponseMagic" by (simp add: assms response_header_layout)
  show "LoadU16 h 4 = kRpcVersion"
    using u16be.load_enc [of kResponseMagic 4] by (simp add: assms response_header_layout)
  show "LoadU16 h 6 = status_code_raw c"
    using u16be.load_enc [of "kResponseMagic @ be16 kRpcVersion" 6] by (simp add: assms response_header_layout)
  show "LoadU64 h 8 = request_id"
    using u64be.load_enc [of ?h 8] by (simp add: assms response_header_layout)
  show "LoadU32 h 16 = of_nat m"
    using u32be.load_enc [of "?h @ be64 request_id" 16] by (simp add: assms response_header_layout)
  show "LoadU32 h 20 = of_nat n"
    using u32be.load_enc [of "?h @ be64 request_id @ be32 (of_nat m)" 20 _ "[]"]
    by (simp add: assms response_header_layout)
qed

text \<open>A header of the right length whose fields were checked is the layout of its fields.\<close>

lemma request_layout_complete:
  assumes "length h = 28" "take 4 h = kRequestMagic" "LoadU16 h 4 = kRpcVersion"
  shows "h = request_layout (take 2 (drop 6 h)) (LoadU64 h 8) (LoadU32 h 16) (LoadU32 h 20) (LoadU32 h 24)"
proof -
  have "be16 kRpcVersion = take 2 (drop 4 h)"
    using u16be.enc_load [of 4 h] assms by simp
  moreover have "be64 (LoadU64 h 8) = take 8 (drop 8 h)" "be32 (LoadU32 h 16) = take 4 (drop 16 h)"
    "be32 (LoadU32 h 20) = take 4 (drop 20 h)" "be32 (LoadU32 h 24) = take 4 (drop 24 h)"
    using assms(1) by (simp_all add: u64be.enc_load u32be.enc_load)
  moreover have "h = take 4 h @ take 2 (drop 4 h) @ take 2 (drop 6 h) @ take 8 (drop 8 h) @
      take 4 (drop 16 h) @ take 4 (drop 20 h) @ take 4 (drop 24 h)"
    using slice_step [of 0 4 4 h] slice_step [of 4 2 6 h] slice_step [of 6 2 8 h] slice_step [of 8 8 16 h]
      slice_step [of 16 4 20 h] slice_step [of 20 4 24 h] assms(1) by simp
  ultimately show ?thesis
    using assms(2) by (simp add: request_layout_def)
qed

lemma unat_of_nat_u32: "n < 2 ^ 32 \<Longrightarrow> unat (of_nat n :: u32) = n"
  by (simp add: unat_of_nat)

definition request_frame :: "bytes \<Rightarrow> u64 \<Rightarrow> u32 \<Rightarrow> string \<Rightarrow> bytes \<Rightarrow> bytes" where
  "request_frame reserved request_id tmo meth p =
     request_layout reserved request_id tmo (of_nat (length meth)) (of_nat (length p)) @
     bytes_of_string meth @ p"

definition response_frame :: "u64 \<Rightarrow> StatusCode \<times> string \<times> bytes \<Rightarrow> bytes" where
  "response_frame request_id parts = (case parts of (c, det, p) \<Rightarrow>
     response_header c request_id (length det) (length p) @ bytes_of_string det @ p)"

definition request_bounds :: "RpcServerConfig \<Rightarrow> u64 \<Rightarrow> u32 \<Rightarrow> string \<Rightarrow> bytes \<Rightarrow> bool" where
  "request_bounds config request_id tmo meth p \<longleftrightarrow> request_id \<noteq> 0 \<and> tmo \<noteq> 0 \<and> meth \<noteq> [] \<and>
     length meth \<le> kMaximumMethodBytes \<and> length p \<le> rs_max_request_bytes config"


definition ready :: "Deadline \<Rightarrow> nat \<Rightarrow> Conn \<Rightarrow> bool" where
  "ready dl n cn \<longleftrightarrow> list_all (smooth dl) (cn_script cn) \<and> n \<le> length (cn_script cn)"

lemma ready_later:
  "ready dl n cn \<Longrightarrow> suffix (cn_script cn') (cn_script cn) \<Longrightarrow> k \<le> length (cn_script cn') \<Longrightarrow> ready dl k cn'"
  by (auto simp: ready_def suffix_def)

lemma ready_le: "ready dl n cn \<Longrightarrow> k \<le> n \<Longrightarrow> ready dl k cn"
  by (simp add: ready_def)

lemma rpc_ReadExact_ready:
  assumes "ready dl (length a + n) cn" "cn_input cn = a @ b"
  obtains cn' where "rpc_ReadExact dl (length a) cn = Some (OkStatus, a, cn')" "cn_input cn' = b"
    "cn_output cn' = cn_output cn" "ready dl n cn'" "suffix (cn_script cn') (cn_script cn)"
proof -
  obtain data cn' where r: "rpc_ReadExact dl (length a) cn = Some (OkStatus, data, cn')"
    "list_all (smooth dl) (cn_script cn')" "length (cn_script cn) \<le> length (cn_script cn') + length a"
    using read_loop_smooth [of dl cn "length a" "[]"] assms by (auto simp: ready_def rpc_ReadExact_def)
  note spec = rpc_ReadExact_spec [OF r(1)]
  have "data = a" "cn_input cn' = b"
    using spec(1,3) assms(2) by (simp_all add: append_eq_append_conv)
  then show thesis
    using that [of cn'] r spec assms(1) by (simp add: ready_def)
qed

lemma rpc_WriteExact_ready:
  assumes "ready dl (length d + n) cn"
  obtains cn' where "rpc_WriteExact dl d cn = Some (OkStatus, cn')" "cn_input cn' = cn_input cn"
    "cn_output cn' = cn_output cn @ d" "ready dl n cn'" "suffix (cn_script cn') (cn_script cn)"
proof -
  obtain cn' where r: "rpc_WriteExact dl d cn = Some (OkStatus, cn')"
    "list_all (smooth dl) (cn_script cn')" "length (cn_script cn) \<le> length (cn_script cn') + length d"
    using write_loop_smooth [of dl cn d 0] assms by (auto simp: ready_def rpc_WriteExact_def)
  obtain k where "cn_output cn' = cn_output cn @ take k d" "ok OkStatus \<longrightarrow> k = length d"
    "cn_input cn' = cn_input cn" "suffix (cn_script cn') (cn_script cn)"
    by (rule rpc_WriteExact_spec [OF r(1)])
  then show thesis
    using that [of cn'] r assms by (simp add: ready_def)
qed

section \<open>The four frame routines\<close>

lemma read_request_ready:
  assumes "cn_input cn = request_frame reserved i tmo meth p @ rest" "length reserved = 2"
    and "request_bounds config i tmo meth p" "rs_max_request_bytes config \<le> kAbsolutePayloadLimit"
    and "ready dl (length (request_frame reserved i tmo meth p) + n) cn"
  obtains cn' where "read_request config dl cn = Some (Received i tmo meth p, cn')" "cn_input cn' = rest"
    "cn_output cn' = cn_output cn" "ready dl n cn'" "suffix (cn_script cn') (cn_script cn)"
proof -
  define h where "h = request_layout reserved i tmo (of_nat (length meth)) (of_nat (length p))"
  have len: "length h = kRequestHeaderBytes" by (simp add: h_def request_layout_def assms(2) kRequestHeaderBytes_def)
  note fields = request_layout_fields [OF assms(2) h_def]
  have bounds: "i \<noteq> 0" "tmo \<noteq> 0" "0 < length meth" "length meth \<le> 128"
    "length p \<le> rs_max_request_bytes config" "length p < 2 ^ 32" "length meth < 2 ^ 32"
    using assms(3,4) by (auto simp: request_bounds_def kMaximumMethodBytes_def kAbsolutePayloadLimit_def)
  obtain c1 where 1: "rpc_ReadExact dl kRequestHeaderBytes cn = Some (OkStatus, h, c1)"
    "cn_input c1 = bytes_of_string meth @ p @ rest" "cn_output c1 = cn_output cn"
    "ready dl (length meth + (length p + n)) c1" "suffix (cn_script c1) (cn_script cn)"
    using rpc_ReadExact_ready [of dl h "length meth + (length p + n)" cn "bytes_of_string meth @ p @ rest"] assms(1,5) len
    by (auto simp: request_frame_def h_def [symmetric] add.assoc)
  obtain c2 where 2: "rpc_ReadExact dl (length meth) c1 = Some (OkStatus, bytes_of_string meth, c2)"
    "cn_input c2 = p @ rest" "cn_output c2 = cn_output c1"
    "ready dl (length p + n) c2" "suffix (cn_script c2) (cn_script c1)"
    using rpc_ReadExact_ready [of dl "bytes_of_string meth" "length p + n" c1 "p @ rest"] 1 by auto
  obtain c3 where 3: "rpc_ReadExact dl (length p) c2 = Some (OkStatus, p, c3)"
    "cn_input c3 = rest" "cn_output c3 = cn_output c2" "ready dl n c3" "suffix (cn_script c3) (cn_script c2)"
    using rpc_ReadExact_ready [of dl p n c2 rest] 2 by auto
  have sizes: "unat (LoadU32 h 20) = length meth" "unat (LoadU32 h 24) = length p"
    using bounds fields by (simp_all add: unat_of_nat_u32)
  show thesis
  proof (cases "p = []")
    case True
    then show thesis
      using that [of c2] 1 2 bounds fields sizes suffix_order.trans
      by (simp add: read_request_def Let_def kMaximumMethodBytes_def)
  next
    case False
    then show thesis
      using that [of c3] 1 2 3 bounds fields sizes suffix_order.trans
      by (simp add: read_request_def Let_def kMaximumMethodBytes_def)
  qed
qed

lemma read_request_sound:
  assumes "read_request config dl cn = Some (out, cn')"
  shows "cn_output cn' = cn_output cn \<and> suffix (cn_script cn') (cn_script cn)"
    and "out = Received i tmo meth p \<Longrightarrow> request_bounds config i tmo meth p \<and>
       (\<exists>reserved. length reserved = 2 \<and> cn_input cn = request_frame reserved i tmo meth p @ cn_input cn')"
proof -
  from assms obtain s1 h c1 where 1: "rpc_ReadExact dl kRequestHeaderBytes cn = Some (s1, h, c1)"
    by (auto simp: read_request_def split: bind_splits)
  note spec1 = rpc_ReadExact_spec [OF 1]
  let ?m = "unat (LoadU32 h 20)" and ?n = "unat (LoadU32 h 24)"
  define good where "good \<longleftrightarrow> ok s1 \<and> take 4 h = kRequestMagic \<and> LoadU16 h 4 = kRpcVersion \<and> LoadU64 h 8 \<noteq> 0 \<and>
    LoadU32 h 16 \<noteq> 0 \<and> ?m \<noteq> 0 \<and> ?m \<le> kMaximumMethodBytes \<and> ?n \<le> rs_max_request_bytes config"
  have "(cn_output cn' = cn_output cn \<and> suffix (cn_script cn') (cn_script cn)) \<and>
    (out = Received i tmo meth p \<longrightarrow> request_bounds config i tmo meth p \<and>
       (\<exists>reserved. length reserved = 2 \<and> cn_input cn = request_frame reserved i tmo meth p @ cn_input cn'))"
  proof (cases good)
    case False
    with assms 1 have "cn' = c1" "out = ReadFailed \<or> out = Malformed"
      by (auto simp: read_request_def good_def Let_def not_le split: if_splits)
    with spec1 show ?thesis by auto
  next
    case True
    with assms 1 obtain s2 mt c2 where 2: "rpc_ReadExact dl ?m c1 = Some (s2, mt, c2)"
      by (auto simp: read_request_def good_def Let_def split: bind_splits if_splits)
    note spec2 = rpc_ReadExact_spec [OF 2]
    from assms 1 2 True obtain s3 rq where
      3: "(if ok s2 \<and> ?n \<noteq> 0 then rpc_ReadExact dl ?n c2 else Some (s2, [], c2)) = Some (s3, rq, cn')"
      and out: "out = (if ok s3 then Received (LoadU64 h 8) (LoadU32 h 16) (string_of_bytes mt) rq else ReadFailed)"
      by (auto simp: read_request_def good_def Let_def not_le split: bind_splits if_splits)
    have spec3: "cn_input c2 = rq @ cn_input cn'" "ok s3 \<Longrightarrow> length rq = ?n \<and> ok s2"
      "cn_output cn' = cn_output c2" "suffix (cn_script cn') (cn_script c2)"
      using 3 rpc_ReadExact_spec [of dl ?n c2 s3 rq cn'] by (auto split: if_splits)
    have frame: "cn_output cn' = cn_output cn \<and> suffix (cn_script cn') (cn_script cn)"
      using spec1 spec2 spec3 suffix_order.trans by metis
    have "length h = 28" using spec1(3) True by (simp add: good_def kRequestHeaderBytes_def)
    then have h: "h = request_layout (take 2 (drop 6 h)) (LoadU64 h 8) (LoadU32 h 16) (LoadU32 h 20) (LoadU32 h 24)"
      "length (take 2 (drop 6 h)) = 2"
      using True by (simp_all add: request_layout_complete good_def)
    have "request_bounds config i tmo meth p \<and>
       (\<exists>reserved. length reserved = 2 \<and> cn_input cn = request_frame reserved i tmo meth p @ cn_input cn')"
      if "out = Received i tmo meth p"
    proof -
      have eqs: "i = LoadU64 h 8" "tmo = LoadU32 h 16" "meth = string_of_bytes mt" "p = rq" and "ok s3"
        using that out by (auto split: if_splits)
      then have len: "length mt = ?m" "length rq = ?n" using spec2(3) spec3(2) by auto
      then have "request_frame (take 2 (drop 6 h)) i tmo meth p = h @ mt @ rq"
        using h(1) by (simp add: request_frame_def eqs)
      then have "cn_input cn = request_frame (take 2 (drop 6 h)) i tmo meth p @ cn_input cn'"
        using spec1(1) spec2(1) spec3(1) by simp
      moreover have "request_bounds config i tmo meth p"
        using True len by (auto simp: request_bounds_def good_def eqs string_of_bytes_def)
      ultimately show ?thesis using h(2) by blast
    qed
    with frame show ?thesis by blast
  qed
  then show "cn_output cn' = cn_output cn \<and> suffix (cn_script cn') (cn_script cn)"
    "out = Received i tmo meth p \<Longrightarrow> request_bounds config i tmo meth p \<and>
       (\<exists>reserved. length reserved = 2 \<and> cn_input cn = request_frame reserved i tmo meth p @ cn_input cn')"
    by simp_all
qed


text \<open>Consecutive writes are a write of the concatenation.\<close>

lemma status_code_of_raw_0 [simp]: "status_code_of_raw 0 = Ok"
  using status_code_of_raw_raw [of Ok] by simp

lemma rpc_WriteExact_prefix:
  assumes "rpc_WriteExact dl data cn = Some (st, cn')"
  obtains sent where "cn_output cn' = cn_output cn @ sent" "prefix sent data" "ok st \<Longrightarrow> sent = data"
  using rpc_WriteExact_spec [OF assms] take_is_prefix by (metis order_refl take_all)

lemma write_answer_spec:
  assumes "write_answer dl i parts cn = Some (st, cn')"
  obtains sent where "cn_output cn' = cn_output cn @ sent" "prefix sent (response_frame i parts)"
    "ok st \<Longrightarrow> sent = response_frame i parts"
proof -
  obtain c det p where parts: "parts = (c, det, p)" by (cases parts) auto
  let ?h = "response_header c i (length det) (length p)"
  from assms obtain s1 c1 where 1: "rpc_WriteExact dl ?h cn = Some (s1, c1)"
    by (auto simp: write_answer_def parts split: bind_splits)
  then obtain k1 where k1: "cn_output c1 = cn_output cn @ k1" "prefix k1 ?h" "ok s1 \<Longrightarrow> k1 = ?h"
    using rpc_WriteExact_prefix by blast
  from assms 1 obtain s2 c2 where
    2: "(if ok s1 \<and> det \<noteq> [] then rpc_WriteExact dl (bytes_of_string det) c1 else Some (s1, c1)) = Some (s2, c2)"
    and 3: "(if ok s2 \<and> p \<noteq> [] then rpc_WriteExact dl p c2 else Some (s2, c2)) = Some (st, cn')"
    by (auto simp: write_answer_def parts split: bind_splits)
  obtain k2 where k2: "cn_output c2 = cn_output cn @ k2" "prefix k2 (?h @ bytes_of_string det)"
    "ok s2 \<Longrightarrow> k2 = ?h @ bytes_of_string det"
  proof (cases "ok s1 \<and> det \<noteq> []")
    case True
    with 2 obtain k where "cn_output c2 = cn_output c1 @ k" "prefix k (bytes_of_string det)"
      "ok s2 \<Longrightarrow> k = bytes_of_string det" by (auto elim: rpc_WriteExact_prefix)
    with True k1 show thesis by (intro that [of "?h @ k"]) simp_all
  next
    case False
    with 2 k1 show thesis by (intro that [of k1]) (auto simp: bytes_of_string_def intro: prefix_prefix)
  qed
  show thesis
  proof (cases "ok s2 \<and> p \<noteq> []")
    case True
    with 3 obtain k where "cn_output cn' = cn_output c2 @ k" "prefix k p" "ok st \<Longrightarrow> k = p"
      by (auto elim: rpc_WriteExact_prefix)
    with True k2 show thesis
      by (intro that [of "?h @ bytes_of_string det @ k"]) (simp_all add: response_frame_def parts)
  next
    case False
    with 3 k2 show thesis
      by (intro that [of k2]) (auto simp: response_frame_def parts intro: prefix_prefix simp flip: append_assoc)
  qed
qed

lemma write_answer_ready:
  assumes "ready dl (length (response_frame i parts) + n) cn"
  obtains cn' where "write_answer dl i parts cn = Some (OkStatus, cn')"
    "cn_output cn' = cn_output cn @ response_frame i parts"
proof -
  obtain c det p where parts: "parts = (c, det, p)" by (cases parts) auto
  let ?h = "response_header c i (length det) (length p)"
  obtain c1 where 1: "rpc_WriteExact dl ?h cn = Some (OkStatus, c1)" "cn_output c1 = cn_output cn @ ?h"
    "ready dl (length det + (length p + n)) c1"
    using rpc_WriteExact_ready [of dl ?h "length det + (length p + n)" cn] assms
    by (auto simp: response_frame_def parts add.assoc)
  obtain c2 where 2: "rpc_WriteExact dl (bytes_of_string det) c1 = Some (OkStatus, c2)"
    "cn_output c2 = cn_output c1 @ bytes_of_string det" "ready dl (length p + n) c2"
    using rpc_WriteExact_ready [of dl "bytes_of_string det" "length p + n" c1] 1(3) by auto
  obtain c3 where 3: "rpc_WriteExact dl p c2 = Some (OkStatus, c3)" "cn_output c3 = cn_output c2 @ p"
    using rpc_WriteExact_ready [of dl p n c2] 2(3) by auto
  obtain c4 where 4: "rpc_WriteExact dl p c1 = Some (OkStatus, c4)" "cn_output c4 = cn_output c1 @ p"
    using rpc_WriteExact_ready [of dl p n c1] ready_le [OF 1(3)] by auto
  show thesis
    using that [of "if p = [] then if det = [] then c1 else c2 else if det = [] then c4 else c3"] 1 2 3 4
    by (auto simp: write_answer_def response_frame_def parts bytes_of_string_def)
qed

lemma write_request_ready:
  assumes "ready dl (length (request_frame [0, 0] i tmo meth p) + n) cn"
  obtains cn' where "write_request dl i tmo meth p cn = Some (OkStatus, cn')" "cn_input cn' = cn_input cn"
    "cn_output cn' = cn_output cn @ request_frame [0, 0] i tmo meth p" "ready dl n cn'"
proof -
  let ?h = "request_header i tmo (length meth) (length p)"
  obtain c1 where 1: "rpc_WriteExact dl ?h cn = Some (OkStatus, c1)" "cn_output c1 = cn_output cn @ ?h"
    "cn_input c1 = cn_input cn" "ready dl (length meth + (length p + n)) c1"
    using rpc_WriteExact_ready [of dl ?h "length meth + (length p + n)" cn] assms
    by (auto simp: request_frame_def request_header_layout [symmetric] add.assoc)
  obtain c2 where 2: "rpc_WriteExact dl (bytes_of_string meth) c1 = Some (OkStatus, c2)"
    "cn_input c2 = cn_input c1" "cn_output c2 = cn_output c1 @ bytes_of_string meth" "ready dl (length p + n) c2"
    using rpc_WriteExact_ready [of dl "bytes_of_string meth" "length p + n" c1] 1(4) by auto
  obtain c3 where 3: "rpc_WriteExact dl p c2 = Some (OkStatus, c3)" "cn_output c3 = cn_output c2 @ p"
    "cn_input c3 = cn_input c2" "ready dl n c3"
    using rpc_WriteExact_ready [of dl p n c2] 2(4) by auto
  show thesis
    using that [of c2] that [of c3] 1 2 3
    by (cases "p = []") (simp_all add: write_request_def request_frame_def request_header_layout)
qed

lemma read_response_ready:
  assumes "cn_input cn = response_frame i (c, det, p) @ rest"
    and "length det \<le> kMaximumDetailBytes" "length p \<le> kAbsolutePayloadLimit"
    and "ready dl (length (response_frame i (c, det, p)) + n) cn"
  obtains cn' where "read_response dl i cn = Some (if c = Ok then Inr p else Inl (mk_status c det), cn')"
    "cn_input cn' = rest" "cn_output cn' = cn_output cn"
proof -
  define h where "h = response_header c i (length det) (length p)"
  have len: "length h = kResponseHeaderBytes" by (simp add: h_def kResponseHeaderBytes_def)
  note fields = response_header_fields [OF h_def]
  obtain c1 where 1: "rpc_ReadExact dl kResponseHeaderBytes cn = Some (OkStatus, h, c1)"
    "cn_input c1 = bytes_of_string det @ p @ rest" "cn_output c1 = cn_output cn"
    "ready dl (length det + (length p + n)) c1"
    using rpc_ReadExact_ready [of dl h "length det + (length p + n)" cn "bytes_of_string det @ p @ rest"] assms(1,4) len
    by (auto simp: response_frame_def h_def [symmetric] add.assoc)
  obtain c2 where 2: "rpc_ReadExact dl (length det) c1 = Some (OkStatus, bytes_of_string det, c2)"
    "cn_input c2 = p @ rest" "cn_output c2 = cn_output c1" "ready dl (length p + n) c2"
    using rpc_ReadExact_ready [of dl "bytes_of_string det" "length p + n" c1 "p @ rest"] 1 by auto
  define c2' where "c2' = (if det = [] then c1 else c2)"
  have c2: "cn_input c2' = p @ rest" "cn_output c2' = cn_output c1" "ready dl (length p + n) c2'"
    "(if length det \<noteq> 0 then rpc_ReadExact dl (length det) c1 else Some (OkStatus, [], c1)) =
       Some (OkStatus, bytes_of_string det, c2')"
    using 1 2 by (auto simp: c2'_def bytes_of_string_def)
  obtain c3 where 3: "rpc_ReadExact dl (length p) c2' = Some (OkStatus, p, c3)"
    "cn_input c3 = rest" "cn_output c3 = cn_output c2'"
    using rpc_ReadExact_ready [of dl p n c2' rest] c2 by auto
  have sizes: "unat (LoadU32 h 16) = length det" "unat (LoadU32 h 20) = length p"
    using assms(2,3) fields by (simp_all add: unat_of_nat_u32 kMaximumDetailBytes_def kAbsolutePayloadLimit_def)
  have "read_response dl i cn = Some (if c = Ok then Inr p else Inl (mk_status c det), if p = [] then c2' else c3)"
    using 1(1) c2(4) 3(1) fields sizes assms(2,3) status_code_raw_le [of c]
    by (cases "p = []"; cases "c = Ok") (simp_all add: read_response_def Let_def ValidStatusCode_def)
  then show thesis
    using that 1 c2 3 by (cases "p = []") simp_all
qed


section \<open>Properties\<close>

text \<open>What the caller sees of an answer: the payload, or the error with its text cut.\<close>

definition remote_answer :: "RpcServerConfig \<Rightarrow> bytes Result \<Rightarrow> bytes Result" where
  "remote_answer config r =
     (case r of
        Inr p \<Rightarrow> if length p > rs_max_request_bytes config
          then Inl (mk_status Internal ''RPC response exceeds configured size'') else Inr p
      | Inl e \<Rightarrow> Inl (mk_status (code e) (take kMaximumDetailBytes (detail e))))"

lemma answer_parts_bounds:
  assumes "answer_parts config r = (c, det, p)" "rs_max_request_bytes config \<le> kAbsolutePayloadLimit"
  shows "length det \<le> kMaximumDetailBytes" "length p \<le> kAbsolutePayloadLimit"
  using assms by (auto simp: answer_parts_def kMaximumDetailBytes_def split: sum.splits if_splits)

lemma answer_parts_remote:
  assumes "answer_parts config r = (c, det, p)" "\<And>e. r = Inl e \<Longrightarrow> \<not> ok e"
  shows "(if c = Ok then Inr p else Inl (mk_status c det)) = remote_answer config r"
  using assms by (auto simp: answer_parts_def remote_answer_def ok_def split: sum.splits if_splits)

lemma dispatch_request_error:
  assumes "\<And>h e. handler = Some h \<Longrightarrow> h request = Answered (Inl e) \<Longrightarrow> \<not> ok e"
    "dispatch_request handler ck tmo request = Inl e"
  shows "\<not> ok e"
  using assms by (auto simp: dispatch_request_def run_handler_def split: option.splits if_splits HandlerOutcome.splits)

text \<open>C12: a remote call is the local dispatch. When the connection moves bytes, in segments of any
  size, and nothing expires, the server's output is the response to the request the client wrote,
  and the call returns what the registered handler answered, with an error's text cut to 1024 bytes,
  or the error for a missing method, an expired request, an exception or an oversized answer.\<close>

theorem remote_call_is_local_dispatch:
  assumes "request_bounds (sv_config sv) i (RemainingMilliseconds dl now2) meth p"
    and "rs_max_request_bytes (sv_config sv) \<le> kAbsolutePayloadLimit"
    and "\<And>h e. map_of (sv_handlers sv) meth = Some h \<Longrightarrow> h p = Answered (Inl e) \<Longrightarrow> \<not> ok e"
    and "SocketAddress pton endpoint False = Inr a" "\<not> expired now1 dl"
    and "cc_socket calls = None" "cc_fcntl calls = None" "cc_connect calls = Connected"
    and "cn_output cn = []" "cn_output cns = []"
    and "cn_input cns = request_frame [0, 0] i (RemainingMilliseconds dl now2) meth p"
    and "response = dispatch_request (map_of (sv_handlers sv) meth) ck (RemainingMilliseconds dl now2) p"
    and "n = length (cn_input cns) + length (response_frame i (answer_parts (sv_config sv) response))"
    and "ready dl n cn" "ready (After (ck_start ck) (rs_io_timeout (sv_config sv))) n cns"
    and "ready (After (ck_write ck) (rs_io_timeout (sv_config sv))) n cns"
  shows "\<exists>sv' cns' cn'. HandleConnection ck cns sv = Some (sv', cns') \<and>
    Call pton calls i False now1 now2 endpoint meth p dl (cn\<lparr>cn_input := cn_output cns'\<rparr>) =
      Some (remote_answer (sv_config sv) response, cn') \<and>
    cn_output cn' = cn_input cns \<and> responses (sv_stats sv') = responses (sv_stats sv) + 1"
proof -
  let ?tmo = "RemainingMilliseconds dl now2" and ?config = "sv_config sv"
  let ?frame = "request_frame [0, 0] i ?tmo meth p"
  obtain c det q where parts: "answer_parts ?config response = (c, det, q)" by (metis prod_cases3)
  let ?resp = "response_frame i (c, det, q)"
  obtain c1 where 1: "read_request ?config (After (ck_start ck) (rs_io_timeout ?config)) cns =
      Some (Received i ?tmo meth p, c1)" "cn_output c1 = []"
    "ready (After (ck_start ck) (rs_io_timeout ?config)) (length ?resp) c1" "suffix (cn_script c1) (cn_script cns)"
    using read_request_ready [of cns "[0, 0]" i ?tmo meth p "[]" ?config
        "After (ck_start ck) (rs_io_timeout ?config)" "length ?resp"] assms(1,2,10,11,13,15) parts
    by auto
  have "ready (After (ck_write ck) (rs_io_timeout ?config)) (length ?resp + 0) c1"
    using ready_later [OF assms(16) 1(4), of "length ?resp"] 1(3) by (simp add: ready_def)
  then obtain c2 where 2: "write_answer (After (ck_write ck) (rs_io_timeout ?config)) i (c, det, q) c1 =
      Some (OkStatus, c2)" "cn_output c2 = ?resp"
    using write_answer_ready 1(2) by (metis append_Nil)
  from 1(1) 2(1) parts have server: "\<exists>sv'. HandleConnection ck cns sv = Some (sv', c2) \<and>
      responses (sv_stats sv') = responses (sv_stats sv) + 1"
    by (auto simp: HandleConnection_def Let_def assms(12))
  let ?cn = "cn\<lparr>cn_input := ?resp\<rparr>"
  have "ready dl (length ?frame + length ?resp) ?cn"
    using assms(11,13,14) parts by (simp add: ready_def)
  then obtain c3 where 3: "write_request dl i ?tmo meth p ?cn = Some (OkStatus, c3)" "cn_input c3 = ?resp"
    "cn_output c3 = ?frame" "ready dl (length ?resp) c3"
    using write_request_ready [of dl i ?tmo meth p "length ?resp" ?cn] assms(9) by auto
  obtain c4 where 4: "read_response dl i c3 = Some (if c = Ok then Inr q else Inl (mk_status c det), c4)"
    "cn_output c4 = ?frame"
    using read_response_ready [of c3 i c det q "[]" dl 0] 3 answer_parts_bounds [OF parts assms(2)] by auto
  have "(if c = Ok then Inr q else Inl (mk_status c det)) = remote_answer ?config response"
    using dispatch_request_error [OF assms(3)] assms(12) by (intro answer_parts_remote [OF parts]) simp
  moreover have "Call pton calls i False now1 now2 endpoint meth p dl ?cn = read_response dl i c3"
    using assms(1,2,4-8) 3(1)
    by (simp add: Call_def connect_client_def request_bounds_def Let_def)
  ultimately show ?thesis
    using server 4 2(2) assms(11) by auto
qed



lemma rpc_ReadExact_returns:
  assumes "\<exists>t \<in> set (cn_script cn). P t" "\<And>t. P t \<Longrightarrow> late dl t"
  obtains st data cn' where "rpc_ReadExact dl amount cn = Some (st, data, cn')" "ok st \<Longrightarrow> \<exists>t \<in> set (cn_script cn'). P t"
  using read_loop_returns [OF assms(2) assms(1)] unfolding rpc_ReadExact_def by blast

lemma rpc_WriteExact_returns:
  assumes "\<exists>t \<in> set (cn_script cn). P t" "\<And>t. P t \<Longrightarrow> late dl t"
  obtains st cn' where "rpc_WriteExact dl data cn = Some (st, cn')" "ok st \<Longrightarrow> \<exists>t \<in> set (cn_script cn'). P t"
  using write_loop_returns [OF assms(2) assms(1)] unfolding rpc_WriteExact_def by blast

text \<open>The rest of a frame, read or written only after success.\<close>

lemma guarded_read_returns:
  assumes "ok st \<Longrightarrow> \<exists>t \<in> set (cn_script cn). P t" "\<And>t. P t \<Longrightarrow> late dl t"
  obtains st' data cn' where "(if ok st \<and> b then rpc_ReadExact dl amount cn else Some (st, [], cn)) = Some (st', data, cn')"
    "ok st' \<Longrightarrow> \<exists>t \<in> set (cn_script cn'). P t"
  using assms rpc_ReadExact_returns [of cn P dl amount thesis] by (cases "ok st \<and> b") auto

lemma guarded_write_returns:
  assumes "ok st \<Longrightarrow> \<exists>t \<in> set (cn_script cn). P t" "\<And>t. P t \<Longrightarrow> late dl t"
  obtains st' cn' where "(if ok st \<and> b then rpc_WriteExact dl data cn else Some (st, cn)) = Some (st', cn')"
    "ok st' \<Longrightarrow> \<exists>t \<in> set (cn_script cn'). P t"
  using assms rpc_WriteExact_returns [of cn P dl data thesis] by (cases "ok st \<and> b") auto

lemma read_request_returns:
  assumes "\<exists>t \<in> set (cn_script cn). P t" "\<And>t. P t \<Longrightarrow> late dl t"
  obtains out cn' where "read_request config dl cn = Some (out, cn')"
    "(\<exists>i tmo meth p. out = Received i tmo meth p) \<Longrightarrow> \<exists>t \<in> set (cn_script cn'). P t"
proof -
  obtain s1 h c1 where 1: "rpc_ReadExact dl kRequestHeaderBytes cn = Some (s1, h, c1)" "ok s1 \<Longrightarrow> \<exists>t \<in> set (cn_script c1). P t"
    using rpc_ReadExact_returns [OF assms] by blast
  let ?m = "unat (LoadU32 h 20)" and ?n = "unat (LoadU32 h 24)"
  show thesis
  proof (cases "ok s1")
    case False
    with 1 that show thesis by (simp add: read_request_def)
  next
    case True
    obtain s2 mt c2 where 2: "rpc_ReadExact dl ?m c1 = Some (s2, mt, c2)" "ok s2 \<Longrightarrow> \<exists>t \<in> set (cn_script c2). P t"
      using rpc_ReadExact_returns [OF 1(2) [OF True] assms(2)] by blast
    obtain s3 rq c3 where 3: "(if ok s2 \<and> ?n \<noteq> 0 then rpc_ReadExact dl ?n c2 else Some (s2, [], c2)) = Some (s3, rq, c3)"
      "ok s3 \<Longrightarrow> \<exists>t \<in> set (cn_script c3). P t"
      using guarded_read_returns [OF 2(2) assms(2)] by blast
    define bad where "bad \<longleftrightarrow> take 4 h \<noteq> kRequestMagic \<or> LoadU16 h 4 \<noteq> kRpcVersion \<or> LoadU64 h 8 = 0 \<or>
      LoadU32 h 16 = 0 \<or> ?m = 0 \<or> ?m > kMaximumMethodBytes \<or> ?n > rs_max_request_bytes config"
    have "read_request config dl cn = Some (if bad then (Malformed, c1) else if ok s3
        then (Received (LoadU64 h 8) (LoadU32 h 16) (string_of_bytes mt) rq, c3) else (ReadFailed, c3))"
      using True 3(1) by (cases "ok s2"; cases "?n = 0") (auto simp: read_request_def bad_def Let_def 1(1) 2(1))
    with that 3(2) show thesis by (cases bad; cases "ok s3") simp_all
  qed
qed


lemma write_answer_returns:
  assumes "\<exists>t \<in> set (cn_script cn). P t" "\<And>t. P t \<Longrightarrow> late dl t"
  shows "\<exists>st cn'. write_answer dl i parts cn = Some (st, cn')"
proof -
  obtain c det p where parts: "parts = (c, det, p)" by (cases parts) auto
  obtain s1 c1 where 1: "rpc_WriteExact dl (response_header c i (length det) (length p)) cn = Some (s1, c1)"
    "ok s1 \<Longrightarrow> \<exists>t \<in> set (cn_script c1). P t"
    using rpc_WriteExact_returns [OF assms] by blast
  obtain s2 c2 where 2: "(if ok s1 \<and> det \<noteq> [] then rpc_WriteExact dl (bytes_of_string det) c1 else Some (s1, c1)) =
      Some (s2, c2)" "ok s2 \<Longrightarrow> \<exists>t \<in> set (cn_script c2). P t"
    using guarded_write_returns [OF 1(2) assms(2)] by blast
  obtain s3 c3 where 3: "(if ok s2 \<and> p \<noteq> [] then rpc_WriteExact dl p c2 else Some (s2, c2)) = Some (s3, c3)"
    "ok s3 \<Longrightarrow> \<exists>t \<in> set (cn_script c3). P t"
    using guarded_write_returns [OF 2(2) assms(2)] by blast
  show ?thesis by (simp add: write_answer_def parts 1(1) 2(1) 3(1))
qed

lemma write_request_returns:
  assumes "\<exists>t \<in> set (cn_script cn). P t" "\<And>t. P t \<Longrightarrow> late dl t"
  obtains st cn' where "write_request dl i tmo meth p cn = Some (st, cn')" "ok st \<Longrightarrow> \<exists>t \<in> set (cn_script cn'). P t"
proof -
  obtain s1 c1 where 1: "rpc_WriteExact dl (request_header i tmo (length meth) (length p)) cn = Some (s1, c1)"
    "ok s1 \<Longrightarrow> \<exists>t \<in> set (cn_script c1). P t"
    using rpc_WriteExact_returns [OF assms] by blast
  obtain s2 c2 where 2: "(if ok s1 \<and> True then rpc_WriteExact dl (bytes_of_string meth) c1 else Some (s1, c1)) =
      Some (s2, c2)" "ok s2 \<Longrightarrow> \<exists>t \<in> set (cn_script c2). P t"
    using guarded_write_returns [OF 1(2) assms(2)] by blast
  obtain s3 c3 where 3: "(if ok s2 \<and> p \<noteq> [] then rpc_WriteExact dl p c2 else Some (s2, c2)) = Some (s3, c3)"
    "ok s3 \<Longrightarrow> \<exists>t \<in> set (cn_script c3). P t"
    using guarded_write_returns [OF 2(2) assms(2)] by blast
  show thesis
    using that [of s3 c3] 3(2) 1(1) 2(1) 3(1) by (simp add: write_request_def)
qed

lemma read_response_returns:
  assumes "\<exists>t \<in> set (cn_script cn). P t" "\<And>t. P t \<Longrightarrow> late dl t"
  shows "\<exists>res cn'. read_response dl i cn = Some (res, cn')"
proof -
  obtain s1 h c1 where 1: "rpc_ReadExact dl kResponseHeaderBytes cn = Some (s1, h, c1)" "ok s1 \<Longrightarrow> \<exists>t \<in> set (cn_script c1). P t"
    using rpc_ReadExact_returns [OF assms] by blast
  let ?d = "unat (LoadU32 h 16)" and ?n = "unat (LoadU32 h 20)"
  obtain s2 det c2 where 2: "(if ok s1 \<and> ?d \<noteq> 0 then rpc_ReadExact dl ?d c1 else Some (s1, [], c1)) = Some (s2, det, c2)"
    "ok s2 \<Longrightarrow> \<exists>t \<in> set (cn_script c2). P t"
    using guarded_read_returns [OF 1(2) assms(2)] by blast
  obtain s3 rs c3 where 3: "(if ok s2 \<and> ?n \<noteq> 0 then rpc_ReadExact dl ?n c2 else Some (s2, [], c2)) = Some (s3, rs, c3)"
    "ok s3 \<Longrightarrow> \<exists>t \<in> set (cn_script c3). P t"
    using guarded_read_returns [OF 2(2) assms(2)] by blast
  show ?thesis
    using 1(1) 2(1) 3(1) by (cases "ok s1") (simp_all add: read_response_def Let_def)
qed

text \<open>C14: both sides end. Handling a connection returns as soon as a turn of its waiting loops finds the
  stop token set or both I/O deadlines passed, and a call as soon as one finds the stop token set or
  the caller's deadline passed, whatever the peer sends or withholds.\<close>

theorem rpc_ends_by_its_deadlines:
  assumes "\<exists>t \<in> set (cn_script cns). tn_stop t \<or>
      expired (tn_now t) (After (ck_start ck) (rs_io_timeout (sv_config sv))) \<and>
      expired (tn_now t) (After (ck_write ck) (rs_io_timeout (sv_config sv)))"
    and "\<exists>t \<in> set (cn_script cnc). tn_stop t \<or> expired (tn_now t) dl"
  shows "(\<exists>sv' cns'. HandleConnection ck cns sv = Some (sv', cns')) \<and>
    (\<exists>res cnc'. Call pton calls i stopped now1 now2 endpoint meth p dl cnc = Some (res, cnc'))"
proof
  let ?dl1 = "After (ck_start ck) (rs_io_timeout (sv_config sv))"
    and ?dl2 = "After (ck_write ck) (rs_io_timeout (sv_config sv))"
  let ?P = "\<lambda>t. late ?dl1 t \<and> late ?dl2 t"
  from assms(1) have late: "\<exists>t \<in> set (cn_script cns). ?P t" by (auto simp: late_def)
  obtain out c1 where 1: "read_request (sv_config sv) ?dl1 cns = Some (out, c1)"
    "(\<exists>i tmo meth p. out = Received i tmo meth p) \<Longrightarrow> \<exists>t \<in> set (cn_script c1). ?P t"
    using read_request_returns [OF late, of ?dl1] by blast
  show "\<exists>sv' cns'. HandleConnection ck cns sv = Some (sv', cns')"
  proof (cases out)
    case (Received i tmo meth p)
    let ?parts = "answer_parts (sv_config sv) (dispatch_request (map_of (sv_handlers sv) meth) ck tmo p)"
    have "\<exists>t \<in> set (cn_script c1). ?P t" using 1(2) Received by blast
    then obtain st c2 where "write_answer ?dl2 i ?parts c1 = Some (st, c2)"
      using write_answer_returns [of c1 ?P ?dl2] by blast
    then show ?thesis using 1(1) Received by (simp add: HandleConnection_def Let_def)
  qed (use 1 in \<open>simp_all add: HandleConnection_def\<close>)
next
  let ?P = "late dl"
  have client: "\<exists>res c'. (do { (status, c) \<leftarrow> write_request dl i tmo meth p c;
      if \<not> ok status then Some (Inl status, c) else read_response dl i c }) = Some (res, c')"
    if late: "\<exists>t \<in> set (cn_script c). ?P t" for c tmo
  proof -
    obtain st c1 where 1: "write_request dl i tmo meth p c = Some (st, c1)" "ok st \<Longrightarrow> \<exists>t \<in> set (cn_script c1). ?P t"
      using write_request_returns [OF late] by blast
    show ?thesis
      using read_response_returns [OF 1(2), of dl i] by (cases "ok st") (auto simp: 1(1))
  qed
  from assms(2) have late: "\<exists>t \<in> set (cn_script cnc). ?P t" by (simp add: late_def)
  obtain st c1 where 1: "connect_client calls dl cnc = Some (st, c1)" "ok st \<Longrightarrow> \<exists>t \<in> set (cn_script c1). ?P t"
  proof (cases "cc_connect calls")
    case ConnectInProgress
    obtain w io rest where "WaitFor False dl (cn_script cnc) = Some (w, io, rest)" "ok w \<Longrightarrow> \<exists>t \<in> set rest. ?P t"
      using WaitFor_returns [OF late] by blast
    with that show thesis
      by (cases "ok w"; cases "cc_getsockopt calls"; cases "cc_so_error calls")
        (simp_all add: connect_client_def ConnectInProgress NetworkError_def)
  qed (use that late in \<open>simp_all add: connect_client_def NetworkError_def\<close>)
  then show "\<exists>res cnc'. Call pton calls i stopped now1 now2 endpoint meth p dl cnc = Some (res, cnc')"
    using client [of c1] by (cases "ok st") (auto simp: Call_def Let_def split: sum.split option.split)
qed


text \<open>A server that reverses its argument, and connections that move seven bytes in a turn and end with
  a turn in which the clock has passed every deadline.\<close>

definition demo_turn :: "time_point \<Rightarrow> Turn" where
  "demo_turn now = \<lparr>tn_stop = False, tn_now = now, tn_now2 = now,
     tn_poll = (\<lambda>_. PollEvents \<lparr>rv_nval = False, rv_err = False, rv_ready = True, rv_hup = False\<rparr>),
     tn_io = Moved 7\<rparr>"

definition demo_rpc_server :: RpcServer where
  "demo_rpc_server = \<lparr>sv_config = \<lparr>rs_bind_endpoint = demo_endpoint, rs_max_request_bytes = 64,
       rs_io_timeout = 1000000, rs_listen_backlog = 4\<rparr>,
     sv_local_endpoint = demo_endpoint, sv_handlers = [(''rev'', \<lambda>p. Answered (Inr (rev p)))],
     sv_stats = \<lparr>accepted_connections = 0, requests = 0, responses = 0, malformed_requests = 0,
       handler_failures = 0, io_failures = 0\<rparr>, sv_running = True\<rparr>"

definition demo_ck :: ConnClock where
  "demo_ck = \<lparr>ck_start = 0, ck_after = 0, ck_expired = 0, ck_write = 0\<rparr>"

definition demo_calls :: ClientCalls where
  "demo_calls = \<lparr>cc_socket = None, cc_fcntl = None, cc_connect = Connected, cc_getsockopt = None, cc_so_error = None\<rparr>"

definition demo_request :: bytes where
  "demo_request = request_frame [0, 0] 5 9 ''rev'' [1, 2, 3]"

definition demo_conn :: "bytes \<Rightarrow> Conn" where
  "demo_conn input = \<lparr>cn_input = input, cn_output = [], cn_script = replicate 90 (demo_turn 10)\<rparr>"

lemma demo_remaining: "RemainingMilliseconds (At 9000000) 20 = 9"
  by (simp add: RemainingMilliseconds_def At_def milliseconds_up_def clamp_def)

lemma demo_ready: "smooth dl (demo_turn 10) \<Longrightarrow> n \<le> 90 \<Longrightarrow> ready dl n (demo_conn input)"
  by (simp add: ready_def demo_conn_def list_all_iff)

lemma demo_smooth: "smooth (At 9000000) (demo_turn 10)"
  "smooth (After 0 1000000) (demo_turn 10)"
  by (simp_all add: smooth_def demo_turn_def expired_After time_point_max_def int64_max_def)

theorem remote_call_is_local_dispatch_witness:
  "\<exists>sv' cns' cn'. HandleConnection demo_ck (demo_conn demo_request) demo_rpc_server = Some (sv', cns') \<and>
     Call demo_pton demo_calls 5 False 10 20 demo_endpoint ''rev'' [1, 2, 3] (At 9000000)
       (demo_conn [] \<lparr>cn_input := cn_output cns'\<rparr>) = Some (Inr [3, 2, 1], cn') \<and>
     cn_output cn' = demo_request \<and> responses (sv_stats sv') = 1"
proof -
  have answer: "dispatch_request (map_of (sv_handlers demo_rpc_server) ''rev'') demo_ck 9 [1, 2, 3] = Inr [3, 2, 1]"
    by (simp add: dispatch_request_def demo_rpc_server_def demo_ck_def run_handler_def expired_After)
  have n: "length demo_request + length (response_frame 5 (answer_parts (sv_config demo_rpc_server) (Inr [3, 2, 1]))) = 61"
    by (simp add: demo_request_def request_frame_def response_frame_def request_layout_def answer_parts_def
        demo_rpc_server_def bytes_of_string_def)
  have "\<exists>sv' cns' cn'. HandleConnection demo_ck (demo_conn demo_request) demo_rpc_server = Some (sv', cns') \<and>
     Call demo_pton demo_calls 5 False 10 20 demo_endpoint ''rev'' [1, 2, 3] (At 9000000)
       (demo_conn [] \<lparr>cn_input := cn_output cns'\<rparr>) =
         Some (remote_answer (sv_config demo_rpc_server) (Inr [3, 2, 1]), cn') \<and>
     cn_output cn' = cn_input (demo_conn demo_request) \<and>
     responses (sv_stats sv') = responses (sv_stats demo_rpc_server) + 1"
    by (rule remote_call_is_local_dispatch [where a = "(0x0a000001, 7400)" and n = 61])
      (use n demo_smooth in \<open>simp_all add: demo_remaining answer request_bounds_def kMaximumMethodBytes_def
        kAbsolutePayloadLimit_def SocketAddress_def ParseIpv4_def demo_pton_def c_str_def demo_endpoint_def
        demo_calls_def demo_ready, auto simp: demo_rpc_server_def demo_conn_def demo_request_def demo_ck_def
        demo_ready [unfolded demo_conn_def]\<close>)
  then show ?thesis
    by (simp add: remote_answer_def demo_rpc_server_def demo_conn_def)
qed


text \<open>A peer that sends nothing.\<close>

definition demo_silent :: Conn where
  "demo_silent = \<lparr>cn_input = [], cn_output = [], cn_script =
     [demo_turn 10 \<lparr>tn_poll := (\<lambda>_. PollNothing)\<rparr>, demo_turn 20000000]\<rparr>"

theorem rpc_ends_by_its_deadlines_witness:
  "(\<exists>sv' cns'. HandleConnection demo_ck demo_silent demo_rpc_server = Some (sv', cns')) \<and>
   (\<exists>res cnc'. Call demo_pton demo_calls 5 False 10 20 demo_endpoint ''rev'' [] (At 9000000) demo_silent = Some (res, cnc'))"
  by (rule rpc_ends_by_its_deadlines)
    (simp_all add: demo_silent_def demo_turn_def demo_ck_def demo_rpc_server_def expired_After time_point_max_def int64_max_def)

end
