(* ===== verification/Node.thy ===== *)
theory Node
  imports Executor_Properties In_Memory_Transport
begin

text \<open>
  The node layer of \<open>node.cpp\<close>: publishers and loans, subscribers with their bounded queues, services
  with their pending calls, clients, timers, and the operations of \<open>Node\<close> that create them.

  The queue of a subscriber is the same code for messages (\<open>Subscriber\<close>) and for loaned samples
  (\<open>LoanedSubscriber\<close>); the model is one record over the type of the elements. Every locked section
  is a function of its own; the whole methods compose them, with the answers of the executor and of
  the transport between the sections as arguments. The process-wide counters of traces and spans and
  the clock are arguments.
\<close>

record NodeConfig =
  nc_name :: string
  nc_generation :: u64

datatype OverflowPolicy = DropNewest | DropOldest

record SubscriptionOptions =
  so_callback_group :: u64
  so_queue_capacity :: nat
  so_overflow_policy :: OverflowPolicy
  so_qos :: QosProfile

record SubscriptionStats =
  sub_received :: u64
  sub_delivered :: u64
  sub_dropped :: u64
  sub_queue_depth :: nat
  sub_high_watermark :: nat


subsection \<open>Publishers\<close>

text \<open>\<open>now\<close> is the monotonic clock, \<open>new_trace\<close> and \<open>new_span\<close> the next identifiers.\<close>

definition BuildEnvelope ::
    "NodeConfig \<Rightarrow> u64 \<Rightarrow> TraceContext \<Rightarrow> u64 \<Rightarrow> u64 \<Rightarrow> u64 \<Rightarrow> MessageEnvelope \<times> u64" where
  "BuildEnvelope node seq trace now new_trace new_span =
     (\<lparr>version = kMessageEnvelopeVersion,
       trace_id = (if ctx_trace_id trace = 0 then new_trace else ctx_trace_id trace),
       span_id = new_span, parent_span_id = ctx_parent_span_id trace, sequence = seq + 1,
       source_timestamp_ns = (if ctx_origin_timestamp_ns trace = 0 then now else ctx_origin_timestamp_ns trace),
       publish_timestamp_ns = now, source_generation = nc_generation node, priority = 0\<rparr>,
      seq + 1)"

definition BuildMessage ::
    "NodeConfig \<Rightarrow> u64 \<Rightarrow> bytes \<Rightarrow> TraceContext \<Rightarrow> u64 \<Rightarrow> u64 \<Rightarrow> u64 \<Rightarrow> Message \<times> u64" where
  "BuildMessage node seq p trace now new_trace new_span =
     (case BuildEnvelope node seq trace now new_trace new_span of
        (e, seq) \<Rightarrow> (\<lparr>envelope = e, payload = p\<rparr>, seq))"

record Publisher =
  pb_node :: NodeConfig
  pb_topic :: string
  pb_qos :: QosProfile
  pb_sequence :: u64

text \<open>An empty handle is \<open>None\<close>; \<open>publish\<close> is the transport's operation on its state.\<close>

definition Publisher_Publish ::
    "(string \<Rightarrow> Message \<Rightarrow> QosProfile \<Rightarrow> 't \<Rightarrow> Status \<times> 't) \<Rightarrow> bytes \<Rightarrow> TraceContext \<Rightarrow> u64 \<Rightarrow> u64 \<Rightarrow> u64 \<Rightarrow>
       Publisher option \<Rightarrow> 't \<Rightarrow> Status \<times> Publisher option \<times> 't" where
  "Publisher_Publish publish p trace now new_trace new_span pb t =
     (case pb of
        None \<Rightarrow> (mk_status Closed ''publisher is empty'', pb, t)
      | Some b \<Rightarrow>
          (case BuildMessage (pb_node b) (pb_sequence b) p trace now new_trace new_span of
             (m, seq) \<Rightarrow> case publish (pb_topic b) m (pb_qos b) t of
               (st, t) \<Rightarrow> (st, Some (b\<lparr>pb_sequence := seq\<rparr>), t)))"

record 'b PublisherLoan =
  pl_loan :: "'b TransportPublisherLoan"
  pl_envelope :: MessageEnvelope

definition PublisherLoan_Publish ::
    "('b \<Rightarrow> MessageEnvelope \<Rightarrow> Status) \<Rightarrow> u64 \<Rightarrow> 'b PublisherLoan \<Rightarrow> Status \<times> 'b PublisherLoan" where
  "PublisherLoan_Publish publish now l =
     (if loan_backend (pl_loan l) = None then (mk_status Closed ''publisher loan is empty'', l)
      else
        let l = l\<lparr>pl_envelope := (pl_envelope l)\<lparr>publish_timestamp_ns := now\<rparr>\<rparr> in
        case loan_Publish publish (pl_envelope l) (pl_loan l) of
          (st, loan) \<Rightarrow> (st, l\<lparr>pl_loan := loan\<rparr>))"

definition PublisherLoan_Abandon ::
    "('b \<Rightarrow> Status) \<Rightarrow> 'b PublisherLoan \<Rightarrow> Status \<times> 'b PublisherLoan" where
  "PublisherLoan_Abandon abandon l =
     (case loan_Abandon abandon (pl_loan l) of (st, loan) \<Rightarrow> (st, l\<lparr>pl_loan := loan\<rparr>))"

definition Publisher_Loan ::
    "(string \<Rightarrow> nat \<Rightarrow> QosProfile \<Rightarrow> 't \<Rightarrow> 'b TransportPublisherLoan Result \<times> 't) \<Rightarrow> nat \<Rightarrow> TraceContext \<Rightarrow>
       u64 \<Rightarrow> u64 \<Rightarrow> u64 \<Rightarrow> Publisher option \<Rightarrow> 't \<Rightarrow> 'b PublisherLoan Result \<times> Publisher option \<times> 't" where
  "Publisher_Loan loan payload_size trace now new_trace new_span pb t =
     (case pb of
        None \<Rightarrow> (Inl (mk_status Closed ''publisher is empty''), pb, t)
      | Some b \<Rightarrow>
          (case loan (pb_topic b) payload_size (pb_qos b) t of
             (Inl e, t) \<Rightarrow> (Inl e, pb, t)
           | (Inr l, t) \<Rightarrow>
               (case BuildEnvelope (pb_node b) (pb_sequence b) trace now new_trace new_span of
                  (e, seq) \<Rightarrow> (Inr \<lparr>pl_loan = l, pl_envelope = e\<rparr>, Some (b\<lparr>pb_sequence := seq\<rparr>), t))))"


subsection \<open>Subscribers\<close>

record 'm SubscriberImpl =
  sb_closed :: bool
  sb_scheduled :: bool
  sb_queue :: "'m list"
  sb_options :: SubscriptionOptions
  sb_stats :: SubscriptionStats
  sb_task_id :: u64
  sb_subscription_id :: u64

type_synonym Subscriber = "Message SubscriberImpl"

definition zero_subscription_stats :: SubscriptionStats where
  "zero_subscription_stats = \<lparr>sub_received = 0, sub_delivered = 0, sub_dropped = 0, sub_queue_depth = 0,
     sub_high_watermark = 0\<rparr>"

definition new_subscriber :: "SubscriptionOptions \<Rightarrow> u64 \<Rightarrow> u64 \<Rightarrow> 'm SubscriberImpl" where
  "new_subscriber options task i =
     \<lparr>sb_closed = False, sb_scheduled = False, sb_queue = [], sb_options = options,
      sb_stats = zero_subscription_stats, sb_task_id = task, sb_subscription_id = i\<rparr>"

text \<open>The locked section of \<open>Accept\<close>: whether to notify, and the state.\<close>

definition Accept_push :: "'m \<Rightarrow> 'm SubscriberImpl \<Rightarrow> bool \<times> 'm SubscriberImpl" where
  "Accept_push message s =
     (if sb_closed s then (False, s)
      else
        let s = s\<lparr>sb_stats := (sb_stats s)\<lparr>sub_received := sub_received (sb_stats s) + 1\<rparr>\<rparr>;
            full = length (sb_queue s) \<ge> so_queue_capacity (sb_options s);
            s = (if full then s\<lparr>sb_stats := (sb_stats s)\<lparr>sub_dropped := sub_dropped (sb_stats s) + 1\<rparr>\<rparr> else s) in
        if full \<and> so_overflow_policy (sb_options s) = DropNewest then (False, s)
        else
          let q = (if full then tl (sb_queue s) else sb_queue s) @ [message];
              s = s\<lparr>sb_queue := q, sb_stats := (sb_stats s)\<lparr>sub_queue_depth := length q,
                sub_high_watermark := max (sub_high_watermark (sb_stats s)) (length q)\<rparr>\<rparr> in
          if \<not> sb_scheduled s then (True, s\<lparr>sb_scheduled := True\<rparr>) else (False, s))"

definition Accept_unschedule :: "'m SubscriberImpl \<Rightarrow> 'm SubscriberImpl" where
  "Accept_unschedule s = s\<lparr>sb_scheduled := False\<rparr>"

definition Subscriber_Accept :: "Status \<Rightarrow> 'm \<Rightarrow> 'm SubscriberImpl \<Rightarrow> 'm SubscriberImpl" where
  "Subscriber_Accept notify_status message s =
     (case Accept_push message s of
        (notify, s) \<Rightarrow> if notify \<and> \<not> ok notify_status then Accept_unschedule s else s)"

text \<open>The four locked sections of \<open>ProcessOne\<close>.\<close>

definition Process_take :: "'m SubscriberImpl \<Rightarrow> 'm option \<times> 'm SubscriberImpl" where
  "Process_take s =
     (case sb_queue s of
        [] \<Rightarrow> (None, s\<lparr>sb_scheduled := False\<rparr>)
      | message # rest \<Rightarrow>
          if sb_closed s then (None, s\<lparr>sb_scheduled := False\<rparr>)
          else (Some message, s\<lparr>sb_queue := rest,
            sb_stats := (sb_stats s)\<lparr>sub_queue_depth := length rest\<rparr>\<rparr>))"

definition Process_threw :: "'m SubscriberImpl \<Rightarrow> 'm SubscriberImpl" where
  "Process_threw s = s\<lparr>sb_stats := (sb_stats s)\<lparr>sub_dropped := sub_dropped (sb_stats s) + 1\<rparr>\<rparr>"

definition Process_delivered :: "'m SubscriberImpl \<Rightarrow> 'm SubscriberImpl" where
  "Process_delivered s = s\<lparr>sb_stats := (sb_stats s)\<lparr>sub_delivered := sub_delivered (sb_stats s) + 1\<rparr>\<rparr>"

definition Process_next :: "'m SubscriberImpl \<Rightarrow> bool \<times> 'm SubscriberImpl" where
  "Process_next s =
     (if sb_closed s \<or> sb_queue s = [] then (False, s\<lparr>sb_scheduled := False\<rparr>) else (True, s))"

text \<open>The whole of \<open>ProcessOne\<close> when nothing interferes: the message handed to the callback, whether the
  executor is notified again, and the state. The answer of that notification is not used.\<close>

definition Subscriber_ProcessOne :: "('m \<Rightarrow> bool) \<Rightarrow> 'm SubscriberImpl \<Rightarrow> 'm option \<times> bool \<times> 'm SubscriberImpl" where
  "Subscriber_ProcessOne throws s =
     (case Process_take s of
        (None, s) \<Rightarrow> (None, False, s)
      | (Some message, s) \<Rightarrow>
          let s = (if throws message then Process_threw s else s) in
          (case Process_next (Process_delivered s) of (notify, s) \<Rightarrow> (Some message, notify, s)))"

text \<open>Closing: whether this call closes, and the state; then the answer of the transport decides.\<close>

definition Close_section :: "'m SubscriberImpl \<Rightarrow> bool \<times> 'm SubscriberImpl" where
  "Close_section s =
     (if sb_closed s then (False, s)
      else (True, s\<lparr>sb_closed := True, sb_queue := [],
        sb_stats := (sb_stats s)\<lparr>sub_queue_depth := 0\<rparr>, sb_scheduled := False\<rparr>))"

definition close_status :: "Status \<Rightarrow> Status" where
  "close_status st = (if \<not> ok st \<and> code st \<noteq> NotFound then st else OkStatus)"

definition Subscriber_Close ::
    "(u64 \<Rightarrow> 't \<Rightarrow> Status \<times> 't) \<Rightarrow> 'm SubscriberImpl \<Rightarrow> 't \<Rightarrow> Executor \<Rightarrow>
       Status \<times> 'm SubscriberImpl \<times> 't \<times> Executor" where
  "Subscriber_Close unsubscribe s t ex =
     (case Close_section s of
        (False, s) \<Rightarrow> (OkStatus, s, t, ex)
      | (True, s) \<Rightarrow>
          (case unsubscribe (sb_subscription_id s) t of
             (st, t) \<Rightarrow> (close_status st, s, t, snd (Cancel (sb_task_id s) ex))))"

text \<open>The loaned subscriber holds transport samples in place of messages.\<close>

definition Loaned_Accept ::
    "Status \<Rightarrow> 'b TransportSubscriberSample \<Rightarrow> 'b TransportSubscriberSample SubscriberImpl \<Rightarrow>
       'b TransportSubscriberSample SubscriberImpl" where
  "Loaned_Accept = Subscriber_Accept"

definition Loaned_ProcessOne ::
    "('b TransportSubscriberSample \<Rightarrow> bool) \<Rightarrow> 'b TransportSubscriberSample SubscriberImpl \<Rightarrow>
       'b TransportSubscriberSample option \<times> bool \<times> 'b TransportSubscriberSample SubscriberImpl" where
  "Loaned_ProcessOne = Subscriber_ProcessOne"

definition Loaned_Close ::
    "(u64 \<Rightarrow> 't \<Rightarrow> Status \<times> 't) \<Rightarrow> 'b TransportSubscriberSample SubscriberImpl \<Rightarrow> 't \<Rightarrow> Executor \<Rightarrow>
       Status \<times> 'b TransportSubscriberSample SubscriberImpl \<times> 't \<times> Executor" where
  "Loaned_Close = Subscriber_Close"


subsection \<open>Services\<close>

text \<open>\<open>pc_id\<close> is the identity of the shared pending call, by which its promise is known.\<close>

record PendingCall =
  pc_id :: nat
  pc_request :: Message
  pc_deadline :: Deadline

record ServiceImpl =
  sc_closed :: bool
  sc_scheduled :: bool
  sc_queue :: "PendingCall list"
  sc_node :: NodeConfig
  sc_task_id :: u64
  sc_service_id :: u64
  sc_response_sequence :: u64

definition new_service :: "NodeConfig \<Rightarrow> u64 \<Rightarrow> u64 \<Rightarrow> ServiceImpl" where
  "new_service node task i =
     \<lparr>sc_closed = False, sc_scheduled = False, sc_queue = [], sc_node = node, sc_task_id = task,
      sc_service_id = i, sc_response_sequence = 0\<rparr>"

definition kQueueCapacity :: nat where
  "kQueueCapacity = 64"

definition Invoke_push :: "PendingCall \<Rightarrow> ServiceImpl \<Rightarrow> bool Result \<times> ServiceImpl" where
  "Invoke_push pending s =
     (if sc_closed s then (Inl (mk_status Closed ''service is closed''), s)
      else if length (sc_queue s) \<ge> kQueueCapacity
      then (Inl (mk_status QueueFull ''service queue is full''), s)
      else
        let s = s\<lparr>sc_queue := sc_queue s @ [pending]\<rparr> in
        if \<not> sc_scheduled s then (Inr True, s\<lparr>sc_scheduled := True\<rparr>) else (Inr False, s))"

definition Invoke_withdraw :: "nat \<Rightarrow> ServiceImpl \<Rightarrow> ServiceImpl" where
  "Invoke_withdraw i s =
     (let s = s\<lparr>sc_queue := filter (\<lambda>c. pc_id c \<noteq> i) (sc_queue s)\<rparr> in
      if sc_queue s = [] then s\<lparr>sc_scheduled := False\<rparr> else s)"

text \<open>The wait: the answer when the promise is fulfilled in time, \<open>None\<close> while an unbounded wait goes on.\<close>

definition Invoke_wait :: "Deadline \<Rightarrow> Message Result option \<Rightarrow> Message Result option" where
  "Invoke_wait dl answer =
     (if is_infinite dl then answer
      else case answer of
        None \<Rightarrow> Some (Inl (mk_status Timeout ''service call timed out''))
      | Some r \<Rightarrow> Some r)"

text \<open>The whole call: \<open>notify_status\<close> answers the notification, if there is one, and \<open>answer\<close> is the value
  of the promise when the wait ends.\<close>

definition Service_Invoke ::
    "nat \<Rightarrow> Message \<Rightarrow> Deadline \<Rightarrow> time_point \<Rightarrow> Status \<Rightarrow> Message Result option \<Rightarrow> ServiceImpl \<Rightarrow>
       Message Result option \<times> ServiceImpl" where
  "Service_Invoke i request dl now notify_status answer s =
     (if expired now dl then (Some (Inl (mk_status Timeout ''service deadline expired'')), s)
      else case Invoke_push \<lparr>pc_id = i, pc_request = request, pc_deadline = dl\<rparr> s of
        (Inl e, s) \<Rightarrow> (Some (Inl e), s)
      | (Inr notify, s) \<Rightarrow>
          if notify \<and> \<not> ok notify_status then (Some (Inl notify_status), Invoke_withdraw i s)
          else (Invoke_wait dl answer, s))"

text \<open>The callback the transport holds: nothing is left to call once the owner is gone.\<close>

definition service_callback :: "bool \<Rightarrow> Message Result option \<Rightarrow> Message Result option" where
  "service_callback owner_alive invoked =
     (if \<not> owner_alive then Some (Inl (mk_status Closed ''service owner is gone'')) else invoked)"

definition Service_take :: "ServiceImpl \<Rightarrow> PendingCall option \<times> ServiceImpl" where
  "Service_take s =
     (case sc_queue s of
        [] \<Rightarrow> (None, s\<lparr>sc_scheduled := False\<rparr>)
      | pending # rest \<Rightarrow>
          if sc_closed s then (None, s\<lparr>sc_scheduled := False\<rparr>)
          else (Some pending, s\<lparr>sc_queue := rest\<rparr>))"

text \<open>The handler's outcome: \<open>None\<close> when it throws.\<close>

definition Service_answer ::
    "(Message \<Rightarrow> bytes Result option) \<Rightarrow> time_point \<Rightarrow> u64 \<Rightarrow> u64 \<Rightarrow> u64 \<Rightarrow> PendingCall \<Rightarrow> ServiceImpl \<Rightarrow>
       Message Result \<times> ServiceImpl" where
  "Service_answer handler expired_now now new_trace new_span pending s =
     (let payload_result =
        (if expired expired_now (pc_deadline pending)
         then Inl (mk_status Timeout ''service request expired in queue'')
         else case handler (pc_request pending) of
           None \<Rightarrow> Inl (mk_status Internal ''service handler threw'')
         | Some r \<Rightarrow> r) in
      case payload_result of
        Inl e \<Rightarrow> (Inl e, s)
      | Inr p \<Rightarrow>
          (case BuildMessage (sc_node s) (sc_response_sequence s) p (ContinueTrace (pc_request pending))
              now new_trace new_span of
             (m, seq) \<Rightarrow> (Inr m, s\<lparr>sc_response_sequence := seq\<rparr>)))"

definition Service_next :: "ServiceImpl \<Rightarrow> bool \<times> ServiceImpl" where
  "Service_next s =
     (if sc_closed s \<or> sc_queue s = [] then (False, s\<lparr>sc_scheduled := False\<rparr>) else (True, s))"

text \<open>The calls a closing service has to answer, \<open>None\<close> when it was closed before.\<close>

definition Service_close_section :: "ServiceImpl \<Rightarrow> PendingCall list option \<times> ServiceImpl" where
  "Service_close_section s =
     (if sc_closed s then (None, s)
      else (Some (sc_queue s), s\<lparr>sc_closed := True, sc_scheduled := False, sc_queue := []\<rparr>))"

definition closed_answer :: "Message Result" where
  "closed_answer = Inl (mk_status Closed ''service closed'')"

definition Service_Close ::
    "(u64 \<Rightarrow> 't \<Rightarrow> Status \<times> 't) \<Rightarrow> ServiceImpl \<Rightarrow> 't \<Rightarrow> Executor \<Rightarrow>
       Status \<times> (nat \<times> Message Result) list \<times> ServiceImpl \<times> 't \<times> Executor" where
  "Service_Close remove_service s t ex =
     (case Service_close_section s of
        (None, s) \<Rightarrow> (OkStatus, [], s, t, ex)
      | (Some calls, s) \<Rightarrow>
          (case remove_service (sc_service_id s) t of
             (st, t) \<Rightarrow> (close_status st, map (\<lambda>c. (pc_id c, closed_answer)) calls, s, t,
               snd (Cancel (sc_task_id s) ex))))"


subsection \<open>Clients and timers\<close>

record Client =
  cl_node :: NodeConfig
  cl_service_name :: string
  cl_sequence :: u64

definition Client_Call ::
    "(string \<Rightarrow> Message \<Rightarrow> Deadline \<Rightarrow> 't \<Rightarrow> Message Result \<times> 't) \<Rightarrow> bytes \<Rightarrow> Deadline \<Rightarrow> TraceContext \<Rightarrow>
       time_point \<Rightarrow> u64 \<Rightarrow> u64 \<Rightarrow> u64 \<Rightarrow> Client option \<Rightarrow> 't \<Rightarrow> Message Result \<times> Client option \<times> 't" where
  "Client_Call request p dl trace expired_now now new_trace new_span cl t =
     (case cl of
        None \<Rightarrow> (Inl (mk_status Closed ''client is empty''), cl, t)
      | Some c \<Rightarrow>
          if expired expired_now dl then (Inl (mk_status Timeout ''client deadline expired''), cl, t)
          else case BuildMessage (cl_node c) (cl_sequence c) p trace now new_trace new_span of
            (m, seq) \<Rightarrow> (case request (cl_service_name c) m dl t of
              (r, t) \<Rightarrow> (r, Some (c\<lparr>cl_sequence := seq\<rparr>), t)))"

record Timer =
  tm_task_id :: u64
  tm_cancelled :: bool

definition Timer_Cancel :: "Timer option \<Rightarrow> Executor \<Rightarrow> Status \<times> Timer option \<times> Executor" where
  "Timer_Cancel tm ex =
     (case tm of
        None \<Rightarrow> (OkStatus, tm, ex)
      | Some t \<Rightarrow>
          if tm_cancelled t then (OkStatus, tm, ex)
          else case Cancel (tm_task_id t) ex of (st, ex) \<Rightarrow> (st, Some (t\<lparr>tm_cancelled := True\<rparr>), ex))"

definition Timer_Stats :: "Timer option \<Rightarrow> Executor \<Rightarrow> TaskStats Result" where
  "Timer_Stats tm ex =
     (case tm of
        None \<Rightarrow> Inl (mk_status Closed ''timer is empty'')
      | Some t \<Rightarrow> Executor_Stats (tm_task_id t) ex)"


subsection \<open>Creation\<close>

text \<open>The constructor throws on invalid arguments: \<open>None\<close>.\<close>

definition Node_new :: "NodeConfig \<Rightarrow> bool \<Rightarrow> bool \<Rightarrow> NodeConfig option" where
  "Node_new config has_executor has_transport =
     (if nc_name config = [] \<or> nc_generation config = 0 \<or> \<not> has_executor \<or> \<not> has_transport then None
      else Some config)"

definition CreatePublisher :: "NodeConfig \<Rightarrow> string \<Rightarrow> QosProfile \<Rightarrow> Publisher Result" where
  "CreatePublisher node topic qos =
     (if topic = [] \<or> depth qos = 0
      then Inl (mk_status InvalidArgument ''publisher requires topic and nonzero QoS depth'')
      else Inr \<lparr>pb_node = node, pb_topic = topic, pb_qos = qos, pb_sequence = 0\<rparr>)"

text \<open>The defaults of \<open>TaskConfig\<close> for the fields that are not set.\<close>

definition node_task :: "string \<Rightarrow> TaskKind \<Rightarrow> int \<Rightarrow> duration \<Rightarrow> duration \<Rightarrow> u64 \<Rightarrow> TaskConfig" where
  "node_task name k prio per dl cbg =
     \<lparr>task_name = name, kind = k, task_priority = prio, period = per, deadline = dl, queue_capacity = 1,
      callback_group = cbg, deadline_policy = Warn\<rparr>"

text \<open>\<open>clk\<close> are the clock readings of \<open>AddTask\<close>; \<open>subscribe\<close> is the transport's operation.\<close>

definition create_subscription ::
    "string \<Rightarrow> string \<Rightarrow> (string \<Rightarrow> QosProfile \<Rightarrow> 't \<Rightarrow> u64 Result \<times> 't) \<Rightarrow> time_point \<times> time_point \<times> time_point \<Rightarrow>
       NodeConfig \<Rightarrow> string \<Rightarrow> SubscriptionOptions \<Rightarrow> bool \<Rightarrow> Executor \<Rightarrow> 't \<Rightarrow>
       'm SubscriberImpl Result \<times> Executor \<times> 't" where
  "create_subscription kind_name invalid subscribe clk node topic options has_callback ex t =
     (if topic = [] \<or> so_queue_capacity options = 0 \<or> depth (so_qos options) = 0 \<or> \<not> has_callback
      then (Inl (mk_status InvalidArgument invalid), ex, t)
      else case clk of (t1, t2, t3) \<Rightarrow>
        case AddTask (node_task (nc_name node @ kind_name @ topic) Event 0 0
            (qos_deadline (so_qos options)) (so_callback_group options)) True t1 t2 t3 ex of
          (Inl e, ex) \<Rightarrow> (Inl e, ex, t)
        | (Inr task, ex) \<Rightarrow>
            (case subscribe topic (so_qos options) t of
               (Inl e, t) \<Rightarrow> (Inl e, snd (Cancel task ex), t)
             | (Inr i, t) \<Rightarrow>
                 (Inr (new_subscriber options task i), ex, t)))"

definition CreateSubscriber ::
    "(string \<Rightarrow> QosProfile \<Rightarrow> 't \<Rightarrow> u64 Result \<times> 't) \<Rightarrow> time_point \<times> time_point \<times> time_point \<Rightarrow>
       NodeConfig \<Rightarrow> string \<Rightarrow> SubscriptionOptions \<Rightarrow> bool \<Rightarrow> Executor \<Rightarrow> 't \<Rightarrow> Subscriber Result \<times> Executor \<times> 't" where
  "CreateSubscriber = create_subscription '':subscription:'' ''invalid subscriber configuration''"

definition CreateLoanedSubscriber ::
    "(string \<Rightarrow> QosProfile \<Rightarrow> 't \<Rightarrow> u64 Result \<times> 't) \<Rightarrow> time_point \<times> time_point \<times> time_point \<Rightarrow>
       NodeConfig \<Rightarrow> string \<Rightarrow> SubscriptionOptions \<Rightarrow> bool \<Rightarrow> Executor \<Rightarrow> 't \<Rightarrow>
       'b TransportSubscriberSample SubscriberImpl Result \<times> Executor \<times> 't" where
  "CreateLoanedSubscriber =
     create_subscription '':loaned-subscription:'' ''invalid loaned subscriber configuration''"

definition CreateService ::
    "(string \<Rightarrow> 't \<Rightarrow> u64 Result \<times> 't) \<Rightarrow> time_point \<times> time_point \<times> time_point \<Rightarrow>
       NodeConfig \<Rightarrow> string \<Rightarrow> u64 \<Rightarrow> bool \<Rightarrow> Executor \<Rightarrow> 't \<Rightarrow> ServiceImpl Result \<times> Executor \<times> 't" where
  "CreateService advertise clk node service_name cbg has_handler ex t =
     (if service_name = [] \<or> \<not> has_handler
      then (Inl (mk_status InvalidArgument ''service requires name and handler''), ex, t)
      else case clk of (t1, t2, t3) \<Rightarrow>
        case AddTask (node_task (nc_name node @ '':service:'' @ service_name) Event 0 0 1000000000 cbg)
            True t1 t2 t3 ex of
          (Inl e, ex) \<Rightarrow> (Inl e, ex, t)
        | (Inr task, ex) \<Rightarrow>
            (case advertise service_name t of
               (Inl e, t) \<Rightarrow> (Inl e, snd (Cancel task ex), t)
             | (Inr i, t) \<Rightarrow>
                 (Inr (new_service node task i), ex, t)))"

definition CreateClient :: "NodeConfig \<Rightarrow> string \<Rightarrow> Client Result" where
  "CreateClient node service_name =
     (if service_name = [] then Inl (mk_status InvalidArgument ''client requires a service name'')
      else Inr \<lparr>cl_node = node, cl_service_name = service_name, cl_sequence = 0\<rparr>)"

definition CreateTimer ::
    "time_point \<times> time_point \<times> time_point \<Rightarrow> NodeConfig \<Rightarrow> string \<Rightarrow> u64 \<Rightarrow> duration \<Rightarrow> duration \<Rightarrow> bool \<Rightarrow> int \<Rightarrow>
       Executor \<Rightarrow> Timer Result \<times> Executor" where
  "CreateTimer clk node name cbg per dl has_callback prio ex =
     (if name = [] \<or> per \<le> 0 \<or> dl \<le> 0 \<or> \<not> has_callback
      then (Inl (mk_status InvalidArgument ''timer requires name, positive period/deadline, and callback''), ex)
      else case clk of (t1, t2, t3) \<Rightarrow>
        case AddTask (node_task (nc_name node @ '':timer:'' @ name) Periodic prio per dl cbg)
            True t1 t2 t3 ex of
          (Inl e, ex) \<Rightarrow> (Inl e, ex)
        | (Inr task, ex) \<Rightarrow> (Inr \<lparr>tm_task_id = task, tm_cancelled = False\<rparr>, ex))"


subsection \<open>Messages built by a node\<close>

text \<open>Consecutive messages of a publisher carry consecutive numbers, its generation, and a fresh trace unless
  one is continued.\<close>

lemma BuildMessage_envelope:
  assumes "BuildMessage node seq p trace now new_trace new_span = (m, seq')"
  shows "seq' = seq + 1 \<and> sequence (envelope m) = seq + 1 \<and> source_generation (envelope m) = nc_generation node \<and>
    payload m = p \<and> publish_timestamp_ns (envelope m) = now \<and>
    (ctx_trace_id trace \<noteq> 0 \<longrightarrow> trace_id (envelope m) = ctx_trace_id trace) \<and>
    parent_span_id (envelope m) = ctx_parent_span_id trace"
  using assms by (auto simp: BuildMessage_def BuildEnvelope_def)

text \<open>A reply belongs to the trace of its request, as a child of the request's span, and keeps the time of
  the trace's origin.\<close>

lemma Service_answer_trace:
  assumes "Service_answer handler t0 now new_trace new_span c s = (Inr m, s')"
    and "trace_id (envelope (pc_request c)) \<noteq> 0" and "source_timestamp_ns (envelope (pc_request c)) \<noteq> 0"
  shows "trace_id (envelope m) = trace_id (envelope (pc_request c)) \<and>
    parent_span_id (envelope m) = span_id (envelope (pc_request c)) \<and>
    source_timestamp_ns (envelope m) = source_timestamp_ns (envelope (pc_request c)) \<and>
    handler (pc_request c) = Some (Inr (payload m)) \<and> \<not> expired t0 (pc_deadline c)"
  using assms
  by (auto simp: Service_answer_def Let_def BuildMessage_def BuildEnvelope_def ContinueTrace_def
      split: sum.splits if_splits option.splits)

text \<open>A loan publishes at most once, stamped when it is published.\<close>

lemma PublisherLoan_once:
  assumes "PublisherLoan_Publish publish now l = (st, l')"
  shows "PublisherLoan_Publish publish now' l' = (mk_status Closed ''publisher loan is empty'', l') \<and>
    (\<forall>b. loan_backend (pl_loan l) = Some b \<longrightarrow> st = publish b ((pl_envelope l)\<lparr>publish_timestamp_ns := now\<rparr>))"
  using assms by (auto simp: PublisherLoan_Publish_def loan_Publish_def Let_def split: if_splits option.splits)


subsection \<open>Tasks of a node\<close>

definition live_task :: "Executor \<Rightarrow> u64 \<Rightarrow> TaskState \<Rightarrow> bool" where
  "live_task ex i tk \<longleftrightarrow> FindTask i ex = Some tk \<and> \<not> tk_cancelled tk"

lemma AddTask_live:
  assumes "AddTask config cb t1 t2 t3 ex = (r, ex')" and "kind config \<noteq> Async"
  shows "case r of Inl e \<Rightarrow> ex' = ex
    | Inr i \<Rightarrow> (\<forall>j tk. j \<noteq> i \<longrightarrow> live_task ex' j tk = live_task ex j tk)"
  using assms
  by (auto simp: AddTask_def AddTask_register_def live_task_def FindTask_def Let_def split: if_splits)

lemma Cancel_live: "live_task (snd (Cancel i ex)) j tk \<longleftrightarrow> j \<noteq> i \<and> live_task ex j tk"
  by (auto simp: Cancel_def live_task_def FindTask_def put_task_def cancel_task_def update_conv'
      split: option.splits if_splits)

lemma create_subscription_live:
  assumes "create_subscription kind_name invalid subscribe clk node topic options cb ex t = (r, ex', t')"
  shows "case r of Inl e \<Rightarrow> (\<forall>i tk. live_task ex' i tk \<longrightarrow> live_task ex i tk)
    | Inr sub \<Rightarrow> (\<exists>task j. sub = new_subscriber options task j \<and>
        (\<forall>i tk. i \<noteq> task \<longrightarrow> live_task ex' i tk = live_task ex i tk))"
proof -
  obtain t1 t2 t3 where clk: "clk = (t1, t2, t3)" by (cases clk)
  let ?config = "node_task (nc_name node @ kind_name @ topic) Event 0 0 (qos_deadline (so_qos options))
    (so_callback_group options)"
  obtain a ex1 where add: "AddTask ?config True t1 t2 t3 ex = (a, ex1)" by fastforce
  have "kind ?config \<noteq> Async" by (simp add: node_task_def)
  note live = AddTask_live [OF add this]
  obtain b t4 where sub: "subscribe topic (so_qos options) t = (b, t4)" by fastforce
  from assms live add sub clk show ?thesis
    by (cases a; cases b)
      (auto simp: create_subscription_def Cancel_live new_subscriber_def split: if_splits)
qed

lemma CreateService_live:
  assumes "CreateService advertise clk node name cbg handler ex t = (r, ex', t')"
  shows "case r of Inl e \<Rightarrow> (\<forall>i tk. live_task ex' i tk \<longrightarrow> live_task ex i tk)
    | Inr svc \<Rightarrow> (\<exists>task j. svc = new_service node task j \<and>
        (\<forall>i tk. i \<noteq> task \<longrightarrow> live_task ex' i tk = live_task ex i tk))"
proof -
  obtain t1 t2 t3 where clk: "clk = (t1, t2, t3)" by (cases clk)
  let ?config = "node_task (nc_name node @ '':service:'' @ name) Event 0 0 1000000000 cbg"
  obtain a ex1 where add: "AddTask ?config True t1 t2 t3 ex = (a, ex1)" by fastforce
  have "kind ?config \<noteq> Async" by (simp add: node_task_def)
  note live = AddTask_live [OF add this]
  obtain b t4 where adv: "advertise name t = (b, t4)" by fastforce
  from assms live add adv clk show ?thesis
    by (cases a; cases b) (auto simp: CreateService_def Cancel_live new_service_def split: if_splits)
qed

lemma Subscriber_Close_task:
  assumes "\<not> sb_closed sub"
  shows "live_task (snd (snd (snd (Subscriber_Close unsubscribe sub t ex)))) i tk \<longleftrightarrow>
    i \<noteq> sb_task_id sub \<and> live_task ex i tk"
  using assms by (simp add: Subscriber_Close_def Close_section_def Cancel_live split: prod.splits)

lemma Subscriber_Close_again:
  assumes "Subscriber_Close unsubscribe sub t ex = (st, sub', t', ex')"
  shows "Subscriber_Close unsubscribe sub' t2 ex2 = (OkStatus, sub', t2, ex2) \<and> sb_closed sub' \<and>
    Accept_push m sub' = (False, sub')"
  using assms
  by (auto simp: Subscriber_Close_def Close_section_def Accept_push_def split: if_splits prod.splits)


subsection \<open>Property\<close>

text \<open>A subscriber or service that cannot be created, for whatever reason, leaves no task that was not
  live before. One that is created adds at most its own task, and closing it cancels that task, whatever
  has happened to the executor in between.\<close>

theorem node_tasks_are_released:
  assumes "CreateSubscriber subscribe clk node topic options cb ex t = (r, ex1, t1)"
    and "CreateService advertise clk' node name cbg handler ex t = (r', ex2, t2)"
    and "live_task (case r of Inl e \<Rightarrow> ex1 | Inr sub \<Rightarrow> snd (snd (snd (Subscriber_Close unsubscribe sub t1 ex1)))) i tk \<or>
      live_task (case r' of Inl e \<Rightarrow> ex2 | Inr svc \<Rightarrow> snd (snd (snd (snd (Service_Close remove svc t2 ex2))))) i tk"
  shows "live_task ex i tk"
proof -
  note sub = create_subscription_live [OF assms(1) [unfolded CreateSubscriber_def]]
  note svc = CreateService_live [OF assms(2)]
  from assms(3) show ?thesis
  proof
    assume l: "live_task (case r of Inl e \<Rightarrow> ex1 | Inr sub \<Rightarrow> snd (snd (snd (Subscriber_Close unsubscribe sub t1 ex1)))) i tk"
    show ?thesis
    proof (cases r)
      case (Inr s)
      with sub l show ?thesis by (auto simp: Subscriber_Close_task new_subscriber_def)
    qed (use l sub in auto)
  next
    assume l: "live_task (case r' of Inl e \<Rightarrow> ex2 | Inr svc \<Rightarrow> snd (snd (snd (snd (Service_Close remove svc t2 ex2))))) i tk"
    show ?thesis
    proof (cases r')
      case (Inr s)
      with svc l show ?thesis
        by (auto simp: new_service_def Service_Close_def Service_close_section_def Cancel_live split: prod.splits)
    qed (use l svc in auto)
  qed
qed

text \<open>The transport refuses the subscription; the service is created and closed again.\<close>

theorem node_tasks_are_released_witness:
  "\<exists>ex1 t1 tk. CreateSubscriber (\<lambda>_ _ t. (Inl (mk_status Closed ''transport''), t)) (0, 0, 0) \<lparr>nc_name = ''n'', nc_generation = 1\<rparr> ''/a''
       \<lparr>so_callback_group = 1, so_queue_capacity = 4, so_overflow_policy = DropNewest, so_qos = demo_qos\<rparr> True
       demo_executor () = (Inl (mk_status Closed ''transport''), ex1, t1) \<and>
     length (ex_tasks ex1) = 2 \<and> live_task ex1 1 tk \<and> live_task demo_executor 1 tk"
proof -
  let ?sub = "CreateSubscriber (\<lambda>_ _ t. (Inl (mk_status Closed ''transport''), t)) (0, 0, 0) \<lparr>nc_name = ''n'', nc_generation = 1\<rparr> ''/a''
    \<lparr>so_callback_group = 1, so_queue_capacity = 4, so_overflow_policy = DropNewest, so_qos = demo_qos\<rparr> True demo_executor ()"
  let ?svc = "CreateService (\<lambda>_ t. (Inr 1, t)) (0, 0, 0) \<lparr>nc_name = ''n'', nc_generation = 1\<rparr> ''s'' 1 True demo_executor ()"
  obtain r ex1 t1 where sub: "?sub = (r, ex1, t1)" by (cases ?sub)
  obtain r' ex2 t2 where svc: "?svc = (r', ex2, t2)" by (cases ?svc)
  have "fst ?sub = Inl (mk_status Closed ''transport'')" by code_simp
  then have r: "r = Inl (mk_status Closed ''transport'')" by (simp add: sub)
  have "length (ex_tasks (fst (snd ?sub))) = 2 \<and>
      map_option tk_cancelled (FindTask 1 (fst (snd ?sub))) = Some False" by code_simp
  then obtain tk where tk: "length (ex_tasks ex1) = 2" "live_task ex1 1 tk" by (auto simp: sub live_task_def)
  from node_tasks_are_released [OF sub svc, of _ 1 tk] r tk have "live_task demo_executor 1 tk" by simp
  with sub r tk show ?thesis by blast
qed

end
