(* ===== verification/Node_Subscription.thy ===== *)
theory Node_Subscription
  imports Node "HOL-Library.Sublist"
begin

text \<open>
  A subscriber and the threads around it: transports that hand it messages, the executor that queues and
  runs its task, the callback. Each locked section of \<open>Subscriber::Impl\<close> is one step; what the executor
  answers to \<open>Notify\<close>, and whether it discards a queued run (it does when it stops or when the task is
  cancelled), is left open: the parameter \<open>refusing\<close> says whether it may refuse or discard at all.
\<close>

subsection \<open>The executor's side of a task\<close>

text \<open>Runs queued, threads about to notify, threads whose notification failed, and running workers.
  Each is a token; a task with no token does nothing by itself.\<close>

record ('n, 'p) task_side =
  ts_jobs :: nat
  ts_notifying :: "'n list"
  ts_failed :: "'n list"
  ts_workers :: "'p list"

definition idle_side :: "('n, 'p) task_side" where
  "idle_side = \<lparr>ts_jobs = 0, ts_notifying = [], ts_failed = [], ts_workers = []\<rparr>"

definition tokens :: "('n, 'p) task_side \<Rightarrow> nat" where
  "tokens d = ts_jobs d + length (ts_notifying d) + length (ts_failed d) + length (ts_workers d)"

text \<open>Whoever has set the flag calls \<open>Notify\<close>; the executor queues a run or, where it may, refuses.\<close>

inductive notify_step :: "bool \<Rightarrow> ('n, 'p) task_side \<Rightarrow> ('n, 'p) task_side \<Rightarrow> bool" for refusing where
  notify_ok: "ts_notifying d = us @ i # vs \<Longrightarrow>
     notify_step refusing d (d\<lparr>ts_notifying := us @ vs, ts_jobs := ts_jobs d + 1\<rparr>)"
| notify_fail: "refusing \<Longrightarrow> ts_notifying d = us @ i # vs \<Longrightarrow>
     notify_step refusing d (d\<lparr>ts_notifying := us @ vs, ts_failed := i # ts_failed d\<rparr>)"
| run_discard: "refusing \<Longrightarrow> ts_jobs d = Suc n \<Longrightarrow> notify_step refusing d (d\<lparr>ts_jobs := n\<rparr>)"

definition put_worker :: "'p list \<Rightarrow> 'p list \<Rightarrow> 'p list \<Rightarrow> ('n, 'p) task_side \<Rightarrow> ('n, 'p) task_side" where
  "put_worker us ps vs d = d\<lparr>ts_workers := us @ ps @ vs\<rparr>"

lemma notify_step_tokens: "notify_step refusing d d' \<Longrightarrow> tokens d' \<le> tokens d"
  by (induction rule: notify_step.induct) (auto simp: tokens_def)

lemma notify_step_workers: "notify_step refusing d d' \<Longrightarrow> ts_workers d' = ts_workers d"
  by (induction rule: notify_step.induct) auto

lemma tokens_idle_side [simp]: "tokens idle_side = 0"
  by (simp add: tokens_def idle_side_def)

lemma one_worker:
  assumes "tokens d \<le> 1" and "ts_workers d = us @ p # vs"
  shows "us = [] \<and> vs = [] \<and> ts_jobs d = 0 \<and> ts_notifying d = [] \<and> ts_failed d = []"
  using assms by (auto simp: tokens_def)

lemma one_job:
  assumes "tokens d \<le> 1" and "ts_jobs d = Suc n"
  shows "n = 0 \<and> ts_workers d = [] \<and> ts_notifying d = [] \<and> ts_failed d = []"
  using assms by (auto simp: tokens_def)


subsection \<open>Steps\<close>

datatype 'm sub_pc =
    PcStart
  | PcHolding 'm
  | PcRunning 'm
  | PcThrew 'm
  | PcReturned 'm
  | PcDelivered
  | PcNotify

text \<open>The last four fields record what happened: the messages admitted to the queue and those handed to
  the callback, in order, how often the callback threw, how many messages closing threw away.\<close>

record 'm sub_sys =
  ss_sub :: "'m SubscriberImpl"
  ss_task :: "(unit, 'm sub_pc) task_side"
  ss_pushed :: "'m list"
  ss_called :: "'m list"
  ss_thrown :: nat
  ss_discarded :: nat

definition sub_init :: "SubscriptionOptions \<Rightarrow> u64 \<Rightarrow> u64 \<Rightarrow> 'm sub_sys" where
  "sub_init options task i =
     \<lparr>ss_sub = new_subscriber options task i, ss_task = idle_side, ss_pushed = [], ss_called = [],
      ss_thrown = 0, ss_discarded = 0\<rparr>"

text \<open>Whether a message is admitted, whatever the flag.\<close>

definition admits :: "'m SubscriberImpl \<Rightarrow> bool" where
  "admits s \<longleftrightarrow> \<not> sb_closed s \<and>
     (length (sb_queue s) < so_queue_capacity (sb_options s) \<or> so_overflow_policy (sb_options s) = DropOldest)"

definition add_notifying :: "bool \<Rightarrow> 'n \<Rightarrow> ('n, 'p) task_side \<Rightarrow> ('n, 'p) task_side" where
  "add_notifying b i d = (if b then d\<lparr>ts_notifying := ts_notifying d @ [i]\<rparr> else d)"

lemma add_notifying_workers [simp]: "ts_workers (add_notifying b i d) = ts_workers d"
  by (simp add: add_notifying_def)

inductive sub_step :: "bool \<Rightarrow> 'm sub_sys \<Rightarrow> 'm sub_sys \<Rightarrow> bool" for refusing where
  sub_accept: "Accept_push m (ss_sub s) = (b, sub) \<Longrightarrow>
     sub_step refusing s (s\<lparr>ss_sub := sub, ss_task := add_notifying b () (ss_task s),
       ss_pushed := ss_pushed s @ (if admits (ss_sub s) then [m] else [])\<rparr>)"
| sub_notify: "notify_step refusing (ss_task s) d \<Longrightarrow> sub_step refusing s (s\<lparr>ss_task := d\<rparr>)"
| sub_unschedule: "ts_failed (ss_task s) = us @ u # vs \<Longrightarrow>
     sub_step refusing s (s\<lparr>ss_sub := Accept_unschedule (ss_sub s),
       ss_task := (ss_task s)\<lparr>ts_failed := us @ vs\<rparr>\<rparr>)"
| sub_start: "ts_jobs (ss_task s) = Suc n \<Longrightarrow>
     sub_step refusing s (s\<lparr>ss_task := (ss_task s)\<lparr>ts_jobs := n, ts_workers := ts_workers (ss_task s) @ [PcStart]\<rparr>\<rparr>)"
| sub_take: "ts_workers (ss_task s) = us @ PcStart # vs \<Longrightarrow> Process_take (ss_sub s) = (r, sub) \<Longrightarrow>
     sub_step refusing s (s\<lparr>ss_sub := sub, ss_task := put_worker us
       (case r of None \<Rightarrow> [] | Some m \<Rightarrow> [PcHolding m]) vs (ss_task s)\<rparr>)"
| sub_call: "ts_workers (ss_task s) = us @ PcHolding m # vs \<Longrightarrow>
     sub_step refusing s (s\<lparr>ss_task := put_worker us [PcRunning m] vs (ss_task s), ss_called := ss_called s @ [m]\<rparr>)"
| sub_return: "ts_workers (ss_task s) = us @ PcRunning m # vs \<Longrightarrow>
     sub_step refusing s (s\<lparr>ss_task := put_worker us [PcReturned m] vs (ss_task s)\<rparr>)"
| sub_throw: "ts_workers (ss_task s) = us @ PcRunning m # vs \<Longrightarrow>
     sub_step refusing s (s\<lparr>ss_task := put_worker us [PcThrew m] vs (ss_task s)\<rparr>)"
| sub_threw: "ts_workers (ss_task s) = us @ PcThrew m # vs \<Longrightarrow>
     sub_step refusing s (s\<lparr>ss_sub := Process_threw (ss_sub s),
       ss_task := put_worker us [PcReturned m] vs (ss_task s), ss_thrown := ss_thrown s + 1\<rparr>)"
| sub_delivered: "ts_workers (ss_task s) = us @ PcReturned m # vs \<Longrightarrow>
     sub_step refusing s (s\<lparr>ss_sub := Process_delivered (ss_sub s),
       ss_task := put_worker us [PcDelivered] vs (ss_task s)\<rparr>)"
| sub_next: "ts_workers (ss_task s) = us @ PcDelivered # vs \<Longrightarrow> Process_next (ss_sub s) = (b, sub) \<Longrightarrow>
     sub_step refusing s (s\<lparr>ss_sub := sub, ss_task := put_worker us (if b then [PcNotify] else []) vs (ss_task s)\<rparr>)"
| sub_renotify_ok: "ts_workers (ss_task s) = us @ PcNotify # vs \<Longrightarrow>
     sub_step refusing s (s\<lparr>ss_task := (put_worker us [] vs (ss_task s))\<lparr>ts_jobs := ts_jobs (ss_task s) + 1\<rparr>\<rparr>)"
| sub_renotify_fail: "refusing \<Longrightarrow> ts_workers (ss_task s) = us @ PcNotify # vs \<Longrightarrow>
     sub_step refusing s (s\<lparr>ss_task := put_worker us [] vs (ss_task s)\<rparr>)"
| sub_close: "Close_section (ss_sub s) = (b, sub) \<Longrightarrow>
     sub_step refusing s (s\<lparr>ss_sub := sub,
       ss_discarded := ss_discarded s + (if b then length (sb_queue (ss_sub s)) else 0)\<rparr>)"


subsection \<open>The invariant\<close>

text \<open>Messages taken and not handed over yet; messages taken and not counted yet.\<close>

primrec pc_held :: "'m sub_pc \<Rightarrow> 'm list" where
  "pc_held PcStart = []"
| "pc_held (PcHolding m) = [m]"
| "pc_held (PcRunning m) = []"
| "pc_held (PcThrew m) = []"
| "pc_held (PcReturned m) = []"
| "pc_held PcDelivered = []"
| "pc_held PcNotify = []"

primrec pc_uncounted :: "'m sub_pc \<Rightarrow> nat" where
  "pc_uncounted PcStart = 0"
| "pc_uncounted (PcHolding m) = 1"
| "pc_uncounted (PcRunning m) = 1"
| "pc_uncounted (PcThrew m) = 1"
| "pc_uncounted (PcReturned m) = 1"
| "pc_uncounted PcDelivered = 0"
| "pc_uncounted PcNotify = 0"

definition ss_held :: "'m sub_sys \<Rightarrow> 'm list" where
  "ss_held s = concat (map pc_held (ts_workers (ss_task s)))"

definition ss_uncounted :: "'m sub_sys \<Rightarrow> nat" where
  "ss_uncounted s = sum_list (map pc_uncounted (ts_workers (ss_task s)))"

definition one_token :: "bool \<Rightarrow> bool \<Rightarrow> ('n, 'p) task_side \<Rightarrow> bool" where
  "one_token scheduled shut d \<longleftrightarrow> tokens d \<le> 1 \<and> (tokens d = 0 \<or> scheduled \<or> shut)"

definition sub_tokens_ok :: "'m sub_sys \<Rightarrow> bool" where
  "sub_tokens_ok s = one_token (sb_scheduled (ss_sub s)) (sb_closed (ss_sub s)) (ss_task s)"

definition sub_queue_ok :: "'m SubscriberImpl \<Rightarrow> bool" where
  "sub_queue_ok s \<longleftrightarrow> length (sb_queue s) \<le> so_queue_capacity (sb_options s) \<and>
     sub_queue_depth (sb_stats s) = length (sb_queue s) \<and>
     length (sb_queue s) \<le> sub_high_watermark (sb_stats s) \<and>
     sub_high_watermark (sb_stats s) \<le> so_queue_capacity (sb_options s) \<and>
     (sb_closed s \<longrightarrow> sb_queue s = [])"

definition sub_fifo_ok :: "'m sub_sys \<Rightarrow> bool" where
  "sub_fifo_ok s \<longleftrightarrow> subseq (ss_called s @ ss_held s @ sb_queue (ss_sub s)) (ss_pushed s) \<and>
     (so_overflow_policy (sb_options (ss_sub s)) = DropNewest \<and> \<not> sb_closed (ss_sub s) \<longrightarrow>
       ss_called s @ ss_held s @ sb_queue (ss_sub s) = ss_pushed s)"

definition sub_count_ok :: "'m sub_sys \<Rightarrow> bool" where
  "sub_count_ok s \<longleftrightarrow>
     sub_received (sb_stats (ss_sub s)) + of_nat (ss_thrown s) =
       sub_delivered (sb_stats (ss_sub s)) + sub_dropped (sb_stats (ss_sub s)) +
       of_nat (length (sb_queue (ss_sub s)) + ss_uncounted s + ss_discarded s)"

lemma Accept_push_cases:
  obtains (closed) "sb_closed s" "Accept_push m s = (False, s)"
  | (newest) "\<not> sb_closed s" "\<not> admits s"
      "Accept_push m s = (False, s\<lparr>sb_stats := (sb_stats s)\<lparr>sub_received := sub_received (sb_stats s) + 1,
         sub_dropped := sub_dropped (sb_stats s) + 1\<rparr>\<rparr>)"
  | (oldest) "\<not> sb_closed s" "admits s" "so_overflow_policy (sb_options s) = DropOldest"
      "so_queue_capacity (sb_options s) \<le> length (sb_queue s)"
      "Accept_push m s = (\<not> sb_scheduled s, s\<lparr>sb_queue := tl (sb_queue s) @ [m], sb_scheduled := True,
         sb_stats := (sb_stats s)\<lparr>sub_received := sub_received (sb_stats s) + 1,
           sub_dropped := sub_dropped (sb_stats s) + 1, sub_queue_depth := length (tl (sb_queue s) @ [m]),
           sub_high_watermark := max (sub_high_watermark (sb_stats s)) (length (tl (sb_queue s) @ [m]))\<rparr>\<rparr>)"
  | (room) "\<not> sb_closed s" "admits s" "length (sb_queue s) < so_queue_capacity (sb_options s)"
      "Accept_push m s = (\<not> sb_scheduled s, s\<lparr>sb_queue := sb_queue s @ [m], sb_scheduled := True,
         sb_stats := (sb_stats s)\<lparr>sub_received := sub_received (sb_stats s) + 1,
           sub_queue_depth := length (sb_queue s @ [m]),
           sub_high_watermark := max (sub_high_watermark (sb_stats s)) (length (sb_queue s @ [m]))\<rparr>\<rparr>)"
proof (cases "sb_closed s")
  case True
  then show ?thesis by (intro closed) (simp_all add: Accept_push_def)
next
  case live: False
  show ?thesis
  proof (cases "length (sb_queue s) < so_queue_capacity (sb_options s)")
    case True
    with live show ?thesis by (intro room) (auto simp: Accept_push_def admits_def Let_def)
  next
    case full: False
    show ?thesis
    proof (cases "so_overflow_policy (sb_options s)")
      case DropNewest
      with live full show ?thesis by (intro newest) (auto simp: Accept_push_def admits_def Let_def)
    next
      case DropOldest
      with live full show ?thesis by (intro oldest) (auto simp: Accept_push_def admits_def Let_def)
    qed
  qed
qed


lemma subseq_drop_head: "subseq (xs @ q) p \<Longrightarrow> subseq (xs @ tl q @ [m]) (p @ [m])"
proof -
  assume sub: "subseq (xs @ q) p"
  have "subseq (tl q) q" by (cases q) auto
  then have "subseq (xs @ tl q) (xs @ q)" by (simp add: subseq_append')
  with sub have "subseq (xs @ tl q) p" using subseq_order.order_trans by blast
  then have "subseq ((xs @ tl q) @ [m]) (p @ [m])" by (rule list_emb_append_mono) simp
  then show ?thesis by simp
qed

lemma subseq_drop_head2: "subseq (xs @ ys @ q) p \<Longrightarrow> subseq (xs @ ys @ tl q @ [m]) (p @ [m])"
  using subseq_drop_head [of "xs @ ys"] by simp

lemma subseq_prefix_left: "subseq (xs @ ys) p \<Longrightarrow> subseq xs p"
  using subseq_order.order_trans [of xs "xs @ ys" p] by (simp add: list_emb_prefix)

lemma subseq_snoc: "subseq (xs @ q) p \<Longrightarrow> subseq (xs @ q @ [m]) (p @ [m])"
  using list_emb_append_mono [of "(=)" "xs @ q" p "[m]" "[m]"] by simp

lemma subseq_snoc2: "subseq (xs @ ys @ q) p \<Longrightarrow> subseq (xs @ ys @ q @ [m]) (p @ [m])"
  using subseq_snoc [of "xs @ ys"] by simp

lemma Accept_push_options: "Accept_push m s = (b, s') \<Longrightarrow> sb_options s' = sb_options s"
  by (cases rule: Accept_push_cases [where m = m and s = s]) auto

lemma Process_take_options: "Process_take s = (r, s') \<Longrightarrow> sb_options s' = sb_options s"
  by (auto simp: Process_take_def split: list.splits if_splits)

lemma Process_next_cases:
  assumes "Process_next s = (b, s')"
  shows "(if sb_closed s \<or> sb_queue s = [] then \<not> b \<and> s' = s\<lparr>sb_scheduled := False\<rparr> else b \<and> s' = s)"
  using assms by (auto simp: Process_next_def split: if_splits)

lemma Close_section_cases:
  assumes "Close_section s = (b, s')"
  shows "(if sb_closed s then \<not> b \<and> s' = s
    else b \<and> s' = s\<lparr>sb_closed := True, sb_queue := [], sb_stats := (sb_stats s)\<lparr>sub_queue_depth := 0\<rparr>,
      sb_scheduled := False\<rparr>)"
  using assms by (auto simp: Close_section_def split: if_splits)

lemma Process_take_cases:
  assumes "Process_take s = (r, s')"
  obtains (none) "r = None" "s' = s\<lparr>sb_scheduled := False\<rparr>" "sb_queue s = [] \<or> sb_closed s"
  | (some) m q where "r = Some m" "sb_queue s = m # q" "\<not> sb_closed s"
      "s' = s\<lparr>sb_queue := q, sb_stats := (sb_stats s)\<lparr>sub_queue_depth := length q\<rparr>\<rparr>"
  using assms by (cases "sb_queue s") (auto simp: Process_take_def split: if_splits)

lemma sub_step_options: "sub_step refusing s t \<Longrightarrow> sb_options (ss_sub t) = sb_options (ss_sub s)"
  by (induction rule: sub_step.induct)
    (auto simp: Accept_push_options Process_take_options Accept_unschedule_def Process_threw_def
      Process_delivered_def dest!: Process_next_cases Close_section_cases split: if_splits)


subsubsection \<open>One token\<close>

lemma tokens_put_worker:
  "ts_workers d = us @ p # vs \<Longrightarrow> tokens (put_worker us ps vs d) + 1 = tokens d + length ps"
  by (simp add: tokens_def put_worker_def)

lemma tokens_pos_worker: "ts_workers d = us @ p # vs \<Longrightarrow> 0 < tokens d"
  by (simp add: tokens_def)

lemma sub_tokens_accept:
  assumes "sub_tokens_ok s" and "Accept_push m (ss_sub s) = (b, sub)"
  shows "one_token (sb_scheduled sub) (sb_closed sub) (add_notifying b () (ss_task s))"
  using assms
  by (cases rule: Accept_push_cases [where m = m and s = "ss_sub s"])
    (auto simp: sub_tokens_ok_def one_token_def add_notifying_def tokens_def)

lemma one_token_worker:
  assumes "one_token b c d" and "ts_workers d = us @ p # vs" and "length ps \<le> 1"
    and "ps = [] \<or> c' = c \<and> b' = b"
  shows "one_token b' c' (put_worker us ps vs d)"
  using assms tokens_put_worker [OF assms(2), of ps] tokens_pos_worker [OF assms(2)]
  by (cases ps) (auto simp: one_token_def)

lemma one_token_notify: "one_token b c d \<Longrightarrow> notify_step refusing d d' \<Longrightarrow> one_token b c d'"
  using notify_step_tokens [of refusing d d'] by (auto simp: one_token_def)

lemma sub_tokens_step: "sub_step refusing s t \<Longrightarrow> sub_tokens_ok s \<Longrightarrow> sub_tokens_ok t"
proof (induction rule: sub_step.induct)
  case (sub_accept m s b sub)
  then show ?case using sub_tokens_accept by (simp add: sub_tokens_ok_def)
next
  case (sub_take s us vs r sub)
  then show ?case
    by (cases rule: Process_take_cases [OF sub_take(2)]) (simp_all add: sub_tokens_ok_def one_token_worker)
next
  case (sub_next s us vs b sub)
  then show ?case using Process_next_cases [OF sub_next(2)]
    by (auto simp: sub_tokens_ok_def one_token_worker split: if_splits)
next
  case (sub_close s b sub)
  then show ?case using Close_section_cases [OF sub_close(1)]
    by (auto simp: sub_tokens_ok_def one_token_def split: if_splits)
next
  case (sub_renotify_ok s us vs)
  then show ?case by (auto simp: sub_tokens_ok_def one_token_def tokens_def put_worker_def)
next
  case (sub_unschedule s us u vs)
  then show ?case by (auto simp: sub_tokens_ok_def one_token_def tokens_def)
next
  case (sub_start s n)
  then show ?case by (auto simp: sub_tokens_ok_def one_token_def tokens_def)
qed (simp_all add: one_token_notify one_token_worker sub_tokens_ok_def Process_threw_def Process_delivered_def)


subsubsection \<open>Queue\<close>

lemma sub_queue_ok_accept:
  assumes "Accept_push m s = (b, s')" and "sub_queue_ok s" and "0 < so_queue_capacity (sb_options s)"
  shows "sub_queue_ok s'"
proof (cases rule: Accept_push_cases [where m = m and s = s])
  case oldest
  with assms have "sb_queue s \<noteq> []" by auto
  with oldest assms show ?thesis by (auto simp: sub_queue_ok_def)
qed (use assms in \<open>auto simp: sub_queue_ok_def\<close>)

lemma sub_queue_ok_take: "Process_take s = (r, s') \<Longrightarrow> sub_queue_ok s \<Longrightarrow> sub_queue_ok s'"
  by (erule Process_take_cases) (auto simp: sub_queue_ok_def)

lemma sub_queue_ok_step:
  "sub_step refusing s t \<Longrightarrow> sub_queue_ok (ss_sub s) \<Longrightarrow> 0 < so_queue_capacity (sb_options (ss_sub s)) \<Longrightarrow>
     sub_queue_ok (ss_sub t)"
proof (induction rule: sub_step.induct)
  case (sub_next s us vs b sub)
  then show ?case using Process_next_cases [OF sub_next(2)] by (auto simp: sub_queue_ok_def split: if_splits)
next
  case (sub_close s b sub)
  then show ?case using Close_section_cases [OF sub_close(1)] by (auto simp: sub_queue_ok_def split: if_splits)
qed (auto simp: sub_queue_ok_accept sub_queue_ok_take, simp_all add: sub_queue_ok_def Accept_unschedule_def
  Process_threw_def Process_delivered_def)


subsubsection \<open>Order\<close>

lemma sub_tokens_worker:
  assumes "sub_tokens_ok s" and "ts_workers (ss_task s) = us @ p # vs"
  shows "us = [] \<and> vs = []"
  using assms one_worker [OF _ assms(2)] by (simp add: sub_tokens_ok_def one_token_def)

lemma sub_fifo_accept:
  assumes "sub_fifo_ok s" and "sub_queue_ok (ss_sub s)" and "0 < so_queue_capacity (sb_options (ss_sub s))"
    and "Accept_push m (ss_sub s) = (b, sub)"
  shows "sub_fifo_ok (s\<lparr>ss_sub := sub, ss_task := add_notifying b () (ss_task s),
    ss_pushed := ss_pushed s @ (if admits (ss_sub s) then [m] else [])\<rparr>)"
  by (cases rule: Accept_push_cases [where m = m and s = "ss_sub s"])
    (use assms in \<open>auto simp: sub_fifo_ok_def ss_held_def subseq_drop_head2 subseq_snoc2 admits_def\<close>)

lemma sub_fifo_step:
  assumes "sub_step refusing s t" and "sub_fifo_ok s" and "sub_tokens_ok s" and "sub_queue_ok (ss_sub s)"
    and "0 < so_queue_capacity (sb_options (ss_sub s))"
  shows "sub_fifo_ok t"
  using assms
proof (induction rule: sub_step.induct)
  case (sub_accept m s b sub)
  then show ?case by (intro sub_fifo_accept)
next
  case (sub_notify s d)
  then show ?case using notify_step_workers [OF sub_notify(1)] by (simp add: sub_fifo_ok_def ss_held_def)
next
  case (sub_take s us vs r sub)
  note w = sub_tokens_worker [OF sub_take(4) sub_take(1)]
  show ?case using sub_take w
    by (cases rule: Process_take_cases [OF sub_take(2)])
      (auto simp: sub_fifo_ok_def ss_held_def put_worker_def)
next
  case (sub_next s us vs b sub)
  then show ?case using Process_next_cases [OF sub_next(2)]
    by (auto simp: sub_fifo_ok_def ss_held_def put_worker_def split: if_splits)
next
  case (sub_close s b sub)
  then show ?case
    using Close_section_cases [OF sub_close(1)]
      subseq_prefix_left [of "ss_called s @ ss_held s" "sb_queue (ss_sub s)" "ss_pushed s"]
    by (auto simp: sub_fifo_ok_def ss_held_def split: if_splits)
next
  case (sub_call s us m vs)
  note w = sub_tokens_worker [OF sub_call(3) sub_call(1)]
  show ?case using sub_call w by (simp add: sub_fifo_ok_def ss_held_def put_worker_def)
qed (simp_all add: sub_fifo_ok_def ss_held_def put_worker_def Accept_unschedule_def Process_threw_def
    Process_delivered_def)


subsubsection \<open>Counts\<close>

lemma sub_count_accept:
  assumes "sub_count_ok s" and "sub_queue_ok (ss_sub s)" and "0 < so_queue_capacity (sb_options (ss_sub s))"
    and "Accept_push m (ss_sub s) = (b, sub)"
  shows "sub_count_ok (s\<lparr>ss_sub := sub, ss_task := add_notifying b () (ss_task s), ss_pushed := p\<rparr>)"
proof (cases rule: Accept_push_cases [where m = m and s = "ss_sub s"])
  case oldest
  with assms have "sb_queue (ss_sub s) \<noteq> []" by auto
  with oldest assms show ?thesis by (auto simp: sub_count_ok_def ss_uncounted_def algebra_simps)
qed (use assms in \<open>auto simp: sub_count_ok_def ss_uncounted_def algebra_simps\<close>)

lemma sub_count_step:
  assumes "sub_step refusing s t" and "sub_count_ok s" and "sub_queue_ok (ss_sub s)"
    and "0 < so_queue_capacity (sb_options (ss_sub s))"
  shows "sub_count_ok t"
  using assms
proof (induction rule: sub_step.induct)
  case (sub_accept m s b sub)
  then show ?case by (intro sub_count_accept)
next
  case (sub_notify s d)
  then show ?case using notify_step_workers [OF sub_notify(1)] by (simp add: sub_count_ok_def ss_uncounted_def)
next
  case (sub_take s us vs r sub)
  then show ?case
    by (cases rule: Process_take_cases [OF sub_take(2)])
      (simp_all add: sub_count_ok_def ss_uncounted_def put_worker_def algebra_simps)
next
  case (sub_next s us vs b sub)
  then show ?case using Process_next_cases [OF sub_next(2)]
    by (auto simp: sub_count_ok_def ss_uncounted_def put_worker_def split: if_splits)
next
  case (sub_close s b sub)
  then show ?case using Close_section_cases [OF sub_close(1)]
    by (auto simp: sub_count_ok_def ss_uncounted_def algebra_simps split: if_splits)
qed (simp_all add: sub_count_ok_def ss_uncounted_def put_worker_def Accept_unschedule_def Process_threw_def
    Process_delivered_def algebra_simps)


subsubsection \<open>Together\<close>

definition sub_inv :: "SubscriptionOptions \<Rightarrow> 'm sub_sys \<Rightarrow> bool" where
  "sub_inv options s \<longleftrightarrow> 0 < so_queue_capacity options \<and> sb_options (ss_sub s) = options \<and> sub_tokens_ok s \<and>
     sub_queue_ok (ss_sub s) \<and> sub_fifo_ok s \<and> sub_count_ok s"

lemma sub_inv_init: "0 < so_queue_capacity options \<Longrightarrow> sub_inv options (sub_init options task i)"
  by (simp add: sub_inv_def sub_tokens_ok_def one_token_def sub_queue_ok_def sub_fifo_ok_def sub_count_ok_def
      ss_held_def ss_uncounted_def sub_init_def new_subscriber_def zero_subscription_stats_def idle_side_def tokens_def)

lemma sub_inv_step: "sub_step refusing s t \<Longrightarrow> sub_inv options s \<Longrightarrow> sub_inv options t"
  by (simp add: sub_inv_def sub_step_options sub_tokens_step sub_queue_ok_step sub_fifo_step sub_count_step)

interpretation subscription_run: step_invariant
  "\<lambda>s. \<exists>task i. s = sub_init options task i \<and> 0 < so_queue_capacity options" "sub_step refusing"
  "sub_inv options"
  for options refusing
  by unfold_locales (auto intro: sub_inv_init sub_inv_step)



subsection \<open>Waking up\<close>

text \<open>As long as the executor accepts, waiting messages have a run or a thread on its way.\<close>

definition awake :: "bool \<Rightarrow> bool \<Rightarrow> bool \<Rightarrow> ('n, 'p) task_side \<Rightarrow> bool" where
  "awake scheduled shut waiting d \<longleftrightarrow> ts_failed d = [] \<and>
     (shut \<or> (scheduled \<longleftrightarrow> tokens d = 1) \<and> (waiting \<longrightarrow> scheduled))"

definition sub_awake :: "'m sub_sys \<Rightarrow> bool" where
  "sub_awake s = awake (sb_scheduled (ss_sub s)) (sb_closed (ss_sub s)) (sb_queue (ss_sub s) \<noteq> []) (ss_task s)"

lemma notify_accepted: "notify_step False d d' \<Longrightarrow> tokens d' = tokens d \<and> ts_failed d' = ts_failed d"
  by (induction rule: notify_step.induct) (auto simp: tokens_def)

lemma awake_notify: "notify_step False d d' \<Longrightarrow> awake b c w d \<Longrightarrow> awake b c w d'"
  by (drule notify_accepted) (simp add: awake_def)

lemma awake_start:
  "ts_jobs d = Suc n \<Longrightarrow> awake b c w d \<Longrightarrow> awake b c w (d\<lparr>ts_jobs := n, ts_workers := ts_workers d @ [p]\<rparr>)"
  by (auto simp: awake_def tokens_def)

lemma awake_worker:
  "ts_workers d = us @ p # vs \<Longrightarrow> awake b c w d \<Longrightarrow> w' \<longrightarrow> b \<Longrightarrow> awake b c w' (put_worker us [q] vs d)"
  using tokens_put_worker [of d us p vs "[q]"] by (auto simp: awake_def put_worker_def)

lemma awake_worker_same:
  "ts_workers d = us @ p # vs \<Longrightarrow> awake b c w d \<Longrightarrow> awake b c w (put_worker us [q] vs d)"
  using tokens_put_worker [of d us p vs "[q]"] by (auto simp: awake_def put_worker_def)

lemma awake_worker_gone:
  assumes "ts_workers d = us @ p # vs" and "tokens d \<le> 1" and "awake b c w d" and "c \<or> \<not> w'"
  shows "awake False c w' (put_worker us [] vs d)"
  using assms tokens_put_worker [OF assms(1), of "[]"] by (auto simp: awake_def put_worker_def)

lemma awake_renotify:
  "ts_workers d = us @ p # vs \<Longrightarrow> awake b c w d \<Longrightarrow>
     awake b c w ((put_worker us [] vs d)\<lparr>ts_jobs := Suc (ts_jobs d)\<rparr>)"
  by (auto simp: awake_def tokens_def put_worker_def)

lemma sub_awake_accept:
  assumes "sub_awake s" and "sub_tokens_ok s" and "Accept_push m (ss_sub s) = (b, sub)"
  shows "awake (sb_scheduled sub) (sb_closed sub) (sb_queue sub \<noteq> []) (add_notifying b () (ss_task s))"
  using assms
  by (cases rule: Accept_push_cases [where m = m and s = "ss_sub s"])
    (auto simp: sub_awake_def awake_def sub_tokens_ok_def one_token_def add_notifying_def tokens_def)

lemma sub_awake_step:
  assumes "sub_step False s t" and "sub_awake s" and "sub_tokens_ok s"
  shows "sub_awake t"
  using assms
proof (induction rule: sub_step.induct)
  case (sub_accept m s b sub)
  then show ?case using sub_awake_accept by (simp add: sub_awake_def)
next
  case (sub_unschedule s us u vs)
  then show ?case by (simp add: sub_awake_def awake_def)
next
  case (sub_take s us vs r sub)
  then have t: "tokens (ss_task s) \<le> 1" by (simp add: sub_tokens_ok_def one_token_def)
  from sub_take(2) show ?case
  proof (cases rule: Process_take_cases)
    case none
    with sub_take t show ?thesis by (auto simp: sub_awake_def intro: awake_worker_gone)
  next
    case (some m q)
    with sub_take have "sb_scheduled (ss_sub s)" by (auto simp: sub_awake_def awake_def)
    with some sub_take(1,3) show ?thesis
      using awake_worker [of "ss_task s" us PcStart vs True False True "q \<noteq> []"] by (auto simp: sub_awake_def)
  qed
next
  case (sub_next s us vs b sub)
  then have t: "tokens (ss_task s) \<le> 1" by (simp add: sub_tokens_ok_def one_token_def)
  let ?ends = "sb_closed (ss_sub s) \<or> sb_queue (ss_sub s) = []"
  show ?case
  proof (cases ?ends)
    case True
    with Process_next_cases [OF sub_next(2)] have b: "\<not> b" "sub = (ss_sub s)\<lparr>sb_scheduled := False\<rparr>" by auto
    from sub_next(3) have "awake (sb_scheduled (ss_sub s)) (sb_closed (ss_sub s)) (sb_queue (ss_sub s) \<noteq> []) (ss_task s)"
      by (simp add: sub_awake_def)
    from awake_worker_gone [OF sub_next(1) t this, of "sb_queue (ss_sub s) \<noteq> []"] True b show ?thesis
      by (simp add: sub_awake_def)
  next
    case False
    with Process_next_cases [OF sub_next(2)] have b: "b" "sub = ss_sub s" by auto
    from False sub_next(3) have "sb_scheduled (ss_sub s)" by (auto simp: sub_awake_def awake_def)
    with b sub_next(1,3) show ?thesis by (auto simp: sub_awake_def intro: awake_worker)
  qed
next
  case (sub_close s b sub)
  then show ?case using Close_section_cases [OF sub_close(1)]
    by (auto simp: sub_awake_def awake_def split: if_splits)
next
  case (sub_renotify_fail s us vs)
  then show ?case by simp
qed (auto simp: sub_awake_def Process_threw_def Process_delivered_def awake_renotify
    intro: awake_notify awake_start awake_worker_same)


lemma sub_awake_init: "sub_awake (sub_init options task i)"
  by (simp add: sub_awake_def awake_def sub_init_def new_subscriber_def idle_side_def tokens_def)

interpretation awake_run: step_invariant
  "\<lambda>s. \<exists>task i. s = sub_init options task i \<and> 0 < so_queue_capacity options" "sub_step False"
  "\<lambda>s. sub_inv options s \<and> sub_awake s"
  for options
  by unfold_locales (auto simp: sub_inv_init sub_awake_init sub_inv_step, auto simp: sub_inv_def sub_awake_step)

text \<open>A subscriber with the flag set, or closed, and no token: nothing runs the callback any more.\<close>

definition sub_dead :: "'m sub_sys \<Rightarrow> bool" where
  "sub_dead s \<longleftrightarrow> tokens (ss_task s) = 0 \<and> (sb_scheduled (ss_sub s) \<or> sb_closed (ss_sub s))"

definition sub_frozen :: "'m list \<Rightarrow> nat \<Rightarrow> 'm sub_sys \<Rightarrow> bool" where
  "sub_frozen called waiting s \<longleftrightarrow> sub_dead s \<and> ss_called s = called \<and>
     (sb_closed (ss_sub s) \<or> waiting \<le> length (sb_queue (ss_sub s)))"

lemma tokens_zero:
  "tokens d = 0 \<longleftrightarrow> ts_jobs d = 0 \<and> ts_notifying d = [] \<and> ts_failed d = [] \<and> ts_workers d = []"
  by (auto simp: tokens_def)

lemma notify_step_zero: "notify_step refusing d d' \<Longrightarrow> tokens d \<noteq> 0"
  by (induction rule: notify_step.induct) (auto simp: tokens_zero)

lemma sub_frozen_step: "sub_step refusing s t \<Longrightarrow> sub_frozen called waiting s \<Longrightarrow> sub_frozen called waiting t"
proof (induction rule: sub_step.induct)
  case (sub_accept m s b sub)
  then show ?case
    by (cases rule: Accept_push_cases [where m = m and s = "ss_sub s"])
      (auto simp: sub_frozen_def sub_dead_def add_notifying_def)
next
  case (sub_close s b sub)
  then show ?case using Close_section_cases [OF sub_close(1)]
    by (auto simp: sub_frozen_def sub_dead_def split: if_splits)
next
  case (sub_notify s d)
  then show ?case using notify_step_zero [OF sub_notify(1)] by (auto simp: sub_frozen_def sub_dead_def)
qed (auto simp: sub_frozen_def sub_dead_def tokens_zero)

interpretation frozen_run: step_invariant "sub_frozen called waiting" "sub_step refusing" "sub_frozen called waiting"
  for called waiting refusing
  by unfold_locales (auto intro: sub_frozen_step)


subsection \<open>Whole methods as runs\<close>

text \<open>\<open>Accept\<close> and \<open>ProcessOne\<close> without interference are among the interleavings.\<close>

lemma Subscriber_Accept_run:
  assumes "ts_notifying (ss_task s) = []" and "ts_failed (ss_task s) = []"
  shows "\<exists>t. (sub_step True)\<^sup>*\<^sup>* s t \<and> ss_sub t = Subscriber_Accept st m (ss_sub s)"
proof -
  obtain b sub where push: "Accept_push m (ss_sub s) = (b, sub)" by fastforce
  let ?d = "add_notifying b () (ss_task s)"
  let ?p = "ss_pushed s @ (if admits (ss_sub s) then [m] else [])"
  let ?s1 = "s\<lparr>ss_sub := sub, ss_task := ?d, ss_pushed := ?p\<rparr>"
  have one: "sub_step True s ?s1" by (rule sub_accept [OF push])
  show ?thesis
  proof (cases "b \<and> \<not> ok st")
    case False
    with push one show ?thesis by (intro exI [of _ ?s1]) (auto simp: Subscriber_Accept_def)
  next
    case True
    then have "ts_notifying ?d = [] @ () # []" using assms by (simp add: add_notifying_def)
    then have "notify_step True ?d (?d\<lparr>ts_notifying := [], ts_failed := () # ts_failed ?d\<rparr>)"
      using notify_fail [of True ?d "[]" "()" "[]"] by simp
    from sub_notify [of True ?s1, simplified, OF this]
    have two: "sub_step True ?s1 (?s1\<lparr>ss_task := ?d\<lparr>ts_notifying := [], ts_failed := () # ts_failed ?d\<rparr>\<rparr>)" by simp
    let ?s2 = "?s1\<lparr>ss_task := ?d\<lparr>ts_notifying := [], ts_failed := () # ts_failed ?d\<rparr>\<rparr>"
    let ?s3 = "?s2\<lparr>ss_sub := Accept_unschedule (ss_sub ?s2), ss_task := (ss_task ?s2)\<lparr>ts_failed := [] @ ts_failed ?d\<rparr>\<rparr>"
    have "sub_step True ?s2 ?s3" by (rule sub_unschedule) simp
    note converse_rtranclp_into_rtranclp [OF one converse_rtranclp_into_rtranclp [OF two r_into_rtranclp
      [of "sub_step True", OF this]]]
    with push True show ?thesis by (intro exI [of _ ?s3]) (simp add: Subscriber_Accept_def)
  qed
qed

lemma callback_run:
  assumes "ts_workers (ss_task s) = [PcHolding m]"
  shows "\<exists>t. (sub_step r)\<^sup>*\<^sup>* s t \<and> ts_workers (ss_task t) = [PcReturned m] \<and> ss_called t = ss_called s @ [m] \<and>
    ss_sub t = (if b then Process_threw (ss_sub s) else ss_sub s)"
proof -
  let ?s1 = "s\<lparr>ss_task := put_worker [] [PcRunning m] [] (ss_task s), ss_called := ss_called s @ [m]\<rparr>"
  have one: "sub_step r s ?s1" using assms by (intro sub_call) simp
  have w: "ts_workers (ss_task ?s1) = [] @ PcRunning m # []" by (simp add: put_worker_def)
  show ?thesis
  proof (cases b)
    case False
    from converse_rtranclp_into_rtranclp [OF one r_into_rtranclp [of "sub_step r", OF sub_return [OF w]]] False
    show ?thesis by (auto simp: put_worker_def)
  next
    case True
    let ?s2 = "?s1\<lparr>ss_task := put_worker [] [PcThrew m] [] (ss_task ?s1)\<rparr>"
    have two: "sub_step r ?s1 ?s2" by (rule sub_throw [OF w])
    have w2: "ts_workers (ss_task ?s2) = [] @ PcThrew m # []" by (simp add: put_worker_def)
    from converse_rtranclp_into_rtranclp [OF one converse_rtranclp_into_rtranclp [OF two
      r_into_rtranclp [of "sub_step r", OF sub_threw [OF w2]]]] True
    show ?thesis by (auto simp: put_worker_def)
  qed
qed

lemma Subscriber_ProcessOne_run:
  assumes w: "ts_workers (ss_task s) = [PcStart]"
    and p: "Subscriber_ProcessOne throws (ss_sub s) = (m, notify, sub)"
  shows "\<exists>t. (sub_step r)\<^sup>*\<^sup>* s t \<and> ss_sub t = sub \<and> ss_called t = ss_called s @ (case m of None \<Rightarrow> [] | Some x \<Rightarrow> [x]) \<and>
    ts_workers (ss_task t) = (if notify then [PcNotify] else [])"
proof -
  obtain x sub1 where t: "Process_take (ss_sub s) = (x, sub1)" by fastforce
  let ?s1 = "s\<lparr>ss_sub := sub1, ss_task := put_worker [] (case x of None \<Rightarrow> [] | Some m \<Rightarrow> [PcHolding m]) [] (ss_task s)\<rparr>"
  have one: "sub_step r s ?s1" using w by (intro sub_take [OF _ t]) simp
  show ?thesis
  proof (cases x)
    case None
    with one p t show ?thesis
      by (intro exI [of _ ?s1]) (auto simp: Subscriber_ProcessOne_def put_worker_def)
  next
    case (Some y)
    then have "ts_workers (ss_task ?s1) = [PcHolding y]" by (simp add: put_worker_def)
    from callback_run [OF this, of r "throws y"] obtain s2 where cb: "(sub_step r)\<^sup>*\<^sup>* ?s1 s2 \<and>
        ts_workers (ss_task s2) = [PcReturned y] \<and> ss_called s2 = ss_called ?s1 @ [y] \<and>
        ss_sub s2 = (if throws y then Process_threw (ss_sub ?s1) else ss_sub ?s1)" by (rule exE)
    note two = conjunct1 [OF cb]
    from cb have w2: "ts_workers (ss_task s2) = [] @ PcReturned y # []" and c: "ss_called s2 = ss_called s @ [y]"
      and sub2: "ss_sub s2 = (if throws y then Process_threw sub1 else sub1)" by simp_all
    let ?s3 = "s2\<lparr>ss_sub := Process_delivered (ss_sub s2), ss_task := put_worker [] [PcDelivered] [] (ss_task s2)\<rparr>"
    have three: "sub_step r s2 ?s3" by (rule sub_delivered [OF w2])
    obtain b sub3 where n: "Process_next (Process_delivered (ss_sub s2)) = (b, sub3)" by fastforce
    let ?s4 = "?s3\<lparr>ss_sub := sub3, ss_task := put_worker [] (if b then [PcNotify] else []) [] (ss_task ?s3)\<rparr>"
    have w3: "ts_workers (ss_task ?s3) = [] @ PcDelivered # []" by (simp add: put_worker_def)
    from n have "Process_next (ss_sub ?s3) = (b, sub3)" by simp
    from sub_next [OF w3 this] have four: "sub_step r ?s3 ?s4" .
    have "(sub_step r)\<^sup>*\<^sup>* s s2" using one two by (rule converse_rtranclp_into_rtranclp)
    then have "(sub_step r)\<^sup>*\<^sup>* s ?s3" using three by (rule rtranclp.rtrancl_into_rtrancl)
    then have "(sub_step r)\<^sup>*\<^sup>* s ?s4" using four by (rule rtranclp.rtrancl_into_rtrancl)
    moreover have "Subscriber_ProcessOne throws (ss_sub s) = (Some y, b, sub3)"
      using n unfolding sub2 Subscriber_ProcessOne_def t Some by (simp only: prod.case option.case Let_def)
    then have "m = Some y \<and> notify = b \<and> sub = sub3" using p by simp
    ultimately show ?thesis using c by (intro exI [of _ ?s4] conjI) (simp_all add: put_worker_def)
  qed
qed


subsection \<open>Properties\<close>

text \<open>C15: Whatever the interleaving of transports, workers and \<open>Close\<close>, and whatever the executor answers, at
  most one thread is in \<open>ProcessOne\<close> and then no run is queued, so the callback never overlaps itself. Messages
  reach it in the order in which they were admitted, with none missing or doubled under \<open>DropNewest\<close>
  while the subscriber is open. The queue stays within its capacity, its depth is exact, and every message
  received is delivered, dropped, queued, in the hands of a worker, or discarded by closing; a message whose
  callback throws is counted as delivered and as dropped.\<close>

theorem subscription_serial_fifo:
  assumes "0 < so_queue_capacity options" and "(sub_step refusing)\<^sup>*\<^sup>* (sub_init options task i) s"
  shows "ts_jobs (ss_task s) + length (ts_workers (ss_task s)) \<le> 1 \<and>
    subseq (ss_called s @ ss_held s @ sb_queue (ss_sub s)) (ss_pushed s) \<and>
    (so_overflow_policy options = DropNewest \<and> \<not> sb_closed (ss_sub s) \<longrightarrow>
      ss_called s @ ss_held s @ sb_queue (ss_sub s) = ss_pushed s) \<and>
    length (sb_queue (ss_sub s)) \<le> so_queue_capacity options \<and>
    sub_queue_depth (sb_stats (ss_sub s)) = length (sb_queue (ss_sub s)) \<and>
    sub_received (sb_stats (ss_sub s)) + of_nat (ss_thrown s) =
      sub_delivered (sb_stats (ss_sub s)) + sub_dropped (sb_stats (ss_sub s)) +
      of_nat (length (sb_queue (ss_sub s)) + ss_uncounted s + ss_discarded s)"
proof -
  have inv: "sub_inv options s" using subscription_run.reachable_inv assms by blast
  then have "ts_jobs (ss_task s) + length (ts_workers (ss_task s)) \<le> 1"
    by (simp add: sub_inv_def sub_tokens_ok_def one_token_def tokens_def)
  with inv show ?thesis by (auto simp: sub_inv_def sub_fifo_ok_def sub_queue_ok_def sub_count_ok_def)
qed

text \<open>C19: As long as the executor accepts every notification and discards no run, an open subscriber with
  messages waiting always has exactly one run queued, one thread about to notify, or one worker at work.\<close>

theorem waiting_messages_have_a_run:
  assumes "0 < so_queue_capacity options" and "(sub_step False)\<^sup>*\<^sup>* (sub_init options task i) s"
    and "sb_queue (ss_sub s) \<noteq> []"
  shows "ts_jobs (ss_task s) + length (ts_notifying (ss_task s)) + length (ts_workers (ss_task s)) = 1"
proof -
  have "sub_inv options s \<and> sub_awake s" using awake_run.reachable_inv assms(1,2) by blast
  with assms(3) show ?thesis
    by (auto simp: sub_inv_def sub_queue_ok_def sub_awake_def awake_def tokens_def)
qed



subsection \<open>A run\<close>

definition demo_options :: SubscriptionOptions where
  "demo_options = \<lparr>so_callback_group = 1, so_queue_capacity = 2, so_overflow_policy = DropNewest,
     so_qos = demo_qos\<rparr>"

text \<open>States of the example: the queue, the flag, the counters, the other threads, the two logs.\<close>

definition demo_sub ::
    "nat list \<Rightarrow> bool \<Rightarrow> u64 \<times> u64 \<times> nat \<Rightarrow> (unit, nat sub_pc) task_side \<Rightarrow> nat list \<Rightarrow> nat list \<Rightarrow> nat sub_sys" where
  "demo_sub q b n d pushed called =
     \<lparr>ss_sub = \<lparr>sb_closed = False, sb_scheduled = b, sb_queue = q, sb_options = demo_options,
        sb_stats = \<lparr>sub_received = fst n, sub_delivered = fst (snd n), sub_dropped = 0,
          sub_queue_depth = length q, sub_high_watermark = snd (snd n)\<rparr>,
        sb_task_id = 1, sb_subscription_id = 1\<rparr>,
      ss_task = d, ss_pushed = pushed, ss_called = called, ss_thrown = 0, ss_discarded = 0\<rparr>"

definition demo_side :: "nat \<Rightarrow> unit list \<Rightarrow> nat sub_pc list \<Rightarrow> (unit, nat sub_pc) task_side" where
  "demo_side jobs notifying pcs = \<lparr>ts_jobs = jobs, ts_notifying = notifying, ts_failed = [], ts_workers = pcs\<rparr>"

lemmas demo_sub_defs = demo_sub_def demo_side_def demo_options_def put_worker_def add_notifying_def admits_def
  Accept_push_def Process_take_def Process_delivered_def Process_next_def

lemma demo_sub_start:
  "sub_init demo_options 1 1 = demo_sub [] False (0, 0, 0) (demo_side 0 [] []) [] []"
  by (simp add: sub_init_def new_subscriber_def zero_subscription_stats_def idle_side_def demo_sub_defs)

lemma demo_sub_steps:
  "sub_step r (demo_sub [] False (0, 0, 0) (demo_side 0 [] []) [] [])
     (demo_sub [7] True (1, 0, 1) (demo_side 0 [()] []) [7] [])"
  "sub_step r (demo_sub [7] True (1, 0, 1) (demo_side 0 [()] []) [7] [])
     (demo_sub [7, 8] True (2, 0, 2) (demo_side 0 [()] []) [7, 8] [])"
  "sub_step r (demo_sub [7, 8] True (2, 0, 2) (demo_side 0 [()] []) [7, 8] [])
     (demo_sub [7, 8] True (2, 0, 2) (demo_side 1 [] []) [7, 8] [])"
  "sub_step r (demo_sub [7, 8] True (2, 0, 2) (demo_side 1 [] []) [7, 8] [])
     (demo_sub [7, 8] True (2, 0, 2) (demo_side 0 [] [PcStart]) [7, 8] [])"
  "sub_step r (demo_sub [7, 8] True (2, 0, 2) (demo_side 0 [] [PcStart]) [7, 8] [])
     (demo_sub [8] True (2, 0, 2) (demo_side 0 [] [PcHolding 7]) [7, 8] [])"
  "sub_step r (demo_sub [8] True (2, 0, 2) (demo_side 0 [] [PcHolding 7]) [7, 8] [])
     (demo_sub [8] True (2, 0, 2) (demo_side 0 [] [PcRunning 7]) [7, 8] [7])"
  "sub_step r (demo_sub [8] True (2, 0, 2) (demo_side 0 [] [PcRunning 7]) [7, 8] [7])
     (demo_sub [8] True (2, 0, 2) (demo_side 0 [] [PcReturned 7]) [7, 8] [7])"
  "sub_step r (demo_sub [8] True (2, 0, 2) (demo_side 0 [] [PcReturned 7]) [7, 8] [7])
     (demo_sub [8] True (2, 1, 2) (demo_side 0 [] [PcDelivered]) [7, 8] [7])"
  "sub_step r (demo_sub [8] True (2, 1, 2) (demo_side 0 [] [PcDelivered]) [7, 8] [7])
     (demo_sub [8] True (2, 1, 2) (demo_side 0 [] [PcNotify]) [7, 8] [7])"
  using sub_accept [OF prod.collapse [symmetric], where m = 7 and refusing = r and s =
      "demo_sub [] False (0, 0, 0) (demo_side 0 [] []) [] []"]
    sub_accept [OF prod.collapse [symmetric], where m = 8 and refusing = r and s =
      "demo_sub [7] True (1, 0, 1) (demo_side 0 [()] []) [7] []"]
    sub_notify [OF notify_ok [where us = "[]" and i = "()" and vs = "[]"], where refusing = r and s =
      "demo_sub [7, 8] True (2, 0, 2) (demo_side 0 [()] []) [7, 8] []"]
    sub_start [where n = 0 and refusing = r and s =
      "demo_sub [7, 8] True (2, 0, 2) (demo_side 1 [] []) [7, 8] []"]
    sub_take [OF _ prod.collapse [symmetric], where us = "[]" and vs = "[]" and refusing = r and s =
      "demo_sub [7, 8] True (2, 0, 2) (demo_side 0 [] [PcStart]) [7, 8] []"]
    sub_call [where us = "[]" and vs = "[]" and m = 7 and refusing = r and s =
      "demo_sub [8] True (2, 0, 2) (demo_side 0 [] [PcHolding 7]) [7, 8] []"]
    sub_return [where us = "[]" and vs = "[]" and m = 7 and refusing = r and s =
      "demo_sub [8] True (2, 0, 2) (demo_side 0 [] [PcRunning 7]) [7, 8] [7]"]
    sub_delivered [where us = "[]" and vs = "[]" and m = 7 and refusing = r and s =
      "demo_sub [8] True (2, 0, 2) (demo_side 0 [] [PcReturned 7]) [7, 8] [7]"]
    sub_next [OF _ prod.collapse [symmetric], where us = "[]" and vs = "[]" and refusing = r and s =
      "demo_sub [8] True (2, 1, 2) (demo_side 0 [] [PcDelivered]) [7, 8] [7]"]
  by (simp_all add: demo_sub_defs Let_def numeral_2_eq_2)

lemma demo_sub_reachable:
  "(sub_step r)\<^sup>*\<^sup>* (sub_init demo_options 1 1) (demo_sub [8] True (2, 1, 2) (demo_side 0 [] [PcNotify]) [7, 8] [7])"
  unfolding demo_sub_start
  by (rule converse_rtranclp_into_rtranclp, rule demo_sub_steps)+ (rule rtranclp.rtrancl_refl)


theorem subscription_serial_fifo_witness:
  "\<exists>s. (sub_step True)\<^sup>*\<^sup>* (sub_init demo_options 1 1) s \<and> ss_called s = [7::nat] \<and>
     ss_called s @ ss_held s @ sb_queue (ss_sub s) = ss_pushed s \<and> sb_queue (ss_sub s) = [8]"
proof -
  let ?s = "demo_sub [8] True (2, 1, 2) (demo_side 0 [] [PcNotify]) [7, 8] [7]"
  have cap: "0 < so_queue_capacity demo_options" and "so_overflow_policy demo_options = DropNewest"
    and "\<not> sb_closed (ss_sub ?s)" by (simp_all add: demo_options_def demo_sub_def)
  then have "ss_called ?s @ ss_held ?s @ sb_queue (ss_sub ?s) = ss_pushed ?s"
    using subscription_serial_fifo [OF cap demo_sub_reachable [of True]] by blast
  moreover have "ss_called ?s = [7]" and "sb_queue (ss_sub ?s) = [8]" by (simp_all add: demo_sub_def)
  ultimately show ?thesis using demo_sub_reachable [of True] by (intro exI [of _ ?s] conjI)
qed

theorem waiting_messages_have_a_run_witness:
  "\<exists>s. (sub_step False)\<^sup>*\<^sup>* (sub_init demo_options 1 1) s \<and> sb_queue (ss_sub s) = [8::nat] \<and>
     ts_jobs (ss_task s) + length (ts_notifying (ss_task s)) + length (ts_workers (ss_task s)) = 1"
proof -
  let ?s = "demo_sub [8] True (2, 1, 2) (demo_side 0 [] [PcNotify]) [7, 8] [7]"
  have cap: "0 < so_queue_capacity demo_options" and q: "sb_queue (ss_sub ?s) = [8]"
    by (simp_all add: demo_options_def demo_sub_def)
  then have "ts_jobs (ss_task ?s) + length (ts_notifying (ss_task ?s)) + length (ts_workers (ss_task ?s)) = 1"
    by (intro waiting_messages_have_a_run [OF cap demo_sub_reachable]) simp
  with q demo_sub_reachable [of False] show ?thesis by (intro exI [of _ ?s] conjI)
qed


end
