(* ===== verification/Node_Service.thy ===== *)
theory Node_Service
  imports Node_Subscription "HOL-Library.Multiset"
begin

text \<open>
  A service and the threads around it: callers in \<open>Invoke\<close>, the executor, the worker in \<open>ProcessOne\<close>, the
  thread that closes the service and answers the calls it found queued. Each locked section and each
  \<open>set_value\<close> of a promise is one step. A call is known by the number of its \<open>PendingCall\<close>.
\<close>

subsection \<open>Steps\<close>

datatype svc_pc = SvcStart | SvcHolding PendingCall | SvcAnswered | SvcNotify

text \<open>The last fields record what happened: the calls admitted, the promises set with their values, the
  calls their caller took back, and those a worker answered, each in order.\<close>

record svc_sys =
  sv_svc :: ServiceImpl
  sv_task :: "(nat, svc_pc) task_side"
  sv_closing :: "PendingCall list"
  sv_next :: nat
  sv_accepted :: "nat list"
  sv_answers :: "(nat \<times> Message Result) list"
  sv_withdrawn :: "nat list"
  sv_handled :: "nat list"

definition svc_init :: "NodeConfig \<Rightarrow> u64 \<Rightarrow> u64 \<Rightarrow> svc_sys" where
  "svc_init node task i =
     \<lparr>sv_svc = new_service node task i, sv_task = idle_side, sv_closing = [], sv_next = 0, sv_accepted = [],
      sv_answers = [], sv_withdrawn = [], sv_handled = []\<rparr>"

abbreviation queued_ids :: "svc_sys \<Rightarrow> nat list" where
  "queued_ids s \<equiv> map pc_id (sc_queue (sv_svc s))"

inductive svc_step :: "bool \<Rightarrow> svc_sys \<Rightarrow> svc_sys \<Rightarrow> bool" for refusing where
  svc_invoke: "Invoke_push \<lparr>pc_id = sv_next s, pc_request = m, pc_deadline = dl\<rparr> (sv_svc s) = (r, svc) \<Longrightarrow>
     svc_step refusing s (s\<lparr>sv_svc := svc, sv_next := Suc (sv_next s),
       sv_task := add_notifying (r = Inr True) (sv_next s) (sv_task s),
       sv_accepted := sv_accepted s @ (case r of Inl e \<Rightarrow> [] | Inr b \<Rightarrow> [sv_next s])\<rparr>)"
| svc_notify: "notify_step refusing (sv_task s) d \<Longrightarrow> svc_step refusing s (s\<lparr>sv_task := d\<rparr>)"
| svc_withdraw: "ts_failed (sv_task s) = us @ i # vs \<Longrightarrow>
     svc_step refusing s (s\<lparr>sv_svc := Invoke_withdraw i (sv_svc s),
       sv_task := (sv_task s)\<lparr>ts_failed := us @ vs\<rparr>,
       sv_withdrawn := sv_withdrawn s @ (if i \<in> set (queued_ids s) then [i] else [])\<rparr>)"
| svc_start: "ts_jobs (sv_task s) = Suc n \<Longrightarrow>
     svc_step refusing s (s\<lparr>sv_task := (sv_task s)\<lparr>ts_jobs := n,
       ts_workers := ts_workers (sv_task s) @ [SvcStart]\<rparr>\<rparr>)"
| svc_take: "ts_workers (sv_task s) = us @ SvcStart # vs \<Longrightarrow> Service_take (sv_svc s) = (r, svc) \<Longrightarrow>
     svc_step refusing s (s\<lparr>sv_svc := svc, sv_task := put_worker us
       (case r of None \<Rightarrow> [] | Some c \<Rightarrow> [SvcHolding c]) vs (sv_task s)\<rparr>)"
| svc_answer: "ts_workers (sv_task s) = us @ SvcHolding c # vs \<Longrightarrow>
     Service_answer handler t0 now new_trace new_span c (sv_svc s) = (r, svc) \<Longrightarrow>
     svc_step refusing s (s\<lparr>sv_svc := svc, sv_task := put_worker us [SvcAnswered] vs (sv_task s),
       sv_answers := sv_answers s @ [(pc_id c, r)], sv_handled := sv_handled s @ [pc_id c]\<rparr>)"
| svc_next: "ts_workers (sv_task s) = us @ SvcAnswered # vs \<Longrightarrow> Service_next (sv_svc s) = (b, svc) \<Longrightarrow>
     svc_step refusing s (s\<lparr>sv_svc := svc, sv_task := put_worker us (if b then [SvcNotify] else []) vs (sv_task s)\<rparr>)"
| svc_renotify_ok: "ts_workers (sv_task s) = us @ SvcNotify # vs \<Longrightarrow>
     svc_step refusing s (s\<lparr>sv_task := (put_worker us [] vs (sv_task s))\<lparr>ts_jobs := Suc (ts_jobs (sv_task s))\<rparr>\<rparr>)"
| svc_renotify_fail: "refusing \<Longrightarrow> ts_workers (sv_task s) = us @ SvcNotify # vs \<Longrightarrow>
     svc_step refusing s (s\<lparr>sv_task := put_worker us [] vs (sv_task s)\<rparr>)"
| svc_close: "Service_close_section (sv_svc s) = (r, svc) \<Longrightarrow>
     svc_step refusing s (s\<lparr>sv_svc := svc,
       sv_closing := sv_closing s @ (case r of None \<Rightarrow> [] | Some calls \<Rightarrow> calls)\<rparr>)"
| svc_close_answer: "sv_closing s = c # cs \<Longrightarrow>
     svc_step refusing s (s\<lparr>sv_closing := cs, sv_answers := sv_answers s @ [(pc_id c, closed_answer)]\<rparr>)"


subsection \<open>Operations by cases\<close>

lemma Invoke_push_cases:
  assumes "Invoke_push c s = (r, s')"
  obtains (refused) e where "r = Inl e" "s' = s" "sc_closed s \<or> kQueueCapacity \<le> length (sc_queue s)"
  | (pushed) "r = Inr (\<not> sc_scheduled s)" "s' = s\<lparr>sc_queue := sc_queue s @ [c], sc_scheduled := True\<rparr>"
      "\<not> sc_closed s" "length (sc_queue s) < kQueueCapacity"
  using assms by (cases "sc_closed s"; cases "kQueueCapacity \<le> length (sc_queue s)"; cases "sc_scheduled s")
    (auto simp: Invoke_push_def Let_def)

lemma Service_take_cases:
  assumes "Service_take s = (r, s')"
  obtains (none) "r = None" "s' = s\<lparr>sc_scheduled := False\<rparr>" "sc_queue s = [] \<or> sc_closed s"
  | (some) c q where "r = Some c" "sc_queue s = c # q" "\<not> sc_closed s" "s' = s\<lparr>sc_queue := q\<rparr>"
  using assms by (cases "sc_queue s") (auto simp: Service_take_def split: if_splits)

lemma Service_answer_same:
  assumes "Service_answer handler t0 now new_trace new_span c s = (r, s')"
  shows "sc_queue s' = sc_queue s" "sc_closed s' = sc_closed s" "sc_scheduled s' = sc_scheduled s"
  using assms by (auto simp: Service_answer_def Let_def split: sum.splits prod.splits)

lemma Service_next_cases:
  assumes "Service_next s = (b, s')"
  shows "(if sc_closed s \<or> sc_queue s = [] then \<not> b \<and> s' = s\<lparr>sc_scheduled := False\<rparr> else b \<and> s' = s)"
  using assms by (auto simp: Service_next_def split: if_splits)

lemma Service_close_cases:
  assumes "Service_close_section s = (r, s')"
  shows "(if sc_closed s then r = None \<and> s' = s
    else r = Some (sc_queue s) \<and> s' = s\<lparr>sc_closed := True, sc_scheduled := False, sc_queue := []\<rparr>)"
  using assms by (auto simp: Service_close_section_def split: if_splits)

lemma Invoke_withdraw_same [simp]:
  "sc_closed (Invoke_withdraw i s) = sc_closed s"
  "sc_queue (Invoke_withdraw i s) = filter (\<lambda>c. pc_id c \<noteq> i) (sc_queue s)"
  by (simp_all add: Invoke_withdraw_def Let_def)

lemma Invoke_withdraw_scheduled:
  "sc_scheduled (Invoke_withdraw i s) \<longleftrightarrow> sc_scheduled s \<and> filter (\<lambda>c. pc_id c \<noteq> i) (sc_queue s) \<noteq> []"
  by (simp add: Invoke_withdraw_def Let_def)


subsection \<open>The invariant\<close>

primrec svc_held :: "svc_pc \<Rightarrow> nat list" where
  "svc_held SvcStart = []"
| "svc_held (SvcHolding c) = [pc_id c]"
| "svc_held SvcAnswered = []"
| "svc_held SvcNotify = []"

definition sv_held :: "svc_sys \<Rightarrow> nat list" where
  "sv_held s = concat (map svc_held (ts_workers (sv_task s)))"

definition svc_tokens_ok :: "svc_sys \<Rightarrow> bool" where
  "svc_tokens_ok s = one_token (sc_scheduled (sv_svc s)) (sc_closed (sv_svc s)) (sv_task s)"

definition svc_queue_ok :: "ServiceImpl \<Rightarrow> bool" where
  "svc_queue_ok s \<longleftrightarrow> length (sc_queue s) \<le> kQueueCapacity \<and> (sc_closed s \<longrightarrow> sc_queue s = [])"

text \<open>Every admitted call is at exactly one place.\<close>

definition svc_calls_ok :: "svc_sys \<Rightarrow> bool" where
  "svc_calls_ok s \<longleftrightarrow> distinct (sv_accepted s) \<and> list_all (\<lambda>i. i < sv_next s) (sv_accepted s) \<and>
     mset (map fst (sv_answers s) @ sv_held s @ queued_ids s @ map pc_id (sv_closing s) @ sv_withdrawn s) =
       mset (sv_accepted s)"

definition svc_order_ok :: "svc_sys \<Rightarrow> bool" where
  "svc_order_ok s \<longleftrightarrow> sorted_wrt (<) (sv_handled s @ sv_held s @ queued_ids s) \<and>
     list_all (\<lambda>i. i < sv_next s) (sv_handled s @ sv_held s @ queued_ids s)"

lemma svc_tokens_step: "svc_step refusing s t \<Longrightarrow> svc_tokens_ok s \<Longrightarrow> svc_tokens_ok t"
proof (induction rule: svc_step.induct)
  case (svc_invoke s m dl r svc)
  from svc_invoke(1) show ?case
    by (cases rule: Invoke_push_cases)
      (use svc_invoke(2) in \<open>auto simp: svc_tokens_ok_def one_token_def add_notifying_def tokens_def\<close>)
next
  case (svc_withdraw s us i vs)
  then show ?case by (auto simp: svc_tokens_ok_def one_token_def tokens_def)
next
  case (svc_start s n)
  then show ?case by (auto simp: svc_tokens_ok_def one_token_def tokens_def)
next
  case (svc_take s us vs r svc)
  from svc_take(2) show ?case
    by (cases rule: Service_take_cases) (use svc_take in \<open>simp_all add: svc_tokens_ok_def one_token_worker\<close>)
next
  case (svc_answer s us c vs handler t0 now new_trace new_span r svc)
  then show ?case using Service_answer_same [OF svc_answer(2)] by (simp add: svc_tokens_ok_def one_token_worker)
next
  case (svc_next s us vs b svc)
  then show ?case using Service_next_cases [OF svc_next(2)]
    by (auto simp: svc_tokens_ok_def one_token_worker split: if_splits)
next
  case (svc_renotify_ok s us vs)
  then show ?case by (auto simp: svc_tokens_ok_def one_token_def tokens_def put_worker_def)
next
  case (svc_close s r svc)
  then show ?case using Service_close_cases [OF svc_close(1)]
    by (auto simp: svc_tokens_ok_def one_token_def split: if_splits)
qed (simp_all add: one_token_notify one_token_worker svc_tokens_ok_def)

lemma svc_queue_step: "svc_step refusing s t \<Longrightarrow> svc_queue_ok (sv_svc s) \<Longrightarrow> svc_queue_ok (sv_svc t)"
proof (induction rule: svc_step.induct)
  case (svc_invoke s m dl r svc)
  from svc_invoke(1) show ?case
    by (cases rule: Invoke_push_cases) (use svc_invoke(2) in \<open>auto simp: svc_queue_ok_def\<close>)
next
  case (svc_withdraw s us i vs)
  then show ?case by (auto simp: svc_queue_ok_def intro: le_trans [OF length_filter_le])
next
  case (svc_take s us vs r svc)
  from svc_take(2) show ?case
    by (cases rule: Service_take_cases) (use svc_take in \<open>auto simp: svc_queue_ok_def\<close>)
next
  case (svc_answer s us c vs handler t0 now new_trace new_span r svc)
  then show ?case using Service_answer_same [OF svc_answer(2)] by (simp add: svc_queue_ok_def)
next
  case (svc_next s us vs b svc)
  then show ?case using Service_next_cases [OF svc_next(2)] by (auto simp: svc_queue_ok_def split: if_splits)
next
  case (svc_close s r svc)
  then show ?case using Service_close_cases [OF svc_close(1)] by (auto simp: svc_queue_ok_def split: if_splits)
qed simp_all

lemma svc_withdraw_mset:
  "distinct (map pc_id q) \<Longrightarrow>
     mset (map pc_id (filter (\<lambda>c. pc_id c \<noteq> i) q)) + mset (if i \<in> pc_id ` set q then [i] else []) = mset (map pc_id q)"
  by (induction q) (auto split: if_splits)

lemma svc_calls_distinct:
  assumes "svc_calls_ok s"
  shows "distinct (map fst (sv_answers s) @ sv_held s @ queued_ids s @ map pc_id (sv_closing s) @ sv_withdrawn s)"
  using assms mset_eq_imp_distinct_iff unfolding svc_calls_ok_def by blast

lemma svc_calls_withdraw:
  assumes "svc_calls_ok s" and "ts_workers d = ts_workers (sv_task s)"
  shows "svc_calls_ok (s\<lparr>sv_svc := Invoke_withdraw i (sv_svc s), sv_task := d,
    sv_withdrawn := sv_withdrawn s @ (if i \<in> set (queued_ids s) then [i] else [])\<rparr>)"
proof -
  from svc_calls_distinct [OF assms(1)] have "distinct (queued_ids s)" by simp
  from svc_withdraw_mset [OF this, of i] assms show ?thesis
    by (auto simp: svc_calls_ok_def sv_held_def ac_simps)
qed

lemma svc_calls_step: "svc_step refusing s t \<Longrightarrow> svc_calls_ok s \<Longrightarrow> svc_calls_ok t"
proof (induction rule: svc_step.induct)
  case (svc_invoke s m dl r svc)
  from svc_invoke(1) show ?case
    by (cases rule: Invoke_push_cases)
      (use svc_invoke(2) in \<open>auto simp: svc_calls_ok_def sv_held_def list_all_iff less_Suc_eq\<close>)
next
  case (svc_notify s d)
  then show ?case using notify_step_workers [OF svc_notify(1)] by (simp add: svc_calls_ok_def sv_held_def)
next
  case (svc_withdraw s us i vs)
  then show ?case by (intro svc_calls_withdraw) simp_all
next
  case (svc_take s us vs r svc)
  from svc_take(2) show ?case
    by (cases rule: Service_take_cases)
      (use svc_take in \<open>auto simp: svc_calls_ok_def sv_held_def put_worker_def\<close>)
next
  case (svc_answer s us c vs handler t0 now new_trace new_span r svc)
  then show ?case using Service_answer_same [OF svc_answer(2)]
    by (simp add: svc_calls_ok_def sv_held_def put_worker_def)
next
  case (svc_next s us vs b svc)
  then show ?case using Service_next_cases [OF svc_next(2)]
    by (auto simp: svc_calls_ok_def sv_held_def put_worker_def split: if_splits)
next
  case (svc_close s r svc)
  then show ?case using Service_close_cases [OF svc_close(1)]
    by (auto simp: svc_calls_ok_def sv_held_def ac_simps split: if_splits)
qed (auto simp: svc_calls_ok_def sv_held_def put_worker_def)


text \<open>Calls are answered in the order in which they were queued.\<close>

lemma svc_tokens_worker:
  assumes "svc_tokens_ok s" and "ts_workers (sv_task s) = us @ p # vs"
  shows "us = [] \<and> vs = []"
  using assms one_worker [OF _ assms(2)] by (simp add: svc_tokens_ok_def one_token_def)

lemma order_filter:
  assumes "sorted_wrt (<) (xs @ ys @ map f q)" and "list_all Q (xs @ ys @ map f q)"
  shows "sorted_wrt (<) (xs @ ys @ map f (filter P q)) \<and> list_all Q (xs @ ys @ map f (filter P q))"
proof -
  from assms(1) have "sorted_wrt (<) ((xs @ ys) @ map f q)" by simp
  then have "sorted_wrt (<) ((xs @ ys) @ map f (filter P q))"
    unfolding sorted_wrt_append sorted_wrt_map using sorted_wrt_filter by auto
  with assms(2) show ?thesis by (auto simp: list_all_iff)
qed

lemma svc_order_withdraw:
  assumes "svc_order_ok s" and "ts_workers d = ts_workers (sv_task s)"
  shows "svc_order_ok (s\<lparr>sv_svc := Invoke_withdraw i (sv_svc s), sv_task := d, sv_withdrawn := w\<rparr>)"
proof -
  have held: "sv_held (s\<lparr>sv_svc := Invoke_withdraw i (sv_svc s), sv_task := d, sv_withdrawn := w\<rparr>) = sv_held s"
    using assms(2) by (simp add: sv_held_def)
  from assms(1) order_filter [of "sv_handled s" "sv_held s" pc_id "sc_queue (sv_svc s)" "\<lambda>i. i < sv_next s"]
  show ?thesis unfolding svc_order_ok_def held by simp
qed

lemma svc_order_step: "svc_step refusing s t \<Longrightarrow> svc_order_ok s \<Longrightarrow> svc_tokens_ok s \<Longrightarrow> svc_order_ok t"
proof (induction rule: svc_step.induct)
  case (svc_invoke s m dl r svc)
  from svc_invoke(1) show ?case
    by (cases rule: Invoke_push_cases)
      (use svc_invoke(2) in \<open>auto simp: svc_order_ok_def sv_held_def list_all_iff less_Suc_eq sorted_wrt_append\<close>)
next
  case (svc_notify s d)
  then show ?case using notify_step_workers [OF svc_notify(1)] by (simp add: svc_order_ok_def sv_held_def)
next
  case (svc_withdraw s us i vs)
  then show ?case by (intro svc_order_withdraw) simp_all
next
  case (svc_take s us vs r svc)
  note w = svc_tokens_worker [OF svc_take(4) svc_take(1)]
  from svc_take(2) show ?case
    by (cases rule: Service_take_cases)
      (use svc_take w in \<open>auto simp: svc_order_ok_def sv_held_def put_worker_def\<close>)
next
  case (svc_answer s us c vs handler t0 now new_trace new_span r svc)
  note w = svc_tokens_worker [OF svc_answer(4) svc_answer(1)]
  show ?case using svc_answer w Service_answer_same [OF svc_answer(2)]
    by (simp add: svc_order_ok_def sv_held_def put_worker_def)
next
  case (svc_next s us vs b svc)
  then show ?case using Service_next_cases [OF svc_next(2)]
    by (auto simp: svc_order_ok_def sv_held_def put_worker_def split: if_splits)
next
  case (svc_close s r svc)
  then show ?case using Service_close_cases [OF svc_close(1)]
    by (auto simp: svc_order_ok_def sv_held_def sorted_wrt_append split: if_splits)
qed (auto simp: svc_order_ok_def sv_held_def put_worker_def)

definition svc_inv :: "svc_sys \<Rightarrow> bool" where
  "svc_inv s \<longleftrightarrow> svc_tokens_ok s \<and> svc_queue_ok (sv_svc s) \<and> svc_calls_ok s \<and> svc_order_ok s"

lemma svc_inv_init: "svc_inv (svc_init node task i)"
  by (simp add: svc_inv_def svc_tokens_ok_def one_token_def svc_queue_ok_def svc_calls_ok_def svc_order_ok_def
      sv_held_def svc_init_def new_service_def idle_side_def tokens_def)

interpretation service_run: step_invariant "\<lambda>s. \<exists>node task i. s = svc_init node task i" "svc_step refusing" svc_inv
  for refusing
  by unfold_locales (auto simp: svc_inv_init, auto simp: svc_inv_def svc_tokens_step svc_queue_step svc_calls_step
    svc_order_step)


subsection \<open>Stranded calls\<close>

text \<open>The flag is set, or the service closed, and no token is left: the calls that wait keep waiting.\<close>

definition svc_frozen :: "nat list \<Rightarrow> PendingCall list \<Rightarrow> svc_sys \<Rightarrow> bool" where
  "svc_frozen handled waiting s \<longleftrightarrow> tokens (sv_task s) = 0 \<and> (sc_scheduled (sv_svc s) \<or> sc_closed (sv_svc s)) \<and>
     sv_handled s = handled \<and> (sc_closed (sv_svc s) \<or> prefix waiting (sc_queue (sv_svc s)))"

lemma svc_frozen_step: "svc_step refusing s t \<Longrightarrow> svc_frozen handled waiting s \<Longrightarrow> svc_frozen handled waiting t"
proof (induction rule: svc_step.induct)
  case (svc_invoke s m dl r svc)
  from svc_invoke(1) show ?case
    by (cases rule: Invoke_push_cases) (use svc_invoke(2) in \<open>auto simp: svc_frozen_def add_notifying_def\<close>)
next
  case (svc_notify s d)
  then show ?case using notify_step_zero [OF svc_notify(1)] by (auto simp: svc_frozen_def)
next
  case (svc_close s r svc)
  then show ?case using Service_close_cases [OF svc_close(1)] by (auto simp: svc_frozen_def split: if_splits)
qed (auto simp: svc_frozen_def tokens_zero)

interpretation stranded_run: step_invariant "svc_frozen handled waiting" "svc_step refusing" "svc_frozen handled waiting"
  for handled waiting refusing
  by unfold_locales (auto intro: svc_frozen_step)


subsection \<open>Properties\<close>

text \<open>C16: Whatever the interleaving of callers, workers and \<open>Close\<close>, every call a service admits is at exactly
  one place: its promise has been set, a worker holds it, it is queued, \<open>Close\<close> has it, or its caller took it
  back. So no promise is set twice, which would throw, and once a closed service has no worker and \<open>Close\<close> is
  through, every call has been answered or taken back. The handler never overlaps itself and answers calls
  in the order of admission; at most 64 wait, none once the service is closed.\<close>

theorem service_answers_each_call_once:
  assumes "(svc_step refusing)\<^sup>*\<^sup>* (svc_init node task i) s"
  shows "mset (map fst (sv_answers s) @ sv_held s @ queued_ids s @ map pc_id (sv_closing s) @ sv_withdrawn s) =
      mset (sv_accepted s) \<and> distinct (sv_accepted s) \<and> distinct (map fst (sv_answers s)) \<and>
    ts_jobs (sv_task s) + length (ts_workers (sv_task s)) \<le> 1 \<and>
    sorted_wrt (<) (sv_handled s @ sv_held s @ queued_ids s) \<and>
    length (sc_queue (sv_svc s)) \<le> 64 \<and> (sc_closed (sv_svc s) \<longrightarrow> sc_queue (sv_svc s) = [])"
proof -
  have inv: "svc_inv s" using service_run.reachable_inv assms by blast
  then have "distinct (map fst (sv_answers s))" using svc_calls_distinct by (auto simp: svc_inv_def)
  moreover from inv have "ts_jobs (sv_task s) + length (ts_workers (sv_task s)) \<le> 1"
    by (simp add: svc_inv_def svc_tokens_ok_def one_token_def tokens_def)
  ultimately show ?thesis using inv
    by (simp add: svc_inv_def svc_calls_ok_def svc_order_ok_def svc_queue_ok_def kQueueCapacity_def)
qed

text \<open>C18: When the executor refuses the notification of a caller while others have queued their calls
  behind it, \<open>Invoke\<close> takes back its own call only and leaves the flag set with no run behind it: whatever
  happens afterwards, no call is answered by the handler any more, and those that wait stay queued until
  the service is closed.\<close>

theorem failed_notify_strands_calls:
  assumes "(svc_step True)\<^sup>*\<^sup>* (svc_init node task k) s" and f: "ts_failed (sv_task s) = [i]"
    and waiting: "filter (\<lambda>c. pc_id c \<noteq> i) (sc_queue (sv_svc s)) = c # cs"
    and s': "s' = s\<lparr>sv_svc := Invoke_withdraw i (sv_svc s), sv_task := (sv_task s)\<lparr>ts_failed := []\<rparr>,
       sv_withdrawn := sv_withdrawn s @ (if i \<in> set (queued_ids s) then [i] else [])\<rparr>"
    and "(svc_step refusing)\<^sup>*\<^sup>* s' t"
  shows "svc_step True s s' \<and> sv_handled t = sv_handled s \<and>
    (sc_closed (sv_svc t) \<or> prefix (c # cs) (sc_queue (sv_svc t)))"
proof -
  have step: "svc_step True s s'" using svc_withdraw [of s "[]" i "[]" True] f by (simp add: s')
  have inv: "svc_inv s" using service_run.reachable_inv assms(1) by blast
  have "tokens (sv_task s) \<le> 1" using inv by (simp add: svc_inv_def svc_tokens_ok_def one_token_def)
  then have "tokens ((sv_task s)\<lparr>ts_failed := []\<rparr>) = 0" using f by (auto simp: tokens_def)
  moreover have "sc_scheduled (sv_svc s) \<or> sc_closed (sv_svc s)"
    using inv f by (auto simp: svc_inv_def svc_tokens_ok_def one_token_def tokens_def)
  ultimately have "svc_frozen (sv_handled s) (c # cs) s'"
    using waiting by (auto simp: svc_frozen_def s' Invoke_withdraw_scheduled)
  from stranded_run.run_inv [OF assms(5) this] step show ?thesis by (simp add: svc_frozen_def)
qed



subsection \<open>A run\<close>

definition demo_call :: "nat \<Rightarrow> PendingCall" where
  "demo_call i = \<lparr>pc_id = i, pc_request = demo_message, pc_deadline = Infinite\<rparr>"

definition demo_node :: NodeConfig where
  "demo_node = \<lparr>nc_name = ''node'', nc_generation = 3\<rparr>"

text \<open>States of the example: the queue, the flag, the other threads, how many calls came.\<close>

definition demo_svc :: "PendingCall list \<Rightarrow> bool \<Rightarrow> nat list \<Rightarrow> nat list \<Rightarrow> nat \<Rightarrow> nat list \<Rightarrow> svc_sys" where
  "demo_svc q b notifying failed n w =
     \<lparr>sv_svc = \<lparr>sc_closed = False, sc_scheduled = b, sc_queue = q, sc_node = demo_node, sc_task_id = 1,
        sc_service_id = 1, sc_response_sequence = 0\<rparr>,
      sv_task = \<lparr>ts_jobs = 0, ts_notifying = notifying, ts_failed = failed, ts_workers = []\<rparr>,
      sv_closing = [], sv_next = n, sv_accepted = [0..<n], sv_answers = [], sv_withdrawn = w, sv_handled = []\<rparr>"

lemmas demo_svc_defs = demo_svc_def demo_call_def Invoke_push_def kQueueCapacity_def add_notifying_def

text \<open>Two callers queue their calls; the executor refuses the notification of the first.\<close>

lemma demo_svc_reachable:
  "(svc_step True)\<^sup>*\<^sup>* (svc_init demo_node 1 1) (demo_svc [demo_call 0, demo_call 1] True [] [0] 2 [])"
proof -
  have "svc_init demo_node 1 1 = demo_svc [] False [] [] 0 []"
    by (simp add: svc_init_def new_service_def idle_side_def demo_svc_def)
  moreover have "svc_step True (demo_svc [] False [] [] 0 []) (demo_svc [demo_call 0] True [0] [] 1 [])"
    using svc_invoke [OF prod.collapse [symmetric], where m = demo_message and dl = Infinite and refusing = True
      and s = "demo_svc [] False [] [] 0 []"] by (simp add: demo_svc_defs)
  moreover have "svc_step True (demo_svc [demo_call 0] True [0] [] 1 []) (demo_svc [demo_call 0, demo_call 1] True [0] [] 2 [])"
    using svc_invoke [OF prod.collapse [symmetric], where m = demo_message and dl = Infinite and refusing = True
      and s = "demo_svc [demo_call 0] True [0] [] 1 []"] by (simp add: demo_svc_defs numeral_2_eq_2)
  moreover have "svc_step True (demo_svc [demo_call 0, demo_call 1] True [0] [] 2 [])
      (demo_svc [demo_call 0, demo_call 1] True [] [0] 2 [])"
    using svc_notify [OF notify_fail [where us = "[]" and i = 0 and vs = "[]"], where refusing = True
      and s = "demo_svc [demo_call 0, demo_call 1] True [0] [] 2 []"] by (simp add: demo_svc_def)
  ultimately show ?thesis by (metis converse_rtranclp_into_rtranclp rtranclp.rtrancl_refl)
qed

theorem service_answers_each_call_once_witness:
  "\<exists>s. (svc_step True)\<^sup>*\<^sup>* (svc_init demo_node 1 1) s \<and> queued_ids s = [0, 1] \<and> distinct (sv_accepted s) \<and>
     mset (map fst (sv_answers s) @ sv_held s @ queued_ids s @ map pc_id (sv_closing s) @ sv_withdrawn s) =
       mset (sv_accepted s)"
proof -
  let ?s = "demo_svc [demo_call 0, demo_call 1] True [] [0] 2 []"
  have "queued_ids ?s = [0, 1]" by (simp add: demo_svc_def demo_call_def)
  with demo_svc_reachable service_answers_each_call_once [OF demo_svc_reachable] show ?thesis
    by (intro exI [of _ ?s] conjI) auto
qed

text \<open>The call of the second caller is stranded, with an unbounded deadline.\<close>

theorem failed_notify_strands_calls_witness:
  "\<exists>s t. (svc_step True)\<^sup>*\<^sup>* (svc_init demo_node 1 1) s \<and> svc_step True s t \<and> \<not> sc_closed (sv_svc t) \<and>
     sc_scheduled (sv_svc t) \<and> tokens (sv_task t) = 0 \<and> prefix [demo_call 1] (sc_queue (sv_svc t))"
proof -
  let ?s = "demo_svc [demo_call 0, demo_call 1] True [] [0] 2 []"
  let ?t = "demo_svc [demo_call 1] True [] [] 2 [0]"
  have f: "ts_failed (sv_task ?s) = [0]" by (simp add: demo_svc_def)
  have q: "filter (\<lambda>c. pc_id c \<noteq> 0) (sc_queue (sv_svc ?s)) = demo_call 1 # []"
    by (simp add: demo_svc_def demo_call_def)
  have t: "?t = ?s\<lparr>sv_svc := Invoke_withdraw 0 (sv_svc ?s), sv_task := (sv_task ?s)\<lparr>ts_failed := []\<rparr>,
      sv_withdrawn := sv_withdrawn ?s @ (if 0 \<in> set (queued_ids ?s) then [0] else [])\<rparr>"
    by (simp add: demo_svc_def demo_call_def Invoke_withdraw_def)
  from failed_notify_strands_calls [OF demo_svc_reachable f q t, of False ?t]
  have "svc_step True ?s ?t \<and> (sc_closed (sv_svc ?t) \<or> prefix [demo_call 1] (sc_queue (sv_svc ?t)))" by simp
  moreover have "\<not> sc_closed (sv_svc ?t)" "sc_scheduled (sv_svc ?t)" "tokens (sv_task ?t) = 0"
    by (simp_all add: demo_svc_def tokens_def)
  ultimately show ?thesis using demo_svc_reachable by (intro exI [of _ ?s] exI [of _ ?t] conjI) auto
qed

end
