(* ===== verification/Floating.thy ===== *)
theory Floating
  imports Complex_Main
begin

text \<open>
  Floating-point inputs of the metrics and of the stability tracker: a value is an exact rational, or it is not
  finite (an infinity or not a number), which the code tests with \<open>std::isfinite\<close>. Sums and quotients
  are exact. With them the order statistics both components report.
\<close>

datatype Double = Finite rat | NonFinite

lemma nth_sort_in_set: "i < length xs \<Longrightarrow> sort xs ! i \<in> set xs"
  using nth_mem [of i "sort xs"] by simp

lemma nth_sort_mono: "i \<le> j \<Longrightarrow> j < length xs \<Longrightarrow> sort xs ! i \<le> sort (xs :: 'a :: linorder list) ! j"
  using sorted_nth_mono [OF sorted_sort, of i j xs] by simp

end
