(* ===== verification/Stability.thy ===== *)
theory Stability
  imports Floating Runtime_Core "HOL-Library.Sublist"
begin

text \<open>
  The tracker of the cross-machine stability run, \<open>stability/cross_machine_stability.cpp\<close>: it classifies
  probes of the peer into health states, counts transitions, recoveries and failures, keeps the first and the
  latest latencies within a window, and counts lost and duplicate messages by their numbers.

  Every public method locks the tracker for its whole length, so a run is a list of calls. A latency is an
  exact rational or not finite; the rank of the 99th percentile is computed without rounding.
\<close>

subsection \<open>Data\<close>

datatype NetworkHealthState = Starting | Running | Degraded | Failed

datatype NetworkHealthReason = AwaitingPeer | Ready | DiscoveryLost | RpcUnavailable | DdsStalled

record ProbeObservation =
  po_discovery_available :: bool
  po_peer_generation :: u64
  po_rpc_status :: StatusCode
  po_dds_recent :: bool
  po_rpc_latency_us :: "Double option"

record StabilityTransition =
  tr_previous :: NetworkHealthState
  tr_current :: NetworkHealthState
  tr_reason :: NetworkHealthReason
  tr_observation_index :: u64

record StabilitySummary =
  observation_count :: u64
  discovery_failures :: u64
  discovery_loss_events :: u64
  discovery_recovery_events :: u64
  peer_generation_changes :: u64
  rpc_successes :: u64
  rpc_timeouts :: u64
  rpc_transport_errors :: u64
  rpc_unexpected_errors :: u64
  rpc_parse_errors :: u64
  dds_stall_observations :: u64
  dds_messages :: u64
  message_loss :: u64
  duplicate_messages :: u64
  health_transitions :: u64
  recovery_count :: u64
  latency_samples :: u64
  retained_latency_samples :: nat
  baseline_p99_us :: rat
  final_p99_us :: rat
  p99_drift_us :: rat
  final_state :: NetworkHealthState

record StabilityTracker =
  latency_window :: nat
  baseline_latencies :: "rat list"
  final_latencies :: "rat list"
  st_latency_samples :: u64
  st_state :: NetworkHealthState
  failure_episode_active :: bool
  discovery_initialized :: bool
  discovery_available :: bool
  peer_generation :: u64
  dds_initialized :: bool
  dds_generation :: u64
  next_dds_sequence :: u64
  counters :: StabilitySummary

definition zero_summary :: StabilitySummary where
  "zero_summary = \<lparr>observation_count = 0, discovery_failures = 0, discovery_loss_events = 0,
     discovery_recovery_events = 0, peer_generation_changes = 0, rpc_successes = 0, rpc_timeouts = 0,
     rpc_transport_errors = 0, rpc_unexpected_errors = 0, rpc_parse_errors = 0, dds_stall_observations = 0,
     dds_messages = 0, message_loss = 0, duplicate_messages = 0, health_transitions = 0, recovery_count = 0,
     latency_samples = 0, retained_latency_samples = 0, baseline_p99_us = 0, final_p99_us = 0,
     p99_drift_us = 0, final_state = Starting\<rparr>"

definition StabilityTracker_new :: "nat \<Rightarrow> StabilityTracker" where
  "StabilityTracker_new requested_window =
     \<lparr>latency_window = max 1 requested_window, baseline_latencies = [], final_latencies = [],
      st_latency_samples = 0, st_state = Starting, failure_episode_active = False,
      discovery_initialized = False, discovery_available = False, peer_generation = 0,
      dds_initialized = False, dds_generation = 0, next_dds_sequence = 0, counters = zero_summary\<rparr>"


subsection \<open>Operations\<close>

definition P99 :: "rat list \<Rightarrow> rat" where
  "P99 samples =
     (if samples = [] then 0
      else let rank = nat \<lceil>99 / 100 * (of_nat (length samples) :: rat)\<rceil> in
        sort samples ! (max 1 rank - 1))"

definition RecordLatency :: "Double \<Rightarrow> StabilityTracker \<Rightarrow> StabilityTracker" where
  "RecordLatency latency_us t =
     (case latency_us of
        NonFinite \<Rightarrow> t
      | Finite l \<Rightarrow>
          if l < 0 then t
          else
            let t = t\<lparr>st_latency_samples := st_latency_samples t + 1\<rparr>;
                t = (if length (baseline_latencies t) < latency_window t
                     then t\<lparr>baseline_latencies := baseline_latencies t @ [l]\<rparr> else t);
                t = t\<lparr>final_latencies := final_latencies t @ [l]\<rparr> in
            if length (final_latencies t) > latency_window t
            then t\<lparr>final_latencies := tl (final_latencies t)\<rparr> else t)"

definition ObserveDiscovery :: "ProbeObservation \<Rightarrow> StabilityTracker \<Rightarrow> StabilityTracker" where
  "ObserveDiscovery ob t =
     (let av = po_discovery_available ob;
          t = (if \<not> av then t\<lparr>counters := (counters t)\<lparr>discovery_failures := discovery_failures (counters t) + 1\<rparr>\<rparr>
               else t);
          t = (if discovery_initialized t \<and> discovery_available t \<noteq> av
               then (if av
                 then t\<lparr>counters := (counters t)\<lparr>discovery_recovery_events := discovery_recovery_events (counters t) + 1\<rparr>\<rparr>
                 else t\<lparr>counters := (counters t)\<lparr>discovery_loss_events := discovery_loss_events (counters t) + 1\<rparr>\<rparr>)
               else t);
          t = t\<lparr>discovery_initialized := True, discovery_available := av\<rparr> in
      if \<not> av \<or> po_peer_generation ob = 0 then t
      else
        let t = (if peer_generation t \<noteq> 0 \<and> peer_generation t \<noteq> po_peer_generation ob
                 then t\<lparr>counters := (counters t)\<lparr>peer_generation_changes := peer_generation_changes (counters t) + 1\<rparr>\<rparr>
                 else t) in
        t\<lparr>peer_generation := po_peer_generation ob\<rparr>)"

definition ObserveRpc :: "ProbeObservation \<Rightarrow> StabilityTracker \<Rightarrow> StabilityTracker" where
  "ObserveRpc ob t =
     (if \<not> po_discovery_available ob then t
      else case po_rpc_status ob of
        Ok \<Rightarrow>
          let t = t\<lparr>counters := (counters t)\<lparr>rpc_successes := rpc_successes (counters t) + 1\<rparr>\<rparr> in
          (case po_rpc_latency_us ob of None \<Rightarrow> t | Some l \<Rightarrow> RecordLatency l t)
      | Timeout \<Rightarrow> t\<lparr>counters := (counters t)\<lparr>rpc_timeouts := rpc_timeouts (counters t) + 1\<rparr>\<rparr>
      | Closed \<Rightarrow> t\<lparr>counters := (counters t)\<lparr>rpc_transport_errors := rpc_transport_errors (counters t) + 1\<rparr>\<rparr>
      | TransportError \<Rightarrow>
          t\<lparr>counters := (counters t)\<lparr>rpc_transport_errors := rpc_transport_errors (counters t) + 1\<rparr>\<rparr>
      | _ \<Rightarrow> t\<lparr>counters := (counters t)\<lparr>rpc_unexpected_errors := rpc_unexpected_errors (counters t) + 1\<rparr>\<rparr>)"

definition Classify :: "ProbeObservation \<Rightarrow> NetworkHealthState \<times> NetworkHealthReason" where
  "Classify ob =
     (if \<not> po_discovery_available ob then (Failed, DiscoveryLost)
      else if po_rpc_status ob \<noteq> Ok then (Degraded, RpcUnavailable)
      else if \<not> po_dds_recent ob then (Degraded, DdsStalled)
      else (Running, Ready))"

definition ObserveProbe :: "ProbeObservation \<Rightarrow> StabilityTracker \<Rightarrow> StabilityTransition option \<times> StabilityTracker" where
  "ObserveProbe ob t =
     (let t = t\<lparr>counters := (counters t)\<lparr>observation_count := observation_count (counters t) + 1\<rparr>\<rparr>;
          t = ObserveRpc ob (ObserveDiscovery ob t);
          t = (if dds_initialized t \<and> \<not> po_dds_recent ob
               then t\<lparr>counters := (counters t)\<lparr>dds_stall_observations := dds_stall_observations (counters t) + 1\<rparr>\<rparr>
               else t) in
      case Classify ob of (next_state, reason) \<Rightarrow>
        let t = (if next_state = Failed then t\<lparr>failure_episode_active := True\<rparr> else t);
            t = (if next_state = Running \<and> failure_episode_active t
                 then t\<lparr>counters := (counters t)\<lparr>recovery_count := recovery_count (counters t) + 1\<rparr>,
                   failure_episode_active := False\<rparr>
                 else t) in
        if next_state = st_state t then (None, t)
        else
          (Some \<lparr>tr_previous = st_state t, tr_current = next_state, tr_reason = reason,
             tr_observation_index = observation_count (counters t)\<rparr>,
           t\<lparr>st_state := next_state,
             counters := (counters t)\<lparr>health_transitions := health_transitions (counters t) + 1\<rparr>\<rparr>))"

definition ObserveDds :: "u64 \<Rightarrow> u64 \<Rightarrow> StabilityTracker \<Rightarrow> StabilityTracker" where
  "ObserveDds g s t =
     (let t = t\<lparr>counters := (counters t)\<lparr>dds_messages := dds_messages (counters t) + 1\<rparr>\<rparr> in
      if \<not> dds_initialized t \<or> g > dds_generation t
      then t\<lparr>dds_initialized := True, dds_generation := g, next_dds_sequence := s + 1\<rparr>
      else if g < dds_generation t \<or> s < next_dds_sequence t
      then t\<lparr>counters := (counters t)\<lparr>duplicate_messages := duplicate_messages (counters t) + 1\<rparr>\<rparr>
      else
        let t = (if s > next_dds_sequence t
                 then t\<lparr>counters := (counters t)\<lparr>message_loss := message_loss (counters t) + (s - next_dds_sequence t)\<rparr>\<rparr>
                 else t) in
        t\<lparr>next_dds_sequence := s + 1\<rparr>)"

definition ObserveRpcParseErrors :: "u64 \<Rightarrow> StabilityTracker \<Rightarrow> StabilityTracker" where
  "ObserveRpcParseErrors n t =
     t\<lparr>counters := (counters t)\<lparr>rpc_parse_errors := max (rpc_parse_errors (counters t)) n\<rparr>\<rparr>"

definition Summary :: "StabilityTracker \<Rightarrow> StabilitySummary" where
  "Summary t =
     (counters t)\<lparr>latency_samples := st_latency_samples t,
       retained_latency_samples := length (baseline_latencies t) + length (final_latencies t),
       baseline_p99_us := P99 (baseline_latencies t), final_p99_us := P99 (final_latencies t),
       p99_drift_us := P99 (final_latencies t) - P99 (baseline_latencies t), final_state := st_state t\<rparr>"

fun NetworkHealthStateName :: "NetworkHealthState \<Rightarrow> string" where
  "NetworkHealthStateName Starting = ''STARTING''"
| "NetworkHealthStateName Running = ''RUNNING''"
| "NetworkHealthStateName Degraded = ''DEGRADED''"
| "NetworkHealthStateName Failed = ''FAILED''"

fun NetworkHealthReasonName :: "NetworkHealthReason \<Rightarrow> string" where
  "NetworkHealthReasonName AwaitingPeer = ''awaiting_peer''"
| "NetworkHealthReasonName Ready = ''ready''"
| "NetworkHealthReasonName DiscoveryLost = ''discovery_lost''"
| "NetworkHealthReasonName RpcUnavailable = ''rpc_unavailable''"
| "NetworkHealthReasonName DdsStalled = ''dds_stalled''"

text \<open>A run of the program: calls in some order.\<close>

datatype TrackerCall = Probe ProbeObservation | DdsMessage u64 u64 | ParseErrors u64

fun tracker_call :: "TrackerCall \<Rightarrow> StabilityTracker \<Rightarrow> StabilityTracker" where
  "tracker_call (Probe ob) t = snd (ObserveProbe ob t)"
| "tracker_call (DdsMessage g s) t = ObserveDds g s t"
| "tracker_call (ParseErrors n) t = ObserveRpcParseErrors n t"

definition tracker_run :: "nat \<Rightarrow> TrackerCall list \<Rightarrow> StabilityTracker" where
  "tracker_run w calls = fold tracker_call calls (StabilityTracker_new w)"


subsection \<open>What a run should report\<close>

fun probe_of :: "TrackerCall \<Rightarrow> ProbeObservation list" where
  "probe_of (Probe ob) = [ob]"
| "probe_of (DdsMessage g s) = []"
| "probe_of (ParseErrors n) = []"

definition classes :: "TrackerCall list \<Rightarrow> NetworkHealthState list" where
  "classes calls = map (\<lambda>ob. fst (Classify ob)) (concat (map probe_of calls))"

definition latency_of :: "ProbeObservation \<Rightarrow> rat list" where
  "latency_of ob =
     (if po_discovery_available ob \<and> po_rpc_status ob = Ok
      then (case po_rpc_latency_us ob of Some (Finite l) \<Rightarrow> if l < 0 then [] else [l] | _ \<Rightarrow> []) else [])"

definition latencies :: "TrackerCall list \<Rightarrow> rat list" where
  "latencies calls = concat (map latency_of (concat (map probe_of calls)))"

text \<open>Recoveries: turns from failed to running, with degraded stretches left out; a run that starts out
  running has not recovered from anything.\<close>

definition settled :: "NetworkHealthState list \<Rightarrow> NetworkHealthState list" where
  "settled xs = remdups_adj (filter (\<lambda>s. s \<noteq> Degraded) xs)"

definition recoveries :: "NetworkHealthState list \<Rightarrow> nat" where
  "recoveries xs = length (filter (\<lambda>s. s = Running) (dropWhile (\<lambda>s. s = Running) (settled xs)))"

text \<open>Changes of class, from \<open>Starting\<close>.\<close>

definition changes :: "NetworkHealthState list \<Rightarrow> nat" where
  "changes xs = length (remdups_adj (Starting # xs)) - 1"

lemma remdups_adj_snoc:
  "remdups_adj (xs @ [x]) = (if xs \<noteq> [] \<and> last xs = x then remdups_adj xs else remdups_adj xs @ [x])"
proof (cases xs rule: rev_cases)
  case (snoc ys y)
  then show ?thesis by (simp add: remdups_adj_append_two)
qed simp

lemma classes_range: "set (classes calls) \<subseteq> {Running, Degraded, Failed}"
  by (auto simp: classes_def Classify_def)

lemma settled_range: "set xs \<subseteq> {Running, Degraded, Failed} \<Longrightarrow> set (settled xs) \<subseteq> {Running, Failed}"
  by (auto simp: settled_def)

lemma recoveries_degraded [simp]: "recoveries (xs @ [Degraded]) = recoveries xs"
  by (simp add: recoveries_def settled_def)

lemma recoveries_failed [simp]: "recoveries (xs @ [Failed]) = recoveries xs"
proof -
  have "filter (\<lambda>s. s = Running) (dropWhile (\<lambda>s. s = Running) (ys @ [Failed])) =
      filter (\<lambda>s. s = Running) (dropWhile (\<lambda>s. s = Running) ys)" for ys
    by (induction ys) auto
  then show ?thesis by (simp add: recoveries_def settled_def remdups_adj_snoc)
qed

lemma recoveries_running:
  assumes "set xs \<subseteq> {Running, Degraded, Failed}"
  shows "recoveries (xs @ [Running]) =
    recoveries xs + (if settled xs \<noteq> [] \<and> last (settled xs) = Failed then 1 else 0)"
proof -
  let ?f = "filter (\<lambda>s. s \<noteq> Degraded) xs"
  have last: "last (remdups_adj ?f) = last ?f" if "?f \<noteq> []" by (simp add: last_remdups_adj)
  have drop: "length (filter (\<lambda>s. s = Running) (dropWhile (\<lambda>s. s = Running) (ys @ [Running]))) =
      length (filter (\<lambda>s. s = Running) (dropWhile (\<lambda>s. s = Running) ys)) + (if set ys \<subseteq> {Running} then 0 else 1)" for ys
    by (induction ys) auto
  consider "?f = []" | "?f \<noteq> []" "last ?f = Running" | "?f \<noteq> []" "last ?f = Failed"
    using assms last_in_set [of ?f] by auto
  then show ?thesis
  proof cases
    case 3
    then have "Failed \<in> set (remdups_adj ?f)" using last_in_set [of ?f] by simp
    then have "\<not> set (remdups_adj ?f) \<subseteq> {Running}" by auto
    with 3 last drop show ?thesis by (simp add: recoveries_def settled_def remdups_adj_snoc)
  qed (use last in \<open>auto simp: recoveries_def settled_def remdups_adj_snoc\<close>)
qed


subsection \<open>Effects of the operations\<close>

definition accounted :: "StabilitySummary \<Rightarrow> u64" where
  "accounted c = discovery_failures c + rpc_successes c + rpc_timeouts c + rpc_transport_errors c +
     rpc_unexpected_errors c"

lemma RecordLatency_same [simp]:
  "counters (RecordLatency l t) = counters t" "st_state (RecordLatency l t) = st_state t"
  "failure_episode_active (RecordLatency l t) = failure_episode_active t"
  "latency_window (RecordLatency l t) = latency_window t" "dds_initialized (RecordLatency l t) = dds_initialized t"
  by (simp_all add: RecordLatency_def Let_def split: Double.splits)

lemma ObserveDiscovery_same [simp]:
  "st_state (ObserveDiscovery ob t) = st_state t"
  "failure_episode_active (ObserveDiscovery ob t) = failure_episode_active t"
  "latency_window (ObserveDiscovery ob t) = latency_window t"
  "baseline_latencies (ObserveDiscovery ob t) = baseline_latencies t"
  "final_latencies (ObserveDiscovery ob t) = final_latencies t"
  "st_latency_samples (ObserveDiscovery ob t) = st_latency_samples t"
  "observation_count (counters (ObserveDiscovery ob t)) = observation_count (counters t)"
  "health_transitions (counters (ObserveDiscovery ob t)) = health_transitions (counters t)"
  "recovery_count (counters (ObserveDiscovery ob t)) = recovery_count (counters t)"
  "rpc_parse_errors (counters (ObserveDiscovery ob t)) = rpc_parse_errors (counters t)"
  by (simp_all add: ObserveDiscovery_def Let_def)

lemma ObserveDiscovery_accounted:
  "accounted (counters (ObserveDiscovery ob t)) =
     accounted (counters t) + (if po_discovery_available ob then 0 else 1)"
  by (simp add: ObserveDiscovery_def Let_def accounted_def)

lemma ObserveRpc_same [simp]:
  "st_state (ObserveRpc ob t) = st_state t"
  "failure_episode_active (ObserveRpc ob t) = failure_episode_active t"
  "latency_window (ObserveRpc ob t) = latency_window t"
  "observation_count (counters (ObserveRpc ob t)) = observation_count (counters t)"
  "health_transitions (counters (ObserveRpc ob t)) = health_transitions (counters t)"
  "recovery_count (counters (ObserveRpc ob t)) = recovery_count (counters t)"
  "rpc_parse_errors (counters (ObserveRpc ob t)) = rpc_parse_errors (counters t)"
  by (simp_all add: ObserveRpc_def Let_def split: StatusCode.splits option.splits)

lemma ObserveRpc_accounted:
  "accounted (counters (ObserveRpc ob t)) =
     accounted (counters t) + (if po_discovery_available ob then 1 else 0)"
  by (simp add: ObserveRpc_def Let_def accounted_def split: StatusCode.splits option.splits)

text \<open>The windows hold the first and the latest latencies.\<close>

definition windows_ok :: "rat list \<Rightarrow> StabilityTracker \<Rightarrow> bool" where
  "windows_ok ls t \<longleftrightarrow> baseline_latencies t = take (latency_window t) ls \<and>
     final_latencies t = drop (length ls - latency_window t) ls \<and> st_latency_samples t = of_nat (length ls)"

lemma windows_ok_record:
  assumes "windows_ok ls t" and "0 \<le> l" and "0 < latency_window t"
  shows "windows_ok (ls @ [l]) (RecordLatency (Finite l) t)"
proof (cases "length ls < latency_window t")
  case True
  with assms show ?thesis by (auto simp: windows_ok_def RecordLatency_def Let_def)
next
  case False
  then obtain n where n: "length ls = latency_window t + n" by (metis add_diff_inverse_nat)
  with assms show ?thesis
    by (auto simp: windows_ok_def RecordLatency_def Let_def Suc_diff_le drop_Suc tl_drop)
qed

lemma RecordLatency_ignored: "RecordLatency NonFinite t = t" "l < 0 \<Longrightarrow> RecordLatency (Finite l) t = t"
  by (simp_all add: RecordLatency_def)

lemma windows_ok_counters [simp]: "windows_ok ls (t\<lparr>counters := c\<rparr>) = windows_ok ls t"
  by (simp add: windows_ok_def)

lemma windows_ok_same:
  assumes "windows_ok ls t" and "baseline_latencies t' = baseline_latencies t"
    and "final_latencies t' = final_latencies t" and "st_latency_samples t' = st_latency_samples t"
    and "latency_window t' = latency_window t"
  shows "windows_ok ls t'"
  using assms by (simp add: windows_ok_def)

lemma windows_ok_rpc:
  assumes "windows_ok ls t" and "0 < latency_window t"
  shows "windows_ok (ls @ latency_of ob) (ObserveRpc ob t)"
  using assms
  by (auto simp: ObserveRpc_def latency_of_def RecordLatency_ignored Let_def windows_ok_record
      split: StatusCode.splits option.splits Double.splits)

text \<open>The part of \<open>ObserveProbe\<close> before the classification, and the whole, field by field.\<close>

definition probe_counted :: "ProbeObservation \<Rightarrow> StabilityTracker \<Rightarrow> StabilityTracker" where
  "probe_counted ob t =
     ObserveRpc ob (ObserveDiscovery ob
       (t\<lparr>counters := (counters t)\<lparr>observation_count := observation_count (counters t) + 1\<rparr>\<rparr>))"

lemma probe_counted_fields:
  "st_state (probe_counted ob t) = st_state t"
  "failure_episode_active (probe_counted ob t) = failure_episode_active t"
  "latency_window (probe_counted ob t) = latency_window t"
  "observation_count (counters (probe_counted ob t)) = observation_count (counters t) + 1"
  "health_transitions (counters (probe_counted ob t)) = health_transitions (counters t)"
  "recovery_count (counters (probe_counted ob t)) = recovery_count (counters t)"
  "rpc_parse_errors (counters (probe_counted ob t)) = rpc_parse_errors (counters t)"
  "accounted (counters (probe_counted ob t)) = accounted (counters t) + 1"
  by (simp_all add: probe_counted_def ObserveRpc_accounted ObserveDiscovery_accounted) (simp add: accounted_def)

lemma windows_ok_probe:
  assumes "windows_ok ls t" and "0 < latency_window t"
  shows "windows_ok (ls @ latency_of ob) (probe_counted ob t)"
  unfolding probe_counted_def using assms by (intro windows_ok_rpc windows_ok_same [OF assms(1)]) simp_all

lemma ObserveProbe_fields:
  fixes ob t
  defines "t' \<equiv> snd (ObserveProbe ob t)" and "c \<equiv> fst (Classify ob)"
  shows "st_state t' = c" "latency_window t' = latency_window t"
    "failure_episode_active t' = (if c = Failed then True else if c = Running then False else failure_episode_active t)"
    "observation_count (counters t') = observation_count (counters t) + 1"
    "accounted (counters t') = accounted (counters t) + 1"
    "health_transitions (counters t') = health_transitions (counters t) + (if c = st_state t then 0 else 1)"
    "recovery_count (counters t') = recovery_count (counters t) + (if c = Running \<and> failure_episode_active t then 1 else 0)"
    "rpc_parse_errors (counters t') = rpc_parse_errors (counters t)"
    "windows_ok ls t \<Longrightarrow> 0 < latency_window t \<Longrightarrow> windows_ok (ls @ latency_of ob) t'"
  using windows_ok_probe [of ls t ob] probe_counted_fields [of ob t]
  unfolding t'_def c_def ObserveProbe_def probe_counted_def [symmetric] Let_def
  by (simp_all add: accounted_def windows_ok_def case_prod_beta)


subsection \<open>The report of a run\<close>

lemma ObserveDds_fields:
  "st_state (ObserveDds g n t) = st_state t" "latency_window (ObserveDds g n t) = latency_window t"
  "failure_episode_active (ObserveDds g n t) = failure_episode_active t"
  "observation_count (counters (ObserveDds g n t)) = observation_count (counters t)"
  "accounted (counters (ObserveDds g n t)) = accounted (counters t)"
  "health_transitions (counters (ObserveDds g n t)) = health_transitions (counters t)"
  "recovery_count (counters (ObserveDds g n t)) = recovery_count (counters t)"
  "rpc_parse_errors (counters (ObserveDds g n t)) = rpc_parse_errors (counters t)"
  "windows_ok ls (ObserveDds g n t) = windows_ok ls t"
  by (simp_all add: ObserveDds_def Let_def accounted_def windows_ok_def)

lemma ObserveRpcParseErrors_fields:
  "st_state (ObserveRpcParseErrors n t) = st_state t"
  "latency_window (ObserveRpcParseErrors n t) = latency_window t"
  "failure_episode_active (ObserveRpcParseErrors n t) = failure_episode_active t"
  "observation_count (counters (ObserveRpcParseErrors n t)) = observation_count (counters t)"
  "accounted (counters (ObserveRpcParseErrors n t)) = accounted (counters t)"
  "health_transitions (counters (ObserveRpcParseErrors n t)) = health_transitions (counters t)"
  "recovery_count (counters (ObserveRpcParseErrors n t)) = recovery_count (counters t)"
  "windows_ok ls (ObserveRpcParseErrors n t) = windows_ok ls t"
  by (simp_all add: ObserveRpcParseErrors_def accounted_def)

definition run_ok :: "nat \<Rightarrow> TrackerCall list \<Rightarrow> StabilityTracker \<Rightarrow> bool" where
  "run_ok w calls t \<longleftrightarrow> latency_window t = max 1 w \<and> windows_ok (latencies calls) t \<and>
     st_state t = last (Starting # classes calls) \<and>
     (failure_episode_active t \<longleftrightarrow> settled (classes calls) \<noteq> [] \<and> last (settled (classes calls)) = Failed) \<and>
     observation_count (counters t) = of_nat (length (classes calls)) \<and>
     accounted (counters t) = of_nat (length (classes calls)) \<and>
     health_transitions (counters t) = of_nat (changes (classes calls)) \<and>
     recovery_count (counters t) = of_nat (recoveries (classes calls))"

lemma classes_snoc:
  "classes (calls @ [Probe ob]) = classes calls @ [fst (Classify ob)]"
  "classes (calls @ [DdsMessage g n]) = classes calls" "classes (calls @ [ParseErrors k]) = classes calls"
  by (simp_all add: classes_def)

lemma latencies_snoc:
  "latencies (calls @ [Probe ob]) = latencies calls @ latency_of ob"
  "latencies (calls @ [DdsMessage g n]) = latencies calls" "latencies (calls @ [ParseErrors k]) = latencies calls"
  by (simp_all add: latencies_def)

lemma settled_snoc:
  "settled (xs @ [c]) = (if c = Degraded then settled xs else
     if settled xs \<noteq> [] \<and> last (settled xs) = c then settled xs else settled xs @ [c])"
  by (auto simp: settled_def remdups_adj_snoc last_remdups_adj)

lemma changes_snoc: "changes (xs @ [c]) = changes xs + (if c = last (Starting # xs) then 0 else 1)"
proof -
  have "0 < length (remdups_adj (Starting # xs))" by simp
  then show ?thesis using remdups_adj_snoc [of "Starting # xs" c] by (auto simp: changes_def)
qed

lemma run_ok_probe:
  assumes "run_ok w calls t"
  shows "run_ok w (calls @ [Probe ob]) (snd (ObserveProbe ob t))"
proof -
  let ?c = "fst (Classify ob)"
  have c: "?c \<in> {Running, Degraded, Failed}" by (auto simp: Classify_def)
  have range: "set (settled (classes calls)) \<subseteq> {Running, Failed}"
    by (intro settled_range classes_range)
  note f = ObserveProbe_fields [where ob = ob and t = t] and r = recoveries_running [OF classes_range, of calls]
  have win: "windows_ok (latencies calls @ latency_of ob) (snd (ObserveProbe ob t))"
    using assms by (intro f(9)) (auto simp: run_ok_def)
  have rec: "recoveries (classes calls @ [?c]) = recoveries (classes calls) +
      (if ?c = Running \<and> failure_episode_active t then 1 else 0)"
    using c assms r by (auto simp: run_ok_def)
  have epi: "failure_episode_active (snd (ObserveProbe ob t)) \<longleftrightarrow>
      settled (classes calls @ [?c]) \<noteq> [] \<and> last (settled (classes calls @ [?c])) = Failed"
    using c assms by (auto simp: f(3) run_ok_def settled_snoc)
  have last: "last (Starting # classes calls @ [?c]) = ?c" by simp
  show ?thesis
    unfolding run_ok_def classes_snoc latencies_snoc
    using assms win rec epi last
    by (intro conjI) (simp_all add: f(1,2,4,5,6,7) run_ok_def changes_snoc del: last.simps)
qed

lemma run_ok_calls: "run_ok w calls (tracker_run w calls)"
proof (induction calls rule: rev_induct)
  case Nil
  show ?case
    by (simp add: run_ok_def tracker_run_def StabilityTracker_new_def zero_summary_def windows_ok_def accounted_def
        classes_def latencies_def settled_def recoveries_def changes_def)
next
  case (snoc c calls)
  then show ?case
    by (cases c) (simp_all add: tracker_run_def run_ok_probe, simp_all add: run_ok_def ObserveDds_fields
      ObserveRpcParseErrors_fields classes_snoc latencies_snoc)
qed



subsection \<open>Lost messages\<close>

text \<open>Probes leave the counters of messages alone.\<close>

definition dds_part :: "StabilityTracker \<Rightarrow> bool \<times> u64 \<times> u64 \<times> u64 \<times> u64 \<times> u64" where
  "dds_part t = (dds_initialized t, dds_generation t, next_dds_sequence t, dds_messages (counters t),
     message_loss (counters t), duplicate_messages (counters t))"

lemma dds_part_counters [simp]:
  "dds_messages c = dds_messages (counters t) \<Longrightarrow> message_loss c = message_loss (counters t) \<Longrightarrow>
   duplicate_messages c = duplicate_messages (counters t) \<Longrightarrow> dds_part (t\<lparr>counters := c\<rparr>) = dds_part t"
  by (simp add: dds_part_def)

lemma dds_part_RecordLatency [simp]: "dds_part (RecordLatency l t) = dds_part t"
  by (simp add: RecordLatency_def Let_def dds_part_def split: Double.splits)

lemma dds_part_ObserveDiscovery [simp]: "dds_part (ObserveDiscovery ob t) = dds_part t"
  by (simp add: ObserveDiscovery_def Let_def dds_part_def)

lemma dds_part_ObserveRpc [simp]: "dds_part (ObserveRpc ob t) = dds_part t"
  by (simp add: ObserveRpc_def Let_def split: StatusCode.splits option.splits)

lemma dds_part_ObserveProbe [simp]: "dds_part (snd (ObserveProbe ob t)) = dds_part t"
proof -
  have "dds_part (probe_counted ob t) = dds_part t" by (simp add: probe_counted_def)
  then show ?thesis
    unfolding ObserveProbe_def probe_counted_def [symmetric] Let_def by (simp add: case_prod_beta dds_part_def)
qed

lemma dds_part_ObserveRpcParseErrors [simp]: "dds_part (ObserveRpcParseErrors n t) = dds_part t"
  by (simp add: ObserveRpcParseErrors_def)

fun dds_of :: "TrackerCall \<Rightarrow> (u64 \<times> u64) list" where
  "dds_of (Probe ob) = []"
| "dds_of (DdsMessage g n) = [(g, n)]"
| "dds_of (ParseErrors n) = []"

text \<open>After messages of one generation in increasing order.\<close>

definition in_order :: "u64 list \<Rightarrow> bool" where
  "in_order xs \<longleftrightarrow> sorted_wrt (<) xs"

lemma in_order_snoc: "in_order (xs @ [x]) \<longleftrightarrow> in_order xs \<and> (xs = [] \<or> last xs < x)"
proof (cases xs rule: rev_cases)
  case (snoc ys y)
  show ?thesis unfolding snoc in_order_def by (auto simp: sorted_wrt_append)
qed (simp add: in_order_def)

lemma ObserveDds_in_order:
  assumes "dds_part t = (True, g, last xs + 1, of_nat (length xs), last xs + 1 - hd xs - of_nat (length xs), 0)"
    and "xs \<noteq> []" and "last xs < x"
  shows "dds_part (ObserveDds g x t) =
    (True, g, x + 1, of_nat (length xs) + 1, x + 1 - hd xs - (of_nat (length xs) + 1), 0)"
proof -
  from assms(3) have "last xs + 1 \<le> x" by (rule inc_le)
  then have "\<not> x < last xs + 1" and "x = last xs + 1 \<or> last xs + 1 < x" by auto
  with assms show ?thesis by (auto simp: ObserveDds_def dds_part_def Let_def)
qed

lemma tracker_run_snoc: "tracker_run w (calls @ [c]) = tracker_call c (tracker_run w calls)"
  by (simp add: tracker_run_def)

lemma dds_run_in_order:
  assumes "concat (map dds_of calls) = map (Pair g) xs" and "in_order xs"
  shows "dds_part (tracker_run w calls) = (if xs = [] then (False, 0, 0, 0, 0, 0)
    else (True, g, last xs + 1, of_nat (length xs), last xs + 1 - hd xs - of_nat (length xs), 0))"
  using assms
proof (induction calls arbitrary: xs rule: rev_induct)
  case Nil
  then show ?case by (simp add: tracker_run_def StabilityTracker_new_def zero_summary_def dds_part_def)
next
  case (snoc c calls)
  show ?case
  proof (cases c)
    case (DdsMessage h x)
    with snoc(2) obtain ys where xs: "xs = ys @ [x]" and h: "h = g" and ys: "concat (map dds_of calls) = map (Pair g) ys"
      by (cases xs rule: rev_cases) auto
    from snoc(3) xs have order: "in_order ys" "ys = [] \<or> last ys < x" by (simp_all add: in_order_snoc)
    note IH = snoc(1) [OF ys order(1)]
    show ?thesis
    proof (cases "ys = []")
      case True
      with IH DdsMessage xs h show ?thesis by (simp add: tracker_run_snoc ObserveDds_def dds_part_def Let_def)
    next
      case False
      with IH order(2) ObserveDds_in_order [of "tracker_run w calls" g ys x] DdsMessage xs h show ?thesis
        by (simp add: tracker_run_snoc algebra_simps)
    qed
  qed (use snoc in \<open>simp_all add: tracker_run_snoc\<close>)
qed

lemma in_order_length:
  assumes "in_order xs" and "xs \<noteq> []"
  shows "unat ` set xs \<subseteq> {unat (hd xs)..unat (last xs)} \<and> card (unat ` set xs) = length xs"
  using assms(2,1)
proof (induction xs rule: rev_nonempty_induct)
  case (snoc x xs)
  then have "in_order xs" and lt: "last xs < x" by (simp_all add: in_order_snoc)
  with snoc.IH have IH: "unat ` set xs \<subseteq> {unat (hd xs)..unat (last xs)}" "card (unat ` set xs) = length xs" by auto
  from lt have less: "unat (last xs) < unat x" by (simp add: word_less_nat_alt)
  then have "unat x \<notin> unat ` set xs" using IH(1) by auto
  moreover have "unat (hd xs) \<le> unat (last xs)" using IH(1) hd_in_set [OF snoc.hyps] by auto
  ultimately show ?case using IH snoc.hyps less by auto
qed simp

text \<open>When the messages of a peer arrive in increasing order, with probes and other calls in between as they
  may, the messages counted as lost are exactly the numbers missing between the first and the last, and
  none is counted as a duplicate.\<close>

theorem dds_loss_exact:
  assumes "concat (map dds_of calls) = map (Pair g) xs" and "in_order xs" and "xs \<noteq> []"
  shows "message_loss (Summary (tracker_run w calls)) =
      of_nat (card ({unat (hd xs)..unat (last xs)} - unat ` set xs)) \<and>
    duplicate_messages (Summary (tracker_run w calls)) = 0 \<and>
    dds_messages (Summary (tracker_run w calls)) = of_nat (length xs)"
proof -
  note len = in_order_length [OF assms(2,3)]
  have le: "unat (hd xs) \<le> unat (last xs)" using len hd_in_set [OF assms(3)] by auto
  have "card ({unat (hd xs)..unat (last xs)} - unat ` set xs) = unat (last xs) + 1 - unat (hd xs) - length xs"
    using len by (subst card_Diff_subset) auto
  moreover have "length xs \<le> unat (last xs) + 1 - unat (hd xs)"
    using card_mono [of "{unat (hd xs)..unat (last xs)}" "unat ` set xs"] len by simp
  ultimately have "(of_nat (card ({unat (hd xs)..unat (last xs)} - unat ` set xs)) :: u64) =
      last xs + 1 - hd xs - of_nat (length xs)"
    using le by (simp add: of_nat_diff)
  with dds_run_in_order [OF assms(1,2), of w] assms(3) show ?thesis
    by (simp add: dds_part_def Summary_def)
qed

theorem dds_loss_exact_witness:
  "message_loss (Summary (tracker_run 8 [DdsMessage 3 10, DdsMessage 3 11, ParseErrors 2, DdsMessage 3 14])) =
     of_nat (card ({10..14} - {10, 11, 14::nat}))"
  using dds_loss_exact [of "[DdsMessage 3 10, DdsMessage 3 11, ParseErrors 2, DdsMessage 3 14]" 3 "[10, 11, 14]" 8]
  by (simp add: in_order_def)

end
