(* ===== verification/Observability.thy ===== *)
theory Observability
  imports Floating Runtime_Core "HOL-Library.AList" "HOL-Library.List_Lexorder" "HOL-Library.Char_ord"
begin

text \<open>
  Metrics, structured logs and trace spans of \<open>observability/src/observability.cpp\<close>.

  Every method of the registry and of the recorder holds its lock for its whole length, so a run is a list of
  calls. The unordered map of metrics is an association list; its order does not show, because a snapshot is
  sorted by name. How the standard library prints a floating-point number is a parameter of \<open>RenderJson\<close>;
  clock readings and what the log sink does are arguments.
\<close>

subsection \<open>JSON text\<close>

definition hex_digit :: "nat \<Rightarrow> char" where
  "hex_digit d = (if d < 10 then char_of (48 + d) else char_of (87 + d))"

definition escape_char :: "char \<Rightarrow> string" where
  "escape_char c =
     (if c = CHR 0x22 then [CHR 0x5C, CHR 0x22]
      else if c = CHR 0x5C then [CHR 0x5C, CHR 0x5C]
      else if c = CHR 0x08 then [CHR 0x5C, CHR ''b'']
      else if c = CHR 0x0C then [CHR 0x5C, CHR ''f'']
      else if c = CHR 0x0A then [CHR 0x5C, CHR ''n'']
      else if c = CHR 0x0D then [CHR 0x5C, CHR ''r'']
      else if c = CHR 0x09 then [CHR 0x5C, CHR ''t'']
      else if of_char c < (0x20 :: nat)
      then [CHR 0x5C, CHR ''u'', CHR ''0'', CHR ''0'', hex_digit (of_char c div 16), hex_digit (of_char c mod 16)]
      else [c])"

definition JsonEscape :: "string \<Rightarrow> string" where
  "JsonEscape value = concat (map escape_char value)"

text \<open>The punctuation the code writes around names and values.\<close>

definition json_quoted :: "string \<Rightarrow> string" where
  "json_quoted s = CHR 0x22 # s @ [CHR 0x22]"

definition json_key :: "string \<Rightarrow> string" where
  "json_key k = json_quoted k @ '':''"

definition json_u64 :: "u64 \<Rightarrow> string" where
  "json_u64 n = decimal_nat (unat n)"


subsection \<open>Distributions\<close>

record DistributionSummary =
  dist_count :: u64
  dist_sampled_count :: nat
  dist_minimum :: rat
  dist_maximum :: rat
  dist_mean :: rat
  dist_p50 :: rat
  dist_p95 :: rat
  dist_p99 :: rat
  dist_p99_9 :: rat

definition empty_summary :: DistributionSummary where
  "empty_summary = \<lparr>dist_count = 0, dist_sampled_count = 0, dist_minimum = 0, dist_maximum = 0,
     dist_mean = 0, dist_p50 = 0, dist_p95 = 0, dist_p99 = 0, dist_p99_9 = 0\<rparr>"

definition Percentile :: "rat list \<Rightarrow> rat \<Rightarrow> rat" where
  "Percentile values quantile =
     (if values = [] then 0
      else let rank = nat \<lceil>quantile * of_nat (length values)\<rceil>;
               index = min (length values - 1) (if rank = 0 then 0 else rank - 1) in
        sort values ! index)"

definition Summarize :: "rat list \<Rightarrow> DistributionSummary" where
  "Summarize values =
     (if values = [] then empty_summary
      else \<lparr>dist_count = of_nat (length values), dist_sampled_count = length values,
        dist_minimum = Min (set values), dist_maximum = Max (set values),
        dist_mean = sum_list values / of_nat (length values),
        dist_p50 = Percentile values (50 / 100), dist_p95 = Percentile values (95 / 100),
        dist_p99 = Percentile values (99 / 100), dist_p99_9 = Percentile values (999 / 1000)\<rparr>)"


subsection \<open>The registry of metrics\<close>

datatype MetricKind = Counter | Gauge | Histogram

record Entry =
  en_kind :: MetricKind
  en_value :: rat
  en_count :: u64
  en_sum :: rat
  en_minimum :: rat
  en_maximum :: rat
  en_samples :: "rat list"

definition Entry_new :: "MetricKind \<Rightarrow> Entry" where
  "Entry_new k = \<lparr>en_kind = k, en_value = 0, en_count = 0, en_sum = 0, en_minimum = 0, en_maximum = 0,
     en_samples = []\<rparr>"

record MetricsRegistry =
  maximum_histogram_samples :: nat
  entries :: "(string \<times> Entry) list"

definition MetricsRegistry_new :: "nat \<Rightarrow> MetricsRegistry" where
  "MetricsRegistry_new n = \<lparr>maximum_histogram_samples = n, entries = []\<rparr>"

definition CheckKindLocked :: "string \<Rightarrow> MetricKind \<Rightarrow> MetricsRegistry \<Rightarrow> Status" where
  "CheckKindLocked name expected r =
     (case map_of (entries r) name of
        None \<Rightarrow> OkStatus
      | Some e \<Rightarrow> if en_kind e \<noteq> expected
          then mk_status AlreadyExists ''metric name already has a different kind'' else OkStatus)"

text \<open>\<open>try_emplace\<close>: the entry and whether it is new.\<close>

definition try_emplace :: "string \<Rightarrow> MetricKind \<Rightarrow> MetricsRegistry \<Rightarrow> Entry \<times> bool" where
  "try_emplace name k r =
     (case map_of (entries r) name of None \<Rightarrow> (Entry_new k, True) | Some e \<Rightarrow> (e, False))"

definition put_entry :: "string \<Rightarrow> Entry \<Rightarrow> MetricsRegistry \<Rightarrow> MetricsRegistry" where
  "put_entry name e r = r\<lparr>entries := AList.update name e (entries r)\<rparr>"

definition IncrementCounter :: "string \<Rightarrow> Double \<Rightarrow> MetricsRegistry \<Rightarrow> Status \<times> MetricsRegistry" where
  "IncrementCounter name delta r =
     (case delta of
        NonFinite \<Rightarrow> (mk_status InvalidArgument ''counter requires a name and nonnegative finite delta'', r)
      | Finite d \<Rightarrow>
          if name = [] \<or> d < 0
          then (mk_status InvalidArgument ''counter requires a name and nonnegative finite delta'', r)
          else
            let kind_status = CheckKindLocked name Counter r in
            if \<not> ok kind_status then (kind_status, r)
            else case try_emplace name Counter r of
              (e, inserted) \<Rightarrow> (OkStatus, put_entry name (e\<lparr>en_value := en_value e + d\<rparr>) r))"

definition SetGauge :: "string \<Rightarrow> Double \<Rightarrow> MetricsRegistry \<Rightarrow> Status \<times> MetricsRegistry" where
  "SetGauge name value r =
     (case value of
        NonFinite \<Rightarrow> (mk_status InvalidArgument ''gauge requires a name and finite value'', r)
      | Finite v \<Rightarrow>
          if name = [] then (mk_status InvalidArgument ''gauge requires a name and finite value'', r)
          else
            let kind_status = CheckKindLocked name Gauge r in
            if \<not> ok kind_status then (kind_status, r)
            else case try_emplace name Gauge r of
              (e, inserted) \<Rightarrow> (OkStatus, put_entry name (e\<lparr>en_value := v\<rparr>) r))"

definition observe_entry :: "nat \<Rightarrow> rat \<Rightarrow> Entry \<times> bool \<Rightarrow> Entry" where
  "observe_entry maximum v = (\<lambda>(e, inserted).
     let e = (if inserted then e\<lparr>en_minimum := v, en_maximum := v\<rparr>
              else e\<lparr>en_minimum := min (en_minimum e) v, en_maximum := max (en_maximum e) v\<rparr>);
         e = e\<lparr>en_count := en_count e + 1, en_sum := en_sum e + v, en_value := v\<rparr>;
         e = (if length (en_samples e) = maximum then e\<lparr>en_samples := tl (en_samples e)\<rparr> else e) in
     e\<lparr>en_samples := en_samples e @ [v]\<rparr>)"

definition Observe :: "string \<Rightarrow> Double \<Rightarrow> MetricsRegistry \<Rightarrow> Status \<times> MetricsRegistry" where
  "Observe name value r =
     (case value of
        NonFinite \<Rightarrow> (mk_status InvalidArgument ''histogram requires a name, finite value, and capacity'', r)
      | Finite v \<Rightarrow>
          if name = [] \<or> maximum_histogram_samples r = 0
          then (mk_status InvalidArgument ''histogram requires a name, finite value, and capacity'', r)
          else
            let kind_status = CheckKindLocked name Histogram r in
            if \<not> ok kind_status then (kind_status, r)
            else (OkStatus, put_entry name
              (observe_entry (maximum_histogram_samples r) v (try_emplace name Histogram r)) r))"

record MetricSample =
  ms_name :: string
  ms_kind :: MetricKind
  ms_value :: rat
  ms_distribution :: DistributionSummary

definition metric_sample :: "string \<times> Entry \<Rightarrow> MetricSample" where
  "metric_sample = (\<lambda>(name, e).
     \<lparr>ms_name = name, ms_kind = en_kind e, ms_value = en_value e,
      ms_distribution =
        (if en_kind e = Histogram \<and> en_count e \<noteq> 0
         then \<lparr>dist_count = en_count e, dist_sampled_count = length (en_samples e),
           dist_minimum = en_minimum e, dist_maximum = en_maximum e,
           dist_mean = en_sum e / of_nat (unat (en_count e)),
           dist_p50 = Percentile (en_samples e) (50 / 100), dist_p95 = Percentile (en_samples e) (95 / 100),
           dist_p99 = Percentile (en_samples e) (99 / 100), dist_p99_9 = Percentile (en_samples e) (999 / 1000)\<rparr>
         else empty_summary)\<rparr>)"

definition metrics_Snapshot :: "MetricsRegistry \<Rightarrow> MetricSample list" where
  "metrics_Snapshot r = sort_key ms_name (map metric_sample (entries r))"

fun MetricKindName :: "MetricKind \<Rightarrow> string" where
  "MetricKindName Counter = ''counter''"
| "MetricKindName Gauge = ''gauge''"
| "MetricKindName Histogram = ''histogram''"

definition render_sample :: "(rat \<Rightarrow> string) \<Rightarrow> MetricSample \<Rightarrow> string" where
  "render_sample show_double s =
     (let d = ms_distribution s in
      ''{'' @ json_key ''name'' @ json_quoted (JsonEscape (ms_name s)) @ '','' @
      json_key ''kind'' @ json_quoted (MetricKindName (ms_kind s)) @
      (if ms_kind s = Histogram
       then '','' @ json_key ''count'' @ json_u64 (dist_count d) @
         '','' @ json_key ''sampled_count'' @ decimal_nat (dist_sampled_count d) @
         '','' @ json_key ''min'' @ show_double (dist_minimum d) @
         '','' @ json_key ''max'' @ show_double (dist_maximum d) @
         '','' @ json_key ''mean'' @ show_double (dist_mean d) @
         '','' @ json_key ''p50'' @ show_double (dist_p50 d) @
         '','' @ json_key ''p95'' @ show_double (dist_p95 d) @
         '','' @ json_key ''p99'' @ show_double (dist_p99 d) @
         '','' @ json_key ''p99_9'' @ show_double (dist_p99_9 d)
       else '','' @ json_key ''value'' @ show_double (ms_value s)) @ ''}'')"

fun comma_separated :: "string list \<Rightarrow> string" where
  "comma_separated [] = []"
| "comma_separated [x] = x"
| "comma_separated (x # y # xs) = x @ '','' @ comma_separated (y # xs)"

definition RenderJson :: "(rat \<Rightarrow> string) \<Rightarrow> u64 \<Rightarrow> MetricsRegistry \<Rightarrow> string" where
  "RenderJson show_double now r =
     ''{'' @ json_key ''captured_monotonic_ns'' @ json_u64 now @ '','' @ json_key ''metrics'' @ ''['' @
     comma_separated (map (render_sample show_double) (metrics_Snapshot r)) @ '']}''"


subsection \<open>Structured logs\<close>

datatype LogLevel = Debug | Info | Warn | Error

fun LogLevelName :: "LogLevel \<Rightarrow> string" where
  "LogLevelName Debug = ''DEBUG''"
| "LogLevelName Info = ''INFO''"
| "LogLevelName Warn = ''WARN''"
| "LogLevelName Error = ''ERROR''"

fun StatusCodeName :: "StatusCode \<Rightarrow> string" where
  "StatusCodeName Ok = ''ok''"
| "StatusCodeName InvalidArgument = ''invalid_argument''"
| "StatusCodeName AlreadyExists = ''already_exists''"
| "StatusCodeName NotFound = ''not_found''"
| "StatusCodeName Closed = ''closed''"
| "StatusCodeName Timeout = ''timeout''"
| "StatusCodeName QueueFull = ''queue_full''"
| "StatusCodeName Dropped = ''dropped''"
| "StatusCodeName Cancelled = ''cancelled''"
| "StatusCodeName StaleGeneration = ''stale_generation''"
| "StatusCodeName TransportError = ''transport_error''"
| "StatusCodeName Unsupported = ''unsupported''"
| "StatusCodeName Internal = ''internal''"

record LogRecord =
  lr_level :: LogLevel
  lr_component :: string
  lr_event :: string
  lr_generation :: u64
  lr_trace_id :: u64
  lr_span_id :: u64
  lr_status :: StatusCode
  lr_detail :: string
  lr_attributes :: "(string \<times> string) list"

definition log_attribute :: "string \<times> string \<Rightarrow> string" where
  "log_attribute = (\<lambda>(k, v). json_quoted (JsonEscape k) @ '':'' @ json_quoted (JsonEscape v))"

definition log_line :: "u64 \<Rightarrow> u64 \<Rightarrow> LogRecord \<Rightarrow> string" where
  "log_line system_ns monotonic_ns r =
     ''{'' @ json_key ''timestamp_ns'' @ json_u64 system_ns @
     '','' @ json_key ''monotonic_ns'' @ json_u64 monotonic_ns @
     '','' @ json_key ''level'' @ json_quoted (LogLevelName (lr_level r)) @
     '','' @ json_key ''component'' @ json_quoted (JsonEscape (lr_component r)) @
     '','' @ json_key ''event'' @ json_quoted (JsonEscape (lr_event r)) @
     '','' @ json_key ''generation'' @ json_u64 (lr_generation r) @
     '','' @ json_key ''trace_id'' @ json_u64 (lr_trace_id r) @
     '','' @ json_key ''span_id'' @ json_u64 (lr_span_id r) @
     '','' @ json_key ''status'' @ json_quoted (StatusCodeName (lr_status r)) @
     '','' @ json_key ''detail'' @ json_quoted (JsonEscape (lr_detail r)) @
     '','' @ json_key ''attributes'' @ ''{'' @ comma_separated (map log_attribute (lr_attributes r)) @ ''}}''"

datatype SinkOutcome = SinkReturns | SinkThrows string | SinkThrowsOther

text \<open>The status, and the line the sink was given, if it was called.\<close>

definition Log :: "bool \<Rightarrow> u64 \<Rightarrow> u64 \<Rightarrow> SinkOutcome \<Rightarrow> LogRecord \<Rightarrow> Status \<times> string option" where
  "Log has_sink system_ns monotonic_ns outcome r =
     (if \<not> has_sink \<or> lr_component r = [] \<or> lr_event r = []
      then (mk_status InvalidArgument ''structured log requires sink, component, and event'', None)
      else if list_ex (\<lambda>(k, v). k = []) (lr_attributes r)
      then (mk_status InvalidArgument ''structured log attribute key is empty'', None)
      else (case outcome of
          SinkReturns \<Rightarrow> OkStatus
        | SinkThrows what \<Rightarrow> mk_status Internal (''log sink threw: '' @ what)
        | SinkThrowsOther \<Rightarrow> mk_status Internal ''log sink threw'',
        Some (log_line system_ns monotonic_ns r)))"


subsection \<open>Trace spans\<close>

record TraceSpan =
  tsp_trace_id :: u64
  tsp_span_id :: u64
  tsp_parent_span_id :: u64
  tsp_generation :: u64
  tsp_component :: string
  tsp_operation :: string
  tsp_start :: u64
  tsp_finish :: u64
  tsp_status :: StatusCode

type_synonym TraceRecorder = "TraceSpan list"

definition TraceRecorder_Record :: "TraceSpan \<Rightarrow> TraceRecorder \<Rightarrow> Status \<times> TraceRecorder" where
  "TraceRecorder_Record sp spans =
     (if tsp_trace_id sp = 0 \<or> tsp_span_id sp = 0 \<or> tsp_component sp = [] \<or> tsp_operation sp = [] \<or>
         tsp_finish sp < tsp_start sp
      then (mk_status InvalidArgument ''invalid trace span'', spans)
      else if list_ex (\<lambda>s. tsp_trace_id s = tsp_trace_id sp \<and> tsp_span_id s = tsp_span_id sp) spans
      then (mk_status AlreadyExists ''trace span already exists'', spans)
      else (OkStatus, spans @ [sp]))"

definition span_before :: "TraceSpan \<Rightarrow> TraceSpan \<Rightarrow> bool" where
  "span_before a b =
     (if tsp_trace_id a \<noteq> tsp_trace_id b then tsp_trace_id a < tsp_trace_id b
      else if tsp_start a \<noteq> tsp_start b then tsp_start a < tsp_start b
      else tsp_span_id a < tsp_span_id b)"

fun insert_span :: "TraceSpan \<Rightarrow> TraceSpan list \<Rightarrow> TraceSpan list" where
  "insert_span x [] = [x]"
| "insert_span x (y # ys) = (if span_before y x then y # insert_span x ys else x # y # ys)"

definition TraceRecorder_Snapshot :: "u64 \<Rightarrow> TraceRecorder \<Rightarrow> TraceSpan list" where
  "TraceRecorder_Snapshot i spans =
     foldr insert_span (filter (\<lambda>s. i = 0 \<or> tsp_trace_id s = i) spans) []"

text \<open>Start and finish of each trace.\<close>

definition widen_bounds :: "TraceSpan \<Rightarrow> (u64 \<times> u64 \<times> u64) list \<Rightarrow> (u64 \<times> u64 \<times> u64) list" where
  "widen_bounds s bs =
     (case map_of bs (tsp_trace_id s) of
        None \<Rightarrow> AList.update (tsp_trace_id s) (min (-1) (tsp_start s), max 0 (tsp_finish s)) bs
      | Some (start, finish) \<Rightarrow>
          AList.update (tsp_trace_id s) (min start (tsp_start s), max finish (tsp_finish s)) bs)"

definition EndToEndLatencyMicroseconds :: "TraceRecorder \<Rightarrow> DistributionSummary" where
  "EndToEndLatencyMicroseconds spans =
     Summarize (concat (map (\<lambda>(i, start, finish).
       if start \<noteq> (-1) \<and> finish \<ge> start then [of_nat (unat (finish - start)) / 1000] else [])
       (fold widen_bounds spans [])))"


subsection \<open>Use of the processor\<close>

text \<open>What \<open>getrusage\<close> reports on Linux: \<open>None\<close> when it fails.\<close>

record rusage =
  ru_utime :: "int \<times> int"
  ru_stime :: "int \<times> int"
  ru_maxrss :: int
  ru_nvcsw :: int
  ru_nivcsw :: int

record ProcessCpuMetrics =
  available :: bool
  user_seconds :: rat
  system_seconds :: rat
  maximum_resident_bytes :: u64
  voluntary_context_switches :: u64
  involuntary_context_switches :: u64

definition seconds_of :: "int \<times> int \<Rightarrow> rat" where
  "seconds_of = (\<lambda>(sec, usec). of_int sec + of_int usec / 1000000)"

definition SampleProcessCpu :: "rusage option \<Rightarrow> ProcessCpuMetrics" where
  "SampleProcessCpu usage =
     (case usage of
        None \<Rightarrow> \<lparr>available = False, user_seconds = 0, system_seconds = 0, maximum_resident_bytes = 0,
          voluntary_context_switches = 0, involuntary_context_switches = 0\<rparr>
      | Some u \<Rightarrow> \<lparr>available = True, user_seconds = seconds_of (ru_utime u), system_seconds = seconds_of (ru_stime u),
          maximum_resident_bytes = of_int (ru_maxrss u) * 1024,
          voluntary_context_switches = of_int (ru_nvcsw u), involuntary_context_switches = of_int (ru_nivcsw u)\<rparr>)"

end
