(* ===== verification/Observability_Properties.thy ===== *)
theory Observability_Properties
  imports Observability "HOL-Library.Monad_Syntax" "HOL-Library.Multiset"
begin

text \<open>
  What the metrics, logs and trace spans promise: a line of the log can be read back, a snapshot of the metrics
  follows from the calls that were made, distributions are ordered, spans are unique and sorted. The reader of
  log lines and the reference entry of a metric are defined here, independently of the code.
\<close>

subsection \<open>Reading logs back\<close>

text \<open>A reader of JSON strings, numbers and of the lines of the log.\<close>

definition hex_value :: "char \<Rightarrow> nat option" where
  "hex_value c =
     (let n = of_char c in
      if 48 \<le> n \<and> n \<le> 57 then Some (n - 48) else if 97 \<le> n \<and> n \<le> 102 then Some (n - 87) else None)"

fun json_string :: "string \<Rightarrow> (string \<times> string) option" where
  "json_string [] = None"
| "json_string (c # s) =
     (if c = CHR 0x22 then Some ([], s)
      else if c = CHR 0x5C then
        (case s of
           [] \<Rightarrow> None
         | e # s' \<Rightarrow>
             if e = CHR ''u'' then
               (case s' of
                  h3 # h2 # h1 # h0 # rest \<Rightarrow>
                    (case (hex_value h3, hex_value h2, hex_value h1, hex_value h0) of
                       (Some 0, Some 0, Some a, Some b) \<Rightarrow>
                         map_option (apfst (Cons (char_of (16 * a + b)))) (json_string rest)
                     | _ \<Rightarrow> None)
                | _ \<Rightarrow> None)
             else
               (case map_of [(CHR 0x22, CHR 0x22), (CHR 0x5C, CHR 0x5C), (CHR ''b'', CHR 0x08), (CHR ''f'', CHR 0x0C),
                    (CHR ''n'', CHR 0x0A), (CHR ''r'', CHR 0x0D), (CHR ''t'', CHR 0x09)] e of
                  Some d \<Rightarrow> map_option (apfst (Cons d)) (json_string s')
                | None \<Rightarrow> None))
      else if of_char c < (0x20 :: nat) then None
      else map_option (apfst (Cons c)) (json_string s))"

lemma hex_value_digit: "d < 16 \<Longrightarrow> hex_value (hex_digit d) = Some d"
  by (auto simp: hex_value_def hex_digit_def Let_def)

lemma json_string_plain:
  "c \<noteq> CHR 0x22 \<Longrightarrow> c \<noteq> CHR 0x5C \<Longrightarrow> \<not> of_char c < (0x20 :: nat) \<Longrightarrow>
     json_string (c # s) = map_option (apfst (Cons c)) (json_string s)"
  by simp

lemma json_string_short:
  assumes "map_of [(CHR 0x22, CHR 0x22), (CHR 0x5C, CHR 0x5C), (CHR ''b'', CHR 0x08), (CHR ''f'', CHR 0x0C),
      (CHR ''n'', CHR 0x0A), (CHR ''r'', CHR 0x0D), (CHR ''t'', CHR 0x09)] e = Some c" and "e \<noteq> CHR ''u''"
  shows "json_string (CHR 0x5C # e # s) = map_option (apfst (Cons c)) (json_string s)"
  using assms by (simp del: map_of.simps)

lemma json_string_hex:
  assumes "a < 16" and "b < 16"
  shows "json_string (CHR 0x5C # CHR ''u'' # CHR ''0'' # CHR ''0'' # hex_digit a # hex_digit b # s) =
    map_option (apfst (Cons (char_of (16 * a + b)))) (json_string s)"
proof -
  have "hex_value CHR ''0'' = Some 0" by code_simp
  with assms show ?thesis by (simp add: hex_value_digit)
qed

lemma json_string_escape_char:
  "json_string (escape_char c @ s) = map_option (apfst (Cons c)) (json_string s)"
proof -
  consider "c = CHR 0x22" | "c = CHR 0x5C" | "c = CHR 0x08" | "c = CHR 0x0C" | "c = CHR 0x0A" | "c = CHR 0x0D"
    | "c = CHR 0x09" | (control) "c \<notin> {CHR 0x22, CHR 0x5C, CHR 0x08, CHR 0x0C, CHR 0x0A, CHR 0x0D, CHR 0x09}"
        "of_char c < (0x20 :: nat)"
    | (plain) "c \<notin> {CHR 0x22, CHR 0x5C, CHR 0x08, CHR 0x0C, CHR 0x0A, CHR 0x0D, CHR 0x09}"
        "\<not> of_char c < (0x20 :: nat)" by blast
  then show ?thesis
  proof cases
    case control
    then have n: "of_char c div 16 < (16 :: nat)" "of_char c mod 16 < (16 :: nat)" by auto
    have "char_of (16 * (of_char c div 16) + of_char c mod 16 :: nat) = c" by simp
    with control json_string_hex [OF n] show ?thesis by (simp add: escape_char_def del: json_string.simps)
  next
    case plain
    then show ?thesis by (simp add: escape_char_def json_string_plain del: json_string.simps)
  qed (simp_all add: escape_char_def json_string_short del: json_string.simps)
qed

lemma json_string_JsonEscape: "json_string (JsonEscape v @ CHR 0x22 # s) = Some (v, s)"
  by (induction v) (simp_all add: JsonEscape_def json_string_escape_char del: json_string.simps(2), simp)

definition is_digit :: "char \<Rightarrow> bool" where
  "is_digit c \<longleftrightarrow> (48 :: nat) \<le> of_char c \<and> of_char c \<le> (57 :: nat)"

definition json_number :: "string \<Rightarrow> (u64 \<times> string) option" where
  "json_number s =
     (let ds = takeWhile is_digit s in
      if ds = [] then None
      else Some (of_nat (foldl (\<lambda>n c. 10 * n + (of_char c - 48)) 0 ds), dropWhile is_digit s))"

lemma is_digit_char: "d < 10 \<Longrightarrow> is_digit (digit_char d) \<and> of_char (digit_char d) - 48 = d"
  by (simp add: is_digit_def digit_char_def)

lemma decimal_digits:
  "decimal_nat n \<noteq> [] \<and> list_all is_digit (decimal_nat n) \<and>
     foldl (\<lambda>n c. 10 * n + (of_char c - 48)) 0 (decimal_nat n) = n"
proof (induction n rule: decimal_nat.induct)
  case (1 n)
  show ?case
  proof (cases "n < 10")
    case True
    then have e: "decimal_nat n = [digit_char n]" by (subst decimal_nat.simps) simp
    show ?thesis unfolding e using True by (simp add: is_digit_char)
  next
    case False
    with 1 have IH: "list_all is_digit (decimal_nat (n div 10))"
      "foldl (\<lambda>n c. 10 * n + (of_char c - 48)) 0 (decimal_nat (n div 10)) = n div 10" by auto
    have e: "decimal_nat n = decimal_nat (n div 10) @ [digit_char (n mod 10)]"
      using False by (subst decimal_nat.simps) simp
    show ?thesis unfolding e using IH by (simp add: is_digit_char)
  qed
qed

lemma json_number_u64: "s = [] \<or> \<not> is_digit (hd s) \<Longrightarrow> json_number (json_u64 n @ s) = Some (n, s)"
proof -
  assume s: "s = [] \<or> \<not> is_digit (hd s)"
  note d = decimal_digits [of "unat n"]
  then have all: "\<forall>c \<in> set (decimal_nat (unat n)). is_digit c" by (simp add: list_all_iff)
  have "takeWhile is_digit s = []" and "dropWhile is_digit s = s" using s by (cases s; simp)+
  with d all show ?thesis by (simp add: json_number_def json_u64_def takeWhile_append2 dropWhile_append2 Let_def)
qed

definition expect :: "string \<Rightarrow> string \<Rightarrow> string option" where
  "expect w s = (if take (length w) s = w then Some (drop (length w) s) else None)"

lemma expect_append [simp]: "expect w (w @ s) = Some s"
  by (simp add: expect_def)

definition read_text :: "string \<Rightarrow> (string \<times> string) option" where
  "read_text s = do { s \<leftarrow> expect [CHR 0x22] s; json_string s }"

definition field :: "string \<Rightarrow> (string \<Rightarrow> ('a \<times> string) option) \<Rightarrow> string \<Rightarrow> ('a \<times> string) option" where
  "field k read s = do { s \<leftarrow> expect (json_key k) s; read s }"

definition named :: "('a \<Rightarrow> string) \<Rightarrow> 'a list \<Rightarrow> string \<Rightarrow> ('a \<times> string) option" where
  "named name xs s = do { (n, s) \<leftarrow> read_text s; x \<leftarrow> List.find (\<lambda>x. name x = n) xs; Some (x, s) }"

text \<open>Attributes up to the closing brace; the length of the text is enough fuel.\<close>

fun read_attributes :: "nat \<Rightarrow> string \<Rightarrow> ((string \<times> string) list \<times> string) option" where
  "read_attributes 0 s = None"
| "read_attributes (Suc n) s =
     (case expect ''}'' s of
        Some s \<Rightarrow> Some ([], s)
      | None \<Rightarrow> do {
          (k, s) \<leftarrow> read_text s;
          s \<leftarrow> expect '':'' s;
          (v, s) \<leftarrow> read_text s;
          (case expect '','' s of
             Some s \<Rightarrow> map_option (apfst (Cons (k, v))) (read_attributes n s)
           | None \<Rightarrow> do { s \<leftarrow> expect ''}'' s; Some ([(k, v)], s) }) })"

definition read_log :: "string \<Rightarrow> (u64 \<times> u64 \<times> LogRecord) option" where
  "read_log s = do {
     s \<leftarrow> expect ''{'' s;
     (system_ns, s) \<leftarrow> field ''timestamp_ns'' json_number s; s \<leftarrow> expect '','' s;
     (monotonic_ns, s) \<leftarrow> field ''monotonic_ns'' json_number s; s \<leftarrow> expect '','' s;
     (level, s) \<leftarrow> field ''level'' (named LogLevelName [Debug, Info, Warn, Error]) s; s \<leftarrow> expect '','' s;
     (component, s) \<leftarrow> field ''component'' read_text s; s \<leftarrow> expect '','' s;
     (event, s) \<leftarrow> field ''event'' read_text s; s \<leftarrow> expect '','' s;
     (generation, s) \<leftarrow> field ''generation'' json_number s; s \<leftarrow> expect '','' s;
     (trace, s) \<leftarrow> field ''trace_id'' json_number s; s \<leftarrow> expect '','' s;
     (sp, s) \<leftarrow> field ''span_id'' json_number s; s \<leftarrow> expect '','' s;
     (status, s) \<leftarrow> field ''status'' (named StatusCodeName all_status_codes) s; s \<leftarrow> expect '','' s;
     (detail, s) \<leftarrow> field ''detail'' read_text s; s \<leftarrow> expect '','' s;
     (attributes, s) \<leftarrow> field ''attributes'' (\<lambda>s. do { s \<leftarrow> expect ''{'' s; read_attributes (length s) s }) s;
     (if s = ''}'' then Some (system_ns, monotonic_ns, \<lparr>lr_level = level, lr_component = component, lr_event = event,
        lr_generation = generation, lr_trace_id = trace, lr_span_id = sp, lr_status = status, lr_detail = detail,
        lr_attributes = attributes\<rparr>) else None) }"

lemma expect_Cons [simp]: "expect [c] (d # s) = (if c = d then Some s else None)"
  by (simp add: expect_def)

lemma expect_Nil [simp]: "expect (c # w) [] = None"
  by (simp add: expect_def)

lemma read_text_escape [simp]: "read_text (json_quoted (JsonEscape v) @ s) = Some (v, s)"
  by (simp add: read_text_def json_quoted_def json_string_JsonEscape)

lemma field_key [simp]: "field k read (json_key k @ s) = read s"
  by (simp add: field_def)

lemma JsonEscape_names: "JsonEscape (LogLevelName l) = LogLevelName l" "JsonEscape (StatusCodeName c) = StatusCodeName c"
  by (cases l; simp add: JsonEscape_def escape_char_def) (cases c; simp add: JsonEscape_def escape_char_def)

lemma read_level [simp]:
  "named LogLevelName [Debug, Info, Warn, Error] (json_quoted (LogLevelName l) @ s) = Some (l, s)"
  using read_text_escape [of "LogLevelName l" s] unfolding JsonEscape_names
  by (cases l) (simp_all add: named_def)

lemma read_status [simp]:
  "named StatusCodeName all_status_codes (json_quoted (StatusCodeName c) @ s) = Some (c, s)"
  using read_text_escape [of "StatusCodeName c" s] unfolding JsonEscape_names
  by (cases c) (simp_all add: named_def all_status_codes_def)

lemma json_number_comma [simp]: "json_number (json_u64 n @ CHR '','' # s) = Some (n, CHR '','' # s)"
  by (simp add: json_number_u64 is_digit_def)

lemma read_attributes_all:
  "length as < n \<Longrightarrow> read_attributes n (comma_separated (map log_attribute as) @ CHR ''}'' # s) = Some (as, s)"
proof (induction as arbitrary: n)
  case Nil
  then show ?case by (cases n) simp_all
next
  case (Cons a as)
  obtain k v where a: "a = (k, v)" by (cases a)
  from Cons(2) obtain m where n: "n = Suc m" "length as < m" by (cases n) auto
  have attr: "log_attribute (k, v) @ t = json_quoted (JsonEscape k) @ CHR '':'' # json_quoted (JsonEscape v) @ t" for t
    by (simp add: log_attribute_def)
  have brace: "expect ''}'' (json_quoted (JsonEscape k) @ t) = None" for t by (simp add: json_quoted_def)
  show ?case
  proof (cases as)
    case Nil
    then show ?thesis using n by (simp add: attr brace a)
  next
    case (Cons b bs)
    then show ?thesis using n Cons.IH [of m] by (simp add: attr brace a)
  qed
qed

lemma attributes_length: "length as \<le> length (comma_separated (map log_attribute as))"
proof (induction as rule: induct_list012)
  case (2 x)
  then show ?case by (cases x) (simp add: log_attribute_def json_quoted_def)
qed simp_all

text \<open>C32: A line of the log reads back: whatever bytes the strings of the record contain, quotes, backslashes and
  control characters included, a reader of JSON finds exactly the time stamps and the record that was
  logged, so no string can end its field, add one, or make two records look alike.\<close>

theorem log_line_reads_back: "read_log (log_line system_ns monotonic_ns r) = Some (system_ns, monotonic_ns, r)"
proof -
  have "read_attributes (length (comma_separated (map log_attribute (lr_attributes r)) @ ''}}''))
      (comma_separated (map log_attribute (lr_attributes r)) @ CHR ''}'' # ''}'') = Some (lr_attributes r, ''}'')"
    using attributes_length [of "lr_attributes r"] by (intro read_attributes_all) simp
  then show ?thesis by (simp add: read_log_def log_line_def)
qed


subsection \<open>Metrics and the calls that made them\<close>

datatype MetricCall = Increment string Double | Set string Double | Sample string Double

fun metric_call :: "MetricCall \<Rightarrow> MetricsRegistry \<Rightarrow> MetricsRegistry" where
  "metric_call (Increment name d) r = snd (IncrementCounter name d r)"
| "metric_call (Set name v) r = snd (SetGauge name v r)"
| "metric_call (Sample name v) r = snd (Observe name v r)"

definition metrics_run :: "nat \<Rightarrow> MetricCall list \<Rightarrow> MetricsRegistry" where
  "metrics_run n calls = fold metric_call calls (MetricsRegistry_new n)"

text \<open>A call with valid arguments, and those for one name in their order.\<close>

fun valid_call :: "nat \<Rightarrow> MetricCall \<Rightarrow> (string \<times> MetricKind \<times> rat) option" where
  "valid_call n (Increment name (Finite d)) = (if name = [] \<or> d < 0 then None else Some (name, Counter, d))"
| "valid_call n (Set name (Finite v)) = (if name = [] then None else Some (name, Gauge, v))"
| "valid_call n (Sample name (Finite v)) = (if name = [] \<or> n = 0 then None else Some (name, Histogram, v))"
| "valid_call n c = None"

definition history :: "nat \<Rightarrow> string \<Rightarrow> MetricCall list \<Rightarrow> (MetricKind \<times> rat) list" where
  "history n name calls = map snd (filter (\<lambda>x. fst x = name) (List.map_filter (valid_call n) calls))"

text \<open>The first call gives the metric its kind; calls for another kind are refused.\<close>

definition accepted :: "(MetricKind \<times> rat) list \<Rightarrow> rat list" where
  "accepted h = map snd (filter (\<lambda>x. fst x = fst (hd h)) h)"

definition histogram :: "nat \<Rightarrow> rat list \<Rightarrow> Entry" where
  "histogram n vs = \<lparr>en_kind = Histogram, en_value = last vs, en_count = of_nat (length vs),
     en_sum = sum_list vs, en_minimum = Min (set vs), en_maximum = Max (set vs),
     en_samples = drop (length vs - n) vs\<rparr>"

definition metric_entry :: "nat \<Rightarrow> (MetricKind \<times> rat) list \<Rightarrow> Entry option" where
  "metric_entry n h =
     (if h = [] then None
      else let vs = accepted h in
        Some (case fst (hd h) of
          Counter \<Rightarrow> (Entry_new Counter)\<lparr>en_value := sum_list vs\<rparr>
        | Gauge \<Rightarrow> (Entry_new Gauge)\<lparr>en_value := last vs\<rparr>
        | Histogram \<Rightarrow> histogram n vs))"

lemma history_snoc:
  "history n name (calls @ [c]) = history n name calls @
     (case valid_call n c of Some (m, k, v) \<Rightarrow> if m = name then [(k, v)] else [] | None \<Rightarrow> [])"
  by (simp add: history_def List.map_filter_def split: option.split)

lemma accepted_snoc:
  "h \<noteq> [] \<Longrightarrow> accepted (h @ [(k, v)]) = accepted h @ (if k = fst (hd h) then [v] else [])"
  by (auto simp: accepted_def)

lemma accepted_nonempty: "h \<noteq> [] \<Longrightarrow> accepted h \<noteq> []"
  by (cases h) (simp_all add: accepted_def)

lemma accepted_single [simp]: "accepted [(k, v)] = [v]"
  by (simp add: accepted_def)

text \<open>What the three operations do to the entry of a name when their arguments are valid.\<close>

definition apply_value :: "nat \<Rightarrow> MetricKind \<Rightarrow> rat \<Rightarrow> Entry option \<Rightarrow> Entry" where
  "apply_value n k v e =
     (let e' = (case e of None \<Rightarrow> (Entry_new k, True) | Some x \<Rightarrow> (x, False)) in
      case k of
        Counter \<Rightarrow> (fst e')\<lparr>en_value := en_value (fst e') + v\<rparr>
      | Gauge \<Rightarrow> (fst e')\<lparr>en_value := v\<rparr>
      | Histogram \<Rightarrow> observe_entry n v e')"

lemma metric_call_invalid: "valid_call (maximum_histogram_samples r) c = None \<Longrightarrow> metric_call c r = r"
proof (cases c)
  case (Increment name d)
  then show "valid_call (maximum_histogram_samples r) c = None \<Longrightarrow> ?thesis"
    by (cases d) (auto simp: IncrementCounter_def split: if_splits)
next
  case (Set name d)
  then show "valid_call (maximum_histogram_samples r) c = None \<Longrightarrow> ?thesis"
    by (cases d) (auto simp: SetGauge_def split: if_splits)
next
  case (Sample name d)
  then show "valid_call (maximum_histogram_samples r) c = None \<Longrightarrow> ?thesis"
    by (cases d) (auto simp: Observe_def split: if_splits)
qed

lemma metric_call_valid:
  assumes "valid_call (maximum_histogram_samples r) c = Some (name, k, v)"
  shows "metric_call c r =
    (case map_of (entries r) name of
       Some e \<Rightarrow> if en_kind e = k then put_entry name (apply_value (maximum_histogram_samples r) k v (Some e)) r else r
     | None \<Rightarrow> put_entry name (apply_value (maximum_histogram_samples r) k v None) r)"
proof -
  have bad: "\<not> ok (mk_status AlreadyExists d)" for d by (simp add: ok_def mk_status_def)
  have good: "ok OkStatus" by (simp add: ok_def OkStatus_def mk_status_def)
  note defs = CheckKindLocked_def try_emplace_def apply_value_def bad good
  show ?thesis
  proof (cases c)
    case (Increment m d)
    with assms show ?thesis
      by (cases d) (auto simp: IncrementCounter_def defs split: if_splits option.splits)
  next
    case (Set m d)
    with assms show ?thesis
      by (cases d) (auto simp: SetGauge_def defs split: if_splits option.splits)
  next
    case (Sample m d)
    with assms show ?thesis
      by (cases d) (auto simp: Observe_def defs split: if_splits option.splits)
  qed
qed

lemma metric_call_maximum: "maximum_histogram_samples (metric_call c r) = maximum_histogram_samples r"
proof (cases "valid_call (maximum_histogram_samples r) c")
  case (Some x)
  then show ?thesis
    by (cases x) (auto simp: metric_call_valid put_entry_def split: option.split)
qed (simp add: metric_call_invalid)

text \<open>The reference entry follows.\<close>

lemma drop_window: "n \<le> length vs \<Longrightarrow> 0 < n \<Longrightarrow> tl (drop (length vs - n) vs) = drop (Suc (length vs) - n) vs"
  by (simp add: Suc_diff_le drop_Suc tl_drop)

lemma Entry_new_fields [simp]: "en_value (Entry_new k) = 0" "en_kind (Entry_new k) = k"
  by (simp_all add: Entry_new_def)

lemma observe_first: "0 < n \<Longrightarrow> observe_entry n v (Entry_new Histogram, True) = histogram n [v]"
  by (simp add: observe_entry_def histogram_def Entry_new_def Let_def)

lemma observe_next:
  assumes "0 < n" and "vs \<noteq> []"
  shows "observe_entry n v (histogram n vs, False) = histogram n (vs @ [v])"
proof (cases "n \<le> length vs")
  case True
  with assms have "length (drop (length vs - n) vs) = n" by simp
  with assms True show ?thesis
    by (simp add: observe_entry_def histogram_def Let_def drop_window min.commute max.commute)
next
  case False
  with assms show ?thesis
    by (simp add: observe_entry_def histogram_def Let_def min.commute max.commute)
qed

lemma metric_entry_first:
  "0 < n \<or> k \<noteq> Histogram \<Longrightarrow> metric_entry n [(k, v)] = Some (apply_value n k v None)"
  by (cases k) (simp_all add: metric_entry_def apply_value_def observe_first Let_def)

lemma metric_entry_kind: "metric_entry n h = Some e \<Longrightarrow> en_kind e = fst (hd h)"
  by (auto simp: metric_entry_def Let_def Entry_new_def histogram_def split: if_splits MetricKind.splits)

lemma metric_entry_snoc:
  assumes "metric_entry n h = Some e" and "0 < n \<or> k \<noteq> Histogram"
  shows "metric_entry n (h @ [(k, v)]) = Some (if k = en_kind e then apply_value n k v (Some e) else e)"
proof -
  from assms(1) have h: "h \<noteq> []" by (auto simp: metric_entry_def)
  note kind = metric_entry_kind [OF assms(1)] and vs = accepted_nonempty [OF h]
  show ?thesis
  proof (cases "k = en_kind e")
    case False
    with assms(1) h kind show ?thesis by (auto simp: metric_entry_def accepted_snoc)
  next
    case True
    with assms h kind vs show ?thesis
      by (cases k) (auto simp: metric_entry_def accepted_snoc apply_value_def Entry_new_def observe_next Let_def)
  qed
qed

lemma valid_call_histogram: "valid_call n c = Some (name, k, v) \<Longrightarrow> 0 < n \<or> k \<noteq> Histogram"
  by (cases "(n, c)" rule: valid_call.cases) (auto split: if_splits)

lemma metrics_run_maximum: "maximum_histogram_samples (metrics_run n calls) = n"
  by (induction calls rule: rev_induct) (simp_all add: metrics_run_def metric_call_maximum MetricsRegistry_new_def)

lemma metrics_run_entry:
  "map_of (entries (metrics_run n calls)) name = metric_entry n (history n name calls)"
proof (induction calls rule: rev_induct)
  case Nil
  show ?case by (simp add: metrics_run_def MetricsRegistry_new_def history_def List.map_filter_def metric_entry_def)
next
  case (snoc c calls)
  let ?r = "metrics_run n calls"
  have run: "metrics_run n (calls @ [c]) = metric_call c ?r" by (simp add: metrics_run_def)
  show ?case
  proof (cases "valid_call n c")
    case None
    then show ?thesis using snoc by (simp add: run history_snoc metric_call_invalid metrics_run_maximum)
  next
    case (Some x)
    then obtain m k v where x: "valid_call n c = Some (m, k, v)" by (cases x) auto
    note hist = valid_call_histogram [OF x]
    have call: "metric_call c ?r =
        (case map_of (entries ?r) m of
           Some e \<Rightarrow> if en_kind e = k then put_entry m (apply_value n k v (Some e)) ?r else ?r
         | None \<Rightarrow> put_entry m (apply_value n k v None) ?r)"
      using metric_call_valid [of ?r c m k v] x unfolding metrics_run_maximum by simp
    show ?thesis
    proof (cases "m = name")
      case False
      with snoc x show ?thesis
        by (auto simp: run call history_snoc put_entry_def update_conv' split: option.split)
    next
      case True
      show ?thesis
      proof (cases "map_of (entries ?r) name")
        case None
        with snoc have "history n name calls = []" by (simp add: metric_entry_def Let_def split: if_splits)
        with None True x hist show ?thesis
          by (simp add: run call history_snoc put_entry_def update_conv' metric_entry_first)
      next
        case (Some e)
        with snoc have "metric_entry n (history n name calls) = Some e" by simp
        from metric_entry_snoc [OF this hist, of v] Some True x show ?thesis
          by (auto simp: run call history_snoc put_entry_def update_conv')
      qed
    qed
  qed
qed

lemma metrics_run_distinct: "distinct (map fst (entries (metrics_run n calls)))"
proof (induction calls rule: rev_induct)
  case (snoc c calls)
  let ?r = "metrics_run n calls"
  have run: "metrics_run n (calls @ [c]) = metric_call c ?r" by (simp add: metrics_run_def)
  show ?case
  proof (cases "valid_call (maximum_histogram_samples ?r) c")
    case (Some x)
    with snoc show ?thesis
      by (cases x) (auto simp: run metric_call_valid put_entry_def distinct_update split: option.split)
  qed (use snoc in \<open>simp add: run metric_call_invalid\<close>)
qed (simp add: metrics_run_def MetricsRegistry_new_def)



subsection \<open>Properties of the metrics\<close>

lemma metric_sample_name: "ms_name (metric_sample x) = fst x"
  by (cases x) (simp add: metric_sample_def)

lemma snapshot_entry:
  "s \<in> set (metrics_Snapshot (metrics_run n calls)) \<longleftrightarrow>
     (\<exists>e. metric_entry n (history n (ms_name s) calls) = Some e \<and> s = metric_sample (ms_name s, e))"
proof -
  let ?r = "metrics_run n calls"
  have "s \<in> set (metrics_Snapshot ?r) \<longleftrightarrow> (\<exists>x \<in> set (entries ?r). s = metric_sample x)"
    by (auto simp: metrics_Snapshot_def)
  also have "\<dots> \<longleftrightarrow> (\<exists>e. map_of (entries ?r) (ms_name s) = Some e \<and> s = metric_sample (ms_name s, e))"
    using map_of_eq_Some_iff [OF metrics_run_distinct] by (force simp: metric_sample_name)
  finally show ?thesis by (simp add: metrics_run_entry)
qed

lemma history_valid: "x \<in> set (history n name calls) \<Longrightarrow> \<exists>c. valid_call n c = Some (name, x)"
proof (induction calls rule: rev_induct)
  case Nil
  then show ?case by (simp add: history_def List.map_filter_def)
next
  case (snoc c calls)
  then show ?case by (auto simp: history_snoc split: option.splits if_splits)
qed

lemma history_valid_kind:
  assumes "x \<in> set (history n name calls)"
  obtains c where "valid_call n c = Some (name, fst x, snd x)"
  using history_valid [OF assms] by auto

lemma histogram_capacity:
  assumes "history n name calls \<noteq> []" and "fst (hd (history n name calls)) = Histogram"
  shows "0 < n"
proof -
  from assms(1) have "hd (history n name calls) \<in> set (history n name calls)" by simp
  then obtain c where "valid_call n c = Some (name, Histogram, snd (hd (history n name calls)))"
    using assms(2) by (metis history_valid_kind)
  from valid_call_histogram [OF this] show ?thesis by simp
qed


text \<open>Order statistics of a distribution.\<close>

lemma Percentile_index:
  assumes "vs \<noteq> []"
  shows "\<exists>i < length vs. Percentile vs q = sort vs ! i \<and>
    i = min (length vs - 1) (nat \<lceil>q * of_nat (length vs)\<rceil> - 1)"
proof -
  let ?i = "min (length vs - 1) (nat \<lceil>q * of_nat (length vs)\<rceil> - 1)"
  have "?i < length vs" using assms by (simp add: min_less_iff_disj)
  moreover have "Percentile vs q = sort vs ! ?i" using assms by (simp add: Percentile_def Let_def)
  ultimately show ?thesis by blast
qed

lemma Percentile_mono:
  assumes "p \<le> q"
  shows "Percentile vs p \<le> Percentile vs q"
proof (cases "vs = []")
  case False
  let ?i = "\<lambda>q. min (length vs - 1) (nat \<lceil>q * of_nat (length vs)\<rceil> - 1)"
  have "p * of_nat (length vs) \<le> q * of_nat (length vs)" using assms by (intro mult_right_mono) auto
  then have "\<lceil>p * of_nat (length vs)\<rceil> \<le> \<lceil>q * of_nat (length vs)\<rceil>" by (rule ceiling_mono)
  then have "?i p \<le> ?i q" by linarith
  moreover have "?i q < length vs" using False by (simp add: min_less_iff_disj)
  ultimately have "sort vs ! ?i p \<le> sort vs ! ?i q" by (rule nth_sort_mono)
  with Percentile_index [OF False, of p] Percentile_index [OF False, of q] show ?thesis by auto
qed (simp add: Percentile_def)

lemma Percentile_in: "vs \<noteq> [] \<Longrightarrow> Percentile vs q \<in> set vs"
  using Percentile_index [of vs q] nth_sort_in_set by auto

lemma sum_list_bounds:
  assumes "\<forall>x \<in> set xs. a \<le> x \<and> x \<le> (b :: rat)"
  shows "of_nat (length xs) * a \<le> sum_list xs \<and> sum_list xs \<le> of_nat (length xs) * b"
  using assms by (induction xs) (auto simp: algebra_simps)

definition distribution_ok :: "DistributionSummary \<Rightarrow> bool" where
  "distribution_ok d \<longleftrightarrow> dist_minimum d \<le> dist_p50 d \<and> dist_p50 d \<le> dist_p95 d \<and> dist_p95 d \<le> dist_p99 d \<and>
     dist_p99 d \<le> dist_p99_9 d \<and> dist_p99_9 d \<le> dist_maximum d \<and>
     dist_minimum d \<le> dist_mean d \<and> dist_mean d \<le> dist_maximum d"

lemma mean_between:
  assumes "vs \<noteq> []"
  shows "Min (set vs) \<le> sum_list vs / of_nat (length (vs :: rat list)) \<and> sum_list vs / of_nat (length vs) \<le> Max (set vs)"
proof -
  have "\<forall>x \<in> set vs. Min (set vs) \<le> x \<and> x \<le> Max (set vs)" by simp
  note b = sum_list_bounds [OF this]
  moreover have "(0 :: rat) < of_nat (length vs)" using assms by simp
  ultimately show ?thesis by (simp add: pos_le_divide_eq pos_divide_le_eq mult.commute)
qed

lemma Summarize_ok: "distribution_ok (Summarize vs)"
proof (cases "vs = []")
  case False
  then show ?thesis using mean_between [OF False] Percentile_in [OF False]
    by (simp add: distribution_ok_def Summarize_def Percentile_mono)
qed (simp add: distribution_ok_def Summarize_def empty_summary_def)

lemma history_length: "length (accepted (history n name calls)) \<le> length calls"
proof -
  have "length (accepted (history n name calls)) \<le> length (history n name calls)" by (simp add: accepted_def)
  also have "length (history n name calls) \<le> length (List.map_filter (valid_call n) calls)"
    by (simp add: history_def)
  also have "\<dots> \<le> length calls" by (simp add: List.map_filter_def)
  finally show ?thesis .
qed

lemma counter_values: "x \<in> set (history n name calls) \<Longrightarrow> fst x = Counter \<Longrightarrow> 0 \<le> snd x"
proof -
  assume "x \<in> set (history n name calls)" and "fst x = Counter"
  then obtain c where "valid_call n c = Some (name, Counter, snd x)" by (metis history_valid_kind)
  then show ?thesis by (cases "(n, c)" rule: valid_call.cases) (auto split: if_splits)
qed

lemma histogram_sample:
  assumes "vs \<noteq> []" and "length vs < 2 ^ 64" and "0 < n"
  shows "ms_distribution (metric_sample (name, histogram n vs)) =
    \<lparr>dist_count = of_nat (length vs), dist_sampled_count = min n (length vs), dist_minimum = Min (set vs),
     dist_maximum = Max (set vs), dist_mean = sum_list vs / of_nat (length vs),
     dist_p50 = Percentile (drop (length vs - n) vs) (50 / 100), dist_p95 = Percentile (drop (length vs - n) vs) (95 / 100),
     dist_p99 = Percentile (drop (length vs - n) vs) (99 / 100),
     dist_p99_9 = Percentile (drop (length vs - n) vs) (999 / 1000)\<rparr>"
proof -
  have count: "unat (of_nat (length vs) :: u64) = length vs" using assms(2) by (simp add: unat_of_nat)
  have "(of_nat (length vs) :: u64) \<noteq> 0"
  proof
    assume "(of_nat (length vs) :: u64) = 0"
    with count assms(1) show False by simp
  qed
  moreover have "length vs - (length vs - n) = min n (length vs)" by simp
  ultimately show ?thesis using count by (simp add: metric_sample_def histogram_def)
qed

lemma histogram_ok:
  assumes "vs \<noteq> []" and "length vs < 2 ^ 64" and "0 < n"
  shows "distribution_ok (ms_distribution (metric_sample (name, histogram n vs)))"
proof -
  let ?w = "drop (length vs - n) vs"
  have "length vs - n < length vs" using assms by (intro diff_less) auto
  then have "?w \<noteq> []" by simp
  then have "Percentile ?w q \<in> set ?w" for q by (rule Percentile_in)
  then have "Percentile ?w q \<in> set vs" for q by (rule in_set_dropD)
  then have "Min (set vs) \<le> Percentile ?w q \<and> Percentile ?w q \<le> Max (set vs)" for q by simp
  then show ?thesis using mean_between [OF assms(1)]
    by (simp add: histogram_sample [OF assms] distribution_ok_def Percentile_mono)
qed






subsection \<open>Trace spans in order\<close>

abbreviation span_key :: "TraceSpan \<Rightarrow> u64 \<times> u64" where
  "span_key s \<equiv> (tsp_trace_id s, tsp_span_id s)"

definition span_ok :: "TraceSpan \<Rightarrow> bool" where
  "span_ok s \<longleftrightarrow> tsp_trace_id s \<noteq> 0 \<and> tsp_span_id s \<noteq> 0 \<and> tsp_component s \<noteq> [] \<and> tsp_operation s \<noteq> [] \<and>
     tsp_start s \<le> tsp_finish s"

text \<open>A recorder holds valid spans only, each key once.\<close>

definition spans_ok :: "TraceRecorder \<Rightarrow> bool" where
  "spans_ok spans \<longleftrightarrow> list_all span_ok spans \<and> distinct (map span_key spans)"

lemma spans_ok_Record: "spans_ok spans \<Longrightarrow> spans_ok (snd (TraceRecorder_Record sp spans))"
  by (auto simp: TraceRecorder_Record_def spans_ok_def span_ok_def list_ex_iff not_less)

lemma span_before_total: "span_key a \<noteq> span_key b \<Longrightarrow> span_before a b \<or> span_before b a"
  by (auto simp: span_before_def)

lemma span_before_trans: "span_before a b \<Longrightarrow> span_before b c \<Longrightarrow> span_before a c"
  by (auto simp: span_before_def split: if_splits)

lemma set_insert_span [simp]: "set (insert_span x ys) = insert x (set ys)"
  by (induction ys) auto

lemma mset_insert_span [simp]: "mset (insert_span x ys) = add_mset x (mset ys)"
  by (induction ys) auto

lemma sorted_insert_span:
  assumes "sorted_wrt span_before ys" and "\<forall>y \<in> set ys. span_key y \<noteq> span_key x"
  shows "sorted_wrt span_before (insert_span x ys)"
  using assms
proof (induction ys)
  case (Cons y ys)
  then show ?case using span_before_total [of x y] span_before_trans [of x y] by auto
qed simp

text \<open>A snapshot consists of the spans of the trace asked for, in the order of trace, start and number.\<close>

lemma trace_snapshot:
  assumes "spans_ok spans"
  shows "mset (TraceRecorder_Snapshot i spans) = mset (filter (\<lambda>s. i = 0 \<or> tsp_trace_id s = i) spans) \<and>
    sorted_wrt span_before (TraceRecorder_Snapshot i spans)"
proof -
  have "mset (foldr insert_span xs []) = mset xs" for xs by (induction xs) auto
  moreover have "sorted_wrt span_before (foldr insert_span xs [])" if "distinct (map span_key xs)" for xs
    using that
  proof (induction xs)
    case (Cons x xs)
    have "set (foldr insert_span xs []) = set xs" by (induction xs) auto
    with Cons show ?case by (fastforce simp: image_iff intro!: sorted_insert_span)
  qed simp
  moreover have "distinct (map span_key (filter P spans))" for P
    using assms by (auto simp: spans_ok_def distinct_map_filter)
  ultimately show ?thesis by (simp add: TraceRecorder_Snapshot_def)
qed

text \<open>The latency of a trace runs from its first start to its last finish.\<close>

lemma widen_bounds_other: "i \<noteq> tsp_trace_id s \<Longrightarrow> map_of (widen_bounds s bs) i = map_of bs i"
  by (auto simp: widen_bounds_def update_conv' split: option.split)

lemma widen_bounds_same:
  "map_of (widen_bounds s bs) (tsp_trace_id s) =
     Some (case map_of bs (tsp_trace_id s) of None \<Rightarrow> (tsp_start s, tsp_finish s)
       | Some (a, b) \<Rightarrow> (min a (tsp_start s), max b (tsp_finish s)))"
  by (auto simp: widen_bounds_def update_conv' min_absorb2 split: option.split)

lemma widen_bounds_all:
  "map_of (fold widen_bounds spans []) i =
     (let xs = filter (\<lambda>s. tsp_trace_id s = i) spans in
      if xs = [] then None else Some (Min (tsp_start ` set xs), Max (tsp_finish ` set xs)))"
proof (induction spans rule: rev_induct)
  case (snoc s spans)
  let ?b = "fold widen_bounds spans []" and ?xs = "filter (\<lambda>s. tsp_trace_id s = i) spans"
  have run: "fold widen_bounds (spans @ [s]) [] = widen_bounds s ?b" by simp
  show ?case
  proof (cases "tsp_trace_id s = i")
    case False
    with snoc show ?thesis unfolding run by (simp add: widen_bounds_other)
  next
    case True
    have "map_of (widen_bounds s ?b) i = Some (case map_of ?b i of None \<Rightarrow> (tsp_start s, tsp_finish s)
        | Some (a, b) \<Rightarrow> (min a (tsp_start s), max b (tsp_finish s)))"
      using widen_bounds_same [of s ?b] True by simp
    moreover have "{x \<in> set spans. tsp_trace_id x = i} \<noteq> {}" if "?xs \<noteq> []"
      using that by (auto simp: filter_empty_conv)
    ultimately show ?thesis using snoc True
      unfolding run by (cases "?xs = []") (simp_all add: Let_def min.commute max.commute)
  qed
qed simp

end
