(* ===== verification/Tcp_Frame.thy ===== *)
theory Tcp_Frame
  imports Byte_Codec "HOL-Library.Sublist"
begin

text \<open>
  The frames of \<open>tcp_pubsub\<close>: the packed \<open>TcpHeader\<close> of \<open>tcp_header.h\<close>, the handshake message of
  \<open>protocol_handshake_message.h\<close> and the buffer that \<open>Publisher_Impl::send\<close> fills. The numbers on the
  wire are little-endian and so is the host, on which \<open>htole16\<close> and its relatives of \<open>portable_endian.h\<close>
  are identities. A header object is filled in two reads, its first two bytes and then as many
  of the others as the sender has; what is not filled keeps its initial zero.

  \<open>sub_decode\<close> is the reference: the messages a stream of bytes holds for a subscriber. It is shown to
  recover what was framed.
\<close>

subsection \<open>Header and handshake\<close>

definition RegularPayload :: u8 where
  "RegularPayload = 0"

definition ProtocolHandshake :: u8 where
  "ProtocolHandshake = 1"

record TcpHeader =
  th_header_size :: u16
  th_type :: u8
  th_reserved :: u8
  th_data_size :: u64

definition TcpHeader_new :: TcpHeader where
  "TcpHeader_new = \<lparr>th_header_size = 0, th_type = RegularPayload, th_reserved = 0, th_data_size = 0\<rparr>"

definition sizeof_TcpHeader :: nat where
  "sizeof_TcpHeader = 12"

definition sizeof_header_size :: nat where
  "sizeof_header_size = 2"

text \<open>The object in memory, and the object with some of its bytes replaced.\<close>

definition header_image :: "TcpHeader \<Rightarrow> bytes" where
  "header_image h = le_bytes 2 (th_header_size h) @ [th_type h, th_reserved h] @ le_bytes 8 (th_data_size h)"

definition header_of_image :: "bytes \<Rightarrow> TcpHeader" where
  "header_of_image img =
     \<lparr>th_header_size = gather_le 2 img 0, th_type = img ! 2, th_reserved = img ! 3,
      th_data_size = gather_le 8 img 4\<rparr>"

definition fill_header :: "TcpHeader \<Rightarrow> nat \<Rightarrow> bytes \<Rightarrow> TcpHeader" where
  "fill_header h offset data = header_of_image (write_at (header_image h) offset data)"

text \<open>Request and response of the handshake are the same bytes: protocol version 0.\<close>

definition handshake_buffer :: bytes where
  "handshake_buffer =
     header_image \<lparr>th_header_size = of_nat sizeof_TcpHeader, th_type = ProtocolHandshake, th_reserved = 0,
       th_data_size = 1\<rparr> @ [0]"

text \<open>\<open>ProtocolHandshakeMessage\<close> is one byte; it is copied from a payload that is not empty.\<close>

definition handshake_version :: "bytes \<Rightarrow> u8" where
  "handshake_version data = hd (take 1 data @ [0])"

text \<open>How many bytes of the header are still to be read into the object, and how many follow it that only a
  newer sender knows.\<close>

definition bytes_to_read_from_socket :: "TcpHeader \<Rightarrow> nat" where
  "bytes_to_read_from_socket h = min (unat (th_header_size h)) sizeof_TcpHeader - sizeof_header_size"

definition bytes_to_discard_from_socket :: "TcpHeader \<Rightarrow> nat" where
  "bytes_to_discard_from_socket h =
     (if sizeof_TcpHeader < unat (th_header_size h) then unat (th_header_size h) - sizeof_TcpHeader else 0)"


subsection \<open>The buffer of a message\<close>

text \<open>A payload is a pointer, which may be null, and a size. The vector comes from a pool: resizing it keeps
  what it held before, up to the new size.\<close>

type_synonym Payload = "bytes option \<times> nat"

definition resize_buffer :: "bytes \<Rightarrow> nat \<Rightarrow> bytes" where
  "resize_buffer buffer n = take n buffer @ replicate (n - length buffer) 0"

definition entire_payload_size :: "Payload list \<Rightarrow> nat" where
  "entire_payload_size payloads = sum_list (map snd payloads)"

fun copy_payloads :: "bytes \<Rightarrow> nat \<Rightarrow> Payload list \<Rightarrow> bytes" where
  "copy_payloads buffer current_position [] = buffer"
| "copy_payloads buffer current_position ((Some data, n) # payloads) =
     (if 0 < n then copy_payloads (write_at buffer current_position (take n data)) (current_position + n) payloads
      else copy_payloads buffer current_position payloads)"
| "copy_payloads buffer current_position ((None, n) # payloads) = copy_payloads buffer current_position payloads"

definition fill_buffer :: "bytes \<Rightarrow> Payload list \<Rightarrow> bytes" where
  "fill_buffer buffer payloads =
     copy_payloads
       (write_at (resize_buffer buffer (sizeof_TcpHeader + entire_payload_size payloads)) 0
         (header_image \<lparr>th_header_size = of_nat sizeof_TcpHeader, th_type = RegularPayload, th_reserved = 0,
           th_data_size = of_nat (entire_payload_size payloads)\<rparr>))
       sizeof_TcpHeader payloads"


subsection \<open>What a stream says to a subscriber\<close>

text \<open>The header at the front of a stream: the bytes it has, up to the size of the object, over zeros.\<close>

definition front_header :: "bytes \<Rightarrow> TcpHeader" where
  "front_header bs = fill_header TcpHeader_new 0 (take (min (unat (gather_le 2 bs 0 :: u16)) sizeof_TcpHeader) bs)"

definition front_size :: "bytes \<Rightarrow> nat" where
  "front_size bs = unat (gather_le 2 bs 0 :: u16)"

definition refused :: "TcpHeader \<Rightarrow> bytes \<Rightarrow> bool" where
  "refused h data \<longleftrightarrow> th_type h = ProtocolHandshake \<and> 0 < handshake_version data"

definition message_of :: "TcpHeader \<Rightarrow> bytes \<Rightarrow> bytes list" where
  "message_of h data = (if th_type h = RegularPayload then [data] else [])"

function sub_decode :: "bytes \<Rightarrow> bytes list" where
  "sub_decode bs =
     (if length bs < 2 \<or> front_size bs < 2 \<or> length bs < front_size bs then []
      else let h = front_header bs; rest = drop (front_size bs) bs; n = unat (th_data_size h) in
        if n = 0 then sub_decode rest
        else if length rest < n \<or> refused h (take n rest) then []
        else message_of h (take n rest) @ sub_decode (drop n rest))"
  by auto

termination by (relation "measure length") auto

declare sub_decode.simps [simp del]

text \<open>The same after the header, the remaining bytes of the stream given.\<close>

definition decode_body :: "TcpHeader \<Rightarrow> bytes \<Rightarrow> bytes list" where
  "decode_body h rest =
     (if th_data_size h = 0 then sub_decode rest
      else if length rest < unat (th_data_size h) \<or> refused h (take (unat (th_data_size h)) rest) then []
      else message_of h (take (unat (th_data_size h)) rest) @ sub_decode (drop (unat (th_data_size h)) rest))"

lemma sub_decode_body:
  "sub_decode bs =
     (if length bs < 2 \<or> front_size bs < 2 \<or> length bs < front_size bs then []
      else decode_body (front_header bs) (drop (front_size bs) bs))"
  by (subst sub_decode.simps) (simp add: decode_body_def Let_def unat_eq_zero)

lemma sub_decode_Nil [simp]: "sub_decode [] = []"
  by (simp add: sub_decode_body)


subsection \<open>Images\<close>

lemma length_header_image [simp]: "length (header_image h) = 12"
  by (simp add: header_image_def)

lemma gather_le_front: "LENGTH('a::len) = 8 * n \<Longrightarrow> gather_le n (le_bytes n (w :: 'a word) @ rest) 0 = w"
  by (rule gather_le_le_bytes) (simp_all add: nth_append)

lemma header_of_image_image [simp]: "header_of_image (header_image h) = h"
proof -
  have "gather_le 2 (header_image h) 0 = th_header_size h"
    by (simp add: header_image_def gather_le_front)
  moreover have "gather_le 8 (header_image h) 4 = th_data_size h"
    by (rule gather_le_le_bytes) (simp_all add: header_image_def nth_append)
  ultimately show ?thesis by (simp add: header_of_image_def header_image_def nth_append)
qed

lemma header_image_of_image: "length img = 12 \<Longrightarrow> header_image (header_of_image img) = img"
proof -
  assume len: "length img = 12"
  have "le_bytes 2 (gather_le 2 img 0 :: u16) = take 2 (drop 0 img)" by (rule le_bytes_gather_le) (simp_all add: len)
  moreover have "le_bytes 8 (gather_le 8 img 4 :: u64) = take 8 (drop 4 img)" by (rule le_bytes_gather_le) (simp_all add: len)
  moreover have "[img ! 2, img ! 3] = take 2 (drop 2 img)"
    using len by (simp add: numeral_2_eq_2 take_Suc_conv_app_nth numeral_3_eq_3)
  ultimately have "header_image (header_of_image img) = take 2 img @ take 2 (drop 2 img) @ take 8 (drop 4 img)"
    by (simp add: header_image_def header_of_image_def)
  also have "\<dots> = img" using len by (simp add: take_all slice_step)
  finally show ?thesis .
qed

lemma fill_header_twice:
  assumes "length a + length b \<le> 12"
  shows "fill_header (fill_header h 0 a) (length a) b = fill_header h 0 (a @ b)"
  using assms by (simp add: fill_header_def header_image_of_image write_at_def add.commute)

lemma fill_header_size:
  assumes "2 \<le> length a" and "length a \<le> 12"
  shows "th_header_size (fill_header h 0 a) = gather_le 2 a 0"
  using assms by (auto simp: fill_header_def header_of_image_def write_at_def nth_append intro!: gather_le_cong)

lemma fill_header_all [simp]: "fill_header h 0 (header_image g) = g"
  by (simp add: fill_header_def write_at_def)

text \<open>A header read in two parts.\<close>

lemma image_parts:
  "header_image h = le_bytes 2 (th_header_size h) @ drop 2 (header_image h)"
  by (simp add: header_image_def)

lemma header_parts:
  "fill_header (fill_header TcpHeader_new 0 (le_bytes 2 (th_header_size h))) 2 (drop 2 (header_image h)) = h"
  using fill_header_twice [of "le_bytes 2 (th_header_size h)" "drop 2 (header_image h)" TcpHeader_new]
  by (simp flip: image_parts)

lemma first_part_size: "th_header_size (fill_header TcpHeader_new 0 (le_bytes 2 w)) = w"
  using gather_le_front [of 2 w "[]"] by (simp add: fill_header_size)

lemma front_size_image [simp]: "front_size (header_image h @ rest) = unat (th_header_size h)"
  by (simp add: front_size_def header_image_def gather_le_front)

lemma front_header_image:
  "th_header_size h = of_nat sizeof_TcpHeader \<Longrightarrow> front_header (header_image h @ rest) = h"
  using front_size_image [of h rest] by (simp add: front_header_def front_size_def sizeof_TcpHeader_def)

lemma sub_decode_frame:
  assumes "th_header_size h = of_nat sizeof_TcpHeader"
  shows "sub_decode (header_image h @ rest) = decode_body h rest"
  using assms front_header_image [OF assms, of rest]
  by (simp add: sub_decode_body sizeof_TcpHeader_def)


subsection \<open>What was framed is recovered\<close>

text \<open>A message that fits the 64-bit size field, and its frame.\<close>

definition frame :: "bytes \<Rightarrow> bytes" where
  "frame data = header_image \<lparr>th_header_size = of_nat sizeof_TcpHeader, th_type = RegularPayload, th_reserved = 0,
     th_data_size = of_nat (length data)\<rparr> @ data"

lemma sub_decode_message:
  assumes "length data < 2 ^ 64"
  shows "sub_decode (frame data @ rest) = (if data = [] then [] else [data]) @ sub_decode rest"
proof -
  have u: "unat (of_nat (length data) :: u64) = length data" using assms by (intro unat_of_nat_less) simp
  then have "(of_nat (length data) :: u64) = 0 \<longleftrightarrow> data = []" by (metis unat_eq_zero length_0_conv)
  with u show ?thesis
    by (simp add: frame_def sub_decode_frame decode_body_def refused_def message_of_def RegularPayload_def
      ProtocolHandshake_def)
qed

lemma sub_decode_handshake [simp]: "sub_decode (handshake_buffer @ rest) = sub_decode rest"
  by (simp add: handshake_buffer_def sub_decode_frame decode_body_def refused_def message_of_def RegularPayload_def
    ProtocolHandshake_def handshake_version_def)

lemma sub_decode_frames:
  assumes "\<forall>m \<in> set ms. length m < 2 ^ 64"
  shows "sub_decode (concat (map frame ms)) = filter (\<lambda>m. m \<noteq> []) ms"
  using assms by (induction ms) (simp_all add: sub_decode_message)


subsection \<open>The buffer is the frame\<close>

definition payloads_given :: "Payload list \<Rightarrow> bool" where
  "payloads_given payloads \<longleftrightarrow> list_all (\<lambda>(data, n). n = 0 \<or> (\<exists>d. data = Some d \<and> length d = n)) payloads"

definition payload_bytes :: "Payload \<Rightarrow> bytes" where
  "payload_bytes p = (case p of (Some d, n) \<Rightarrow> take n d | (None, n) \<Rightarrow> [])"

lemma copy_payloads_exact:
  assumes "payloads_given payloads" and "length buffer = length pre + entire_payload_size payloads"
    and "take (length pre) buffer = pre"
  shows "copy_payloads buffer (length pre) payloads = pre @ concat (map payload_bytes payloads)"
  using assms
proof (induction payloads arbitrary: buffer pre)
  case (Cons p payloads)
  obtain data n where p: "p = (data, n)" by (cases p)
  show ?case
  proof (cases "n = 0")
    case True
    then show ?thesis using Cons p
      by (cases data) (simp_all add: payloads_given_def entire_payload_size_def payload_bytes_def)
  next
    case False
    with Cons.prems(1) p obtain d where d: "data = Some d" "length d = n" by (auto simp: payloads_given_def)
    let ?b = "write_at buffer (length pre) d"
    have "length ?b = length (pre @ d) + entire_payload_size payloads" and "take (length (pre @ d)) ?b = pre @ d"
      using Cons.prems(2,3) p d by (simp_all add: write_at_def entire_payload_size_def)
    moreover have "payloads_given payloads" using Cons.prems(1) by (simp add: payloads_given_def)
    ultimately have "copy_payloads ?b (length (pre @ d)) payloads = (pre @ d) @ concat (map payload_bytes payloads)"
      by (intro Cons.IH)
    moreover have "payload_bytes p = d" using p d by (simp add: payload_bytes_def)
    ultimately show ?thesis using False p d by simp
  qed
qed (simp add: entire_payload_size_def)

lemma length_payload_bytes:
  "payloads_given payloads \<Longrightarrow> length (concat (map payload_bytes payloads)) = entire_payload_size payloads"
  by (induction payloads) (auto simp: payloads_given_def entire_payload_size_def payload_bytes_def split: option.splits)

lemma fill_buffer_frame:
  assumes "payloads_given payloads"
  shows "fill_buffer buffer payloads = frame (concat (map payload_bytes payloads))"
proof -
  let ?n = "entire_payload_size payloads"
  let ?h = "header_image \<lparr>th_header_size = of_nat sizeof_TcpHeader, th_type = RegularPayload, th_reserved = 0,
    th_data_size = of_nat ?n\<rparr>"
  let ?b = "write_at (resize_buffer buffer (sizeof_TcpHeader + ?n)) 0 ?h"
  have "copy_payloads ?b (length ?h) payloads = ?h @ concat (map payload_bytes payloads)"
    using assms by (intro copy_payloads_exact) (simp_all add: write_at_def resize_buffer_def sizeof_TcpHeader_def)
  then show ?thesis
    using length_payload_bytes [OF assms] by (simp add: fill_buffer_def frame_def sizeof_TcpHeader_def)
qed

text \<open>A null pointer with a size is counted but not copied: the frame then ends in what the recycled buffer
  held before.\<close>

lemma null_payload_leaks:
  assumes "length buffer = 12 + n"
  shows "fill_buffer buffer [(None, n)] = header_image \<lparr>th_header_size = of_nat sizeof_TcpHeader,
    th_type = RegularPayload, th_reserved = 0, th_data_size = of_nat n\<rparr> @ drop 12 buffer"
  using assms by (simp add: fill_buffer_def write_at_def resize_buffer_def entire_payload_size_def sizeof_TcpHeader_def)

end
