(* ===== verification/Tcp_Subscriber_Session.thy ===== *)
theory Tcp_Subscriber_Session
  imports Tcp_Frame
begin

text \<open>
  The session of a subscriber, \<open>subscriber_session_impl.cpp\<close>. A function of the source that starts an
  asynchronous operation adds it to the outstanding operations of the session; the completion handler is a
  function of the outcome, an error or the bytes read. What \<open>asio::post\<close> puts on the strand runs in order.
  Log output is left out.

  The step relation completes operations with any outcome, runs posted tasks, and lets other
  threads cancel the session and set its callback in between. Bytes arrive from the stream of the current
  connection; the stream is arbitrary and a read takes exactly what it asked for, as
  \<open>transfer_at_least\<close> with a buffer of that size promises, however TCP cuts the stream.
\<close>

subsection \<open>The session\<close>

datatype SubOperation =
    Resolving nat
  | Connecting nat
  | SendingRequest bytes
  | ReadingLength
  | ReadingContent TcpHeader
  | Discarding TcpHeader nat
  | ReadingPayload TcpHeader
  | RetryWaiting

datatype 'c StrandTask = Deliver bytes | ReadNext | SetCallback 'c

text \<open>The last four fields record what the session does to the outside: calls of the closed handler, calls of
  the callback with the callback they reach, waits for a reconnection since the last message, and an
  exception that left a handler and ended the process.\<close>

record 'c SubscriberSession_Impl =
  ts_publisher_list :: "(string \<times> u16) list"
  ts_connected_publisher_endpoint :: "string \<times> u16"
  ts_max_reconnection_attempts :: int
  ts_retries_left :: int
  ts_retry_timer :: time_point
  ts_canceled :: bool
  ts_synchronous_callback :: "'c option"
  ts_pending :: "SubOperation list"
  ts_strand :: "'c StrandTask list"
  ts_closed_calls :: nat
  ts_calls :: "('c option \<times> bytes) list"
  ts_waits :: nat
  ts_terminated :: bool

definition one_second :: duration where
  "one_second = 1000000000"

text \<open>The constructor throws on an empty list. The retry timer is set to one second from now, here and nowhere
  else.\<close>

definition SubscriberSession_Impl_new ::
  "time_point \<Rightarrow> (string \<times> u16) list \<Rightarrow> int \<Rightarrow> 'c SubscriberSession_Impl option" where
  "SubscriberSession_Impl_new now publisher_list max_reconnection_attempts =
     (if publisher_list = [] then None
      else Some \<lparr>ts_publisher_list = publisher_list, ts_connected_publisher_endpoint = ('''', 0),
        ts_max_reconnection_attempts = max_reconnection_attempts, ts_retries_left = max_reconnection_attempts,
        ts_retry_timer = now + one_second, ts_canceled = False, ts_synchronous_callback = None, ts_pending = [],
        ts_strand = [], ts_closed_calls = 0, ts_calls = [], ts_waits = 0, ts_terminated = False\<rparr>)"

definition start_operation :: "SubOperation \<Rightarrow> 'c SubscriberSession_Impl \<Rightarrow> 'c SubscriberSession_Impl" where
  "start_operation op s = s\<lparr>ts_pending := ts_pending s @ [op]\<rparr>"

definition strand_post :: "'c StrandTask \<Rightarrow> 'c SubscriberSession_Impl \<Rightarrow> 'c SubscriberSession_Impl" where
  "strand_post task s = s\<lparr>ts_strand := ts_strand s @ [task]\<rparr>"

definition session_closed_handler :: "'c SubscriberSession_Impl \<Rightarrow> 'c SubscriberSession_Impl" where
  "session_closed_handler s = s\<lparr>ts_closed_calls := ts_closed_calls s + 1\<rparr>"


subsection \<open>Connecting\<close>

definition connectionFailedHandler :: "'c SubscriberSession_Impl \<Rightarrow> 'c SubscriberSession_Impl" where
  "connectionFailedHandler s =
     (let s = s\<lparr>ts_connected_publisher_endpoint := ('''', 0)\<rparr> in
      if \<not> ts_canceled s \<and> (ts_retries_left s < 0 \<or> 0 < ts_retries_left s) then
        start_operation RetryWaiting
          (s\<lparr>ts_retries_left := (if 0 < ts_retries_left s then ts_retries_left s - 1 else ts_retries_left s),
             ts_waits := ts_waits s + 1\<rparr>)
      else session_closed_handler s)"

definition resolveEndpoint :: "nat \<Rightarrow> 'c SubscriberSession_Impl \<Rightarrow> 'c SubscriberSession_Impl" where
  "resolveEndpoint publisher_list_index s =
     (if ts_canceled s then connectionFailedHandler s
      else start_operation (Resolving publisher_list_index) s)"

definition session_start :: "'c SubscriberSession_Impl \<Rightarrow> 'c SubscriberSession_Impl" where
  "session_start s = (if ts_canceled s then s else resolveEndpoint 0 s)"

definition readHeaderLength :: "'c SubscriberSession_Impl \<Rightarrow> 'c SubscriberSession_Impl" where
  "readHeaderLength s = (if ts_canceled s then connectionFailedHandler s else start_operation ReadingLength s)"

definition sendProtokolHandshakeRequest :: "'c SubscriberSession_Impl \<Rightarrow> 'c SubscriberSession_Impl" where
  "sendProtokolHandshakeRequest s =
     (if ts_canceled s then connectionFailedHandler s else start_operation (SendingRequest handshake_buffer) s)"

definition request_sent :: "bool \<Rightarrow> 'c SubscriberSession_Impl \<Rightarrow> 'c SubscriberSession_Impl" where
  "request_sent ec s = (if ec then connectionFailedHandler s else readHeaderLength s)"

definition connectToEndpoint :: "nat \<Rightarrow> 'c SubscriberSession_Impl \<Rightarrow> 'c SubscriberSession_Impl" where
  "connectToEndpoint publisher_list_index s =
     (if ts_canceled s then connectionFailedHandler s
      else start_operation (Connecting publisher_list_index) s)"

definition endpoint_connected :: "bool \<Rightarrow> nat \<Rightarrow> 'c SubscriberSession_Impl \<Rightarrow> 'c SubscriberSession_Impl" where
  "endpoint_connected ec publisher_list_index s =
     (if ec then connectionFailedHandler s
      else sendProtokolHandshakeRequest
        (s\<lparr>ts_connected_publisher_endpoint := ts_publisher_list s ! publisher_list_index\<rparr>))"

definition endpoint_resolved :: "bool \<Rightarrow> nat \<Rightarrow> 'c SubscriberSession_Impl \<Rightarrow> 'c SubscriberSession_Impl" where
  "endpoint_resolved ec publisher_list_index s =
     (if ec then
        if publisher_list_index + 1 < length (ts_publisher_list s) then resolveEndpoint (publisher_list_index + 1) s
        else connectionFailedHandler s
      else connectToEndpoint publisher_list_index s)"

definition retry_waited :: "bool \<Rightarrow> 'c SubscriberSession_Impl \<Rightarrow> 'c SubscriberSession_Impl" where
  "retry_waited ec s = (if ec then session_closed_handler s else resolveEndpoint 0 s)"


subsection \<open>Receiving\<close>

text \<open>A vector of bytes can hold at most \<open>PTRDIFF_MAX\<close> of them; for a larger size, or when the allocator has no
  memory (\<open>allocated\<close>), \<open>reserve\<close> and \<open>resize\<close> throw. Nothing catches the exception.\<close>

definition vector_max_size :: nat where
  "vector_max_size = 2 ^ 63 - 1"

definition readPayload :: "bool \<Rightarrow> TcpHeader \<Rightarrow> 'c SubscriberSession_Impl \<Rightarrow> 'c SubscriberSession_Impl" where
  "readPayload allocated h s =
     (if ts_canceled s then connectionFailedHandler s
      else if th_data_size h = 0 then readHeaderLength s
      else if \<not> allocated \<or> vector_max_size < unat (th_data_size h) then s\<lparr>ts_terminated := True\<rparr>
      else start_operation (ReadingPayload h) s)"

definition payload_read :: "TcpHeader \<Rightarrow> bytes option \<Rightarrow> 'c SubscriberSession_Impl \<Rightarrow> 'c SubscriberSession_Impl" where
  "payload_read h outcome s =
     (case outcome of
        None \<Rightarrow> connectionFailedHandler s
      | Some data_buffer \<Rightarrow>
          let s = s\<lparr>ts_retries_left := ts_max_reconnection_attempts s, ts_waits := 0\<rparr> in
          if th_type h = ProtocolHandshake then
            if 0 < handshake_version data_buffer then connectionFailedHandler s
            else strand_post ReadNext s
          else if th_type h = RegularPayload then strand_post ReadNext (strand_post (Deliver data_buffer) s)
          else strand_post ReadNext s)"

definition discardDataBetweenHeaderAndPayload ::
  "TcpHeader \<Rightarrow> nat \<Rightarrow> 'c SubscriberSession_Impl \<Rightarrow> 'c SubscriberSession_Impl" where
  "discardDataBetweenHeaderAndPayload h bytes_to_discard s =
     (if ts_canceled s then connectionFailedHandler s
      else start_operation (Discarding h bytes_to_discard) s)"

definition data_discarded ::
  "bool \<Rightarrow> TcpHeader \<Rightarrow> bytes option \<Rightarrow> 'c SubscriberSession_Impl \<Rightarrow> 'c SubscriberSession_Impl" where
  "data_discarded allocated h outcome s =
     (case outcome of None \<Rightarrow> connectionFailedHandler s | Some _ \<Rightarrow> readPayload allocated h s)"

definition readHeaderContent :: "TcpHeader \<Rightarrow> 'c SubscriberSession_Impl \<Rightarrow> 'c SubscriberSession_Impl" where
  "readHeaderContent h s =
     (if ts_canceled s then connectionFailedHandler s
      else if unat (th_header_size h) < sizeof_header_size then connectionFailedHandler s
      else start_operation (ReadingContent h) s)"

definition header_content_read ::
  "bool \<Rightarrow> TcpHeader \<Rightarrow> bytes option \<Rightarrow> 'c SubscriberSession_Impl \<Rightarrow> 'c SubscriberSession_Impl" where
  "header_content_read allocated h outcome s =
     (case outcome of
        None \<Rightarrow> connectionFailedHandler s
      | Some data \<Rightarrow>
          let header = fill_header h sizeof_header_size data in
          if 0 < bytes_to_discard_from_socket h
          then discardDataBetweenHeaderAndPayload header (bytes_to_discard_from_socket h) s
          else readPayload allocated header s)"

definition header_length_read :: "bytes option \<Rightarrow> 'c SubscriberSession_Impl \<Rightarrow> 'c SubscriberSession_Impl" where
  "header_length_read outcome s =
     (case outcome of
        None \<Rightarrow> connectionFailedHandler s
      | Some data \<Rightarrow> readHeaderContent (fill_header TcpHeader_new 0 data) s)"

text \<open>The tasks on the strand.\<close>

fun run_task :: "'c StrandTask \<Rightarrow> 'c SubscriberSession_Impl \<Rightarrow> 'c SubscriberSession_Impl" where
  "run_task (Deliver data_buffer) s =
     (if ts_canceled s then connectionFailedHandler s
      else s\<lparr>ts_calls := ts_calls s @ [(ts_synchronous_callback s, data_buffer)]\<rparr>)"
| "run_task ReadNext s = readHeaderLength s"
| "run_task (SetCallback callback) s = s\<lparr>ts_synchronous_callback := Some callback\<rparr>"


subsection \<open>Public operations\<close>

definition setSynchronousCallback :: "'c \<Rightarrow> 'c SubscriberSession_Impl \<Rightarrow> 'c SubscriberSession_Impl" where
  "setSynchronousCallback callback s = (if ts_canceled s then s else strand_post (SetCallback callback) s)"

text \<open>Closing the socket and cancelling timer and resolver make outstanding operations complete with an error;
  those whose completion is already on its way may still complete well.\<close>

definition session_cancel :: "'c SubscriberSession_Impl \<Rightarrow> 'c SubscriberSession_Impl" where
  "session_cancel s = (if ts_canceled s then s else s\<lparr>ts_canceled := True\<rparr>)"

definition getPublisherList :: "'c SubscriberSession_Impl \<Rightarrow> (string \<times> u16) list" where
  "getPublisherList s = ts_publisher_list s"

definition getConnectedPublisher :: "'c SubscriberSession_Impl \<Rightarrow> string \<times> u16" where
  "getConnectedPublisher s = ts_connected_publisher_endpoint s"

definition remoteEndpointToString :: "'c SubscriberSession_Impl \<Rightarrow> string" where
  "remoteEndpointToString s =
     (let (host, port) = ts_connected_publisher_endpoint s in
      (if host = [] then ''?'' else host) @ '':'' @ decimal (uint port))"


subsection \<open>Steps\<close>

fun read_size :: "SubOperation \<Rightarrow> nat option" where
  "read_size ReadingLength = Some sizeof_header_size"
| "read_size (ReadingContent h) = Some (bytes_to_read_from_socket h)"
| "read_size (Discarding h n) = Some n"
| "read_size (ReadingPayload h) = Some (unat (th_data_size h))"
| "read_size _ = None"

fun operation_read :: "bool \<Rightarrow> SubOperation \<Rightarrow> bytes \<Rightarrow> 'c SubscriberSession_Impl \<Rightarrow> 'c SubscriberSession_Impl" where
  "operation_read allocated ReadingLength data s = header_length_read (Some data) s"
| "operation_read allocated (ReadingContent h) data s = header_content_read allocated h (Some data) s"
| "operation_read allocated (Discarding h n) data s = data_discarded allocated h (Some data) s"
| "operation_read allocated (ReadingPayload h) data s = payload_read h (Some data) s"
| "operation_read allocated _ data s = s"

fun operation_failed :: "SubOperation \<Rightarrow> 'c SubscriberSession_Impl \<Rightarrow> 'c SubscriberSession_Impl" where
  "operation_failed (Resolving i) s = endpoint_resolved True i s"
| "operation_failed (Connecting i) s = endpoint_connected True i s"
| "operation_failed (SendingRequest buffer) s = request_sent True s"
| "operation_failed ReadingLength s = header_length_read None s"
| "operation_failed (ReadingContent h) s = header_content_read True h None s"
| "operation_failed (Discarding h n) s = data_discarded True h None s"
| "operation_failed (ReadingPayload h) s = payload_read h None s"
| "operation_failed RetryWaiting s = retry_waited True s"

text \<open>\<open>sy_stream\<close> is all that arrives on the current connection, \<open>sy_incoming\<close> what of it is not read yet, and
  \<open>sy_earlier\<close> the number of callbacks before the connection was made.\<close>

record 'c SubSystem =
  sy_session :: "'c SubscriberSession_Impl"
  sy_stream :: bytes
  sy_incoming :: bytes
  sy_earlier :: nat
  sy_now :: time_point

datatype 'c SubEvent = Fails SubOperation | Succeeds SubOperation | Runs "'c StrandTask" | Cancels | Sets 'c | Ticks

definition without :: "SubOperation \<Rightarrow> 'c SubscriberSession_Impl \<Rightarrow> 'c SubscriberSession_Impl" where
  "without op s = s\<lparr>ts_pending := remove1 op (ts_pending s)\<rparr>"

abbreviation with_session :: "'c SubSystem \<Rightarrow> 'c SubscriberSession_Impl \<Rightarrow> 'c SubSystem" where
  "with_session y s \<equiv> y\<lparr>sy_session := s\<rparr>"

inductive tcp_sub_step :: "'c SubEvent \<Rightarrow> 'c SubSystem \<Rightarrow> 'c SubSystem \<Rightarrow> bool" where
  fails: "op \<in> set (ts_pending (sy_session y)) \<Longrightarrow> \<not> ts_terminated (sy_session y) \<Longrightarrow>
    tcp_sub_step (Fails op) y (with_session y (operation_failed op (without op (sy_session y))))"
| resolved: "Resolving i \<in> set (ts_pending (sy_session y)) \<Longrightarrow> \<not> ts_terminated (sy_session y) \<Longrightarrow>
    tcp_sub_step (Succeeds (Resolving i)) y
      (with_session y (endpoint_resolved False i (without (Resolving i) (sy_session y))))"
| connected: "Connecting i \<in> set (ts_pending (sy_session y)) \<Longrightarrow> \<not> ts_terminated (sy_session y) \<Longrightarrow>
    tcp_sub_step (Succeeds (Connecting i)) y
      (y\<lparr>sy_session := endpoint_connected False i (without (Connecting i) (sy_session y)), sy_stream := stream,
         sy_incoming := stream, sy_earlier := length (ts_calls (sy_session y))\<rparr>)"
| sent: "SendingRequest b \<in> set (ts_pending (sy_session y)) \<Longrightarrow> \<not> ts_terminated (sy_session y) \<Longrightarrow>
    tcp_sub_step (Succeeds (SendingRequest b)) y
      (with_session y (request_sent False (without (SendingRequest b) (sy_session y))))"
| reads: "op \<in> set (ts_pending (sy_session y)) \<Longrightarrow> read_size op = Some n \<Longrightarrow> n \<le> length (sy_incoming y) \<Longrightarrow>
    \<not> ts_terminated (sy_session y) \<Longrightarrow>
    tcp_sub_step (Succeeds op) y
      (y\<lparr>sy_session := operation_read allocated op (take n (sy_incoming y)) (without op (sy_session y)),
         sy_incoming := drop n (sy_incoming y)\<rparr>)"
| waited: "RetryWaiting \<in> set (ts_pending (sy_session y)) \<Longrightarrow> ts_retry_timer (sy_session y) \<le> sy_now y \<Longrightarrow>
    \<not> ts_terminated (sy_session y) \<Longrightarrow>
    tcp_sub_step (Succeeds RetryWaiting) y
      (with_session y (retry_waited False (without RetryWaiting (sy_session y))))"
| runs: "ts_strand (sy_session y) = task # tasks \<Longrightarrow> \<not> ts_terminated (sy_session y) \<Longrightarrow>
    tcp_sub_step (Runs task) y (with_session y (run_task task ((sy_session y)\<lparr>ts_strand := tasks\<rparr>)))"
| cancels: "\<not> ts_terminated (sy_session y) \<Longrightarrow>
    tcp_sub_step Cancels y (with_session y (session_cancel (sy_session y)))"
| sets: "\<not> ts_terminated (sy_session y) \<Longrightarrow>
    tcp_sub_step (Sets callback) y (with_session y (setSynchronousCallback callback (sy_session y)))"
| ticks: "0 \<le> d \<Longrightarrow> tcp_sub_step Ticks y (y\<lparr>sy_now := sy_now y + d\<rparr>)"

abbreviation tcp_sub_any :: "'c SubSystem \<Rightarrow> 'c SubSystem \<Rightarrow> bool" where
  "tcp_sub_any y z \<equiv> \<exists>e. tcp_sub_step e y z"

text \<open>A session as \<open>Subscriber_Impl::addSession\<close> leaves it: constructed, with its callback posted, and started.\<close>

definition tcp_sub_init :: "'c SubSystem \<Rightarrow> bool" where
  "tcp_sub_init y \<longleftrightarrow> (\<exists>publishers attempts callback s.
     SubscriberSession_Impl_new (sy_now y) publishers attempts = Some s \<and>
     sy_session y = session_start (setSynchronousCallback callback s) \<and>
     sy_stream y = [] \<and> sy_incoming y = [] \<and> sy_earlier y = 0)"

end
