(* ===== verification/Tcp_Subscriber_Properties.thy ===== *)
theory Tcp_Subscriber_Properties
  imports Tcp_Subscriber_Session
begin

text \<open>
  What holds of the session of a subscriber: one thread of control, deliveries that follow the stream, the end of a
  canceled session, the bound on reconnections, and the ways in which the code departs from its documentation.
\<close>

subsection \<open>One thread of control\<close>

fun work_task :: "'c StrandTask \<Rightarrow> bool" where
  "work_task (SetCallback c) = False"
| "work_task t = True"

abbreviation works :: "'c SubscriberSession_Impl \<Rightarrow> 'c StrandTask list" where
  "works s \<equiv> filter work_task (ts_strand s)"

definition sub_shape :: "'c SubscriberSession_Impl \<Rightarrow> bool" where
  "sub_shape s \<longleftrightarrow> ts_terminated s \<or>
     (case ts_pending s of
        [] \<Rightarrow> works s = [] \<and> (ts_closed_calls s = 1 \<or> ts_closed_calls s = 2 \<and> ts_canceled s) \<or>
          works s = [ReadNext] \<and> (ts_closed_calls s = 0 \<or> ts_closed_calls s = 1 \<and> ts_canceled s) \<or>
          (\<exists>data. works s = [Deliver data, ReadNext]) \<and> ts_closed_calls s = 0
      | [op] \<Rightarrow> works s = [] \<and> ts_closed_calls s = 0
      | _ \<Rightarrow> False)"

text \<open>A handler that runs with nothing else under way.\<close>

definition alone :: "'c SubscriberSession_Impl \<Rightarrow> bool" where
  "alone s \<longleftrightarrow> ts_pending s = [] \<and> works s = [] \<and> ts_closed_calls s = 0"

lemmas handler_defs = connectionFailedHandler_def resolveEndpoint_def readHeaderLength_def
  sendProtokolHandshakeRequest_def request_sent_def connectToEndpoint_def endpoint_connected_def
  endpoint_resolved_def retry_waited_def readPayload_def payload_read_def discardDataBetweenHeaderAndPayload_def
  data_discarded_def readHeaderContent_def header_content_read_def header_length_read_def start_operation_def
  strand_post_def session_closed_handler_def Let_def

lemma shape_cong:
  assumes "ts_terminated s = ts_terminated t" and "ts_pending s = ts_pending t" and "works s = works t"
    and "ts_closed_calls s = ts_closed_calls t" and "ts_canceled s = ts_canceled t"
  shows "sub_shape s = sub_shape t"
  by (simp only: sub_shape_def assms)

lemma shape_connectionFailed: "alone s \<Longrightarrow> sub_shape (connectionFailedHandler s)"
  by (simp add: alone_def sub_shape_def handler_defs)

lemma shape_start_operation: "alone s \<Longrightarrow> sub_shape (start_operation op s)"
  by (simp add: alone_def sub_shape_def start_operation_def)

lemma shape_readHeaderLength: "alone s \<Longrightarrow> sub_shape (readHeaderLength s)"
  by (simp add: readHeaderLength_def shape_connectionFailed shape_start_operation)

lemma shape_closed: "alone s \<Longrightarrow> sub_shape (session_closed_handler s)"
  by (simp add: alone_def sub_shape_def session_closed_handler_def)

lemma shape_terminated: "sub_shape (s\<lparr>ts_terminated := True\<rparr>)"
  by (simp add: sub_shape_def)

lemma alone_update [simp]:
  "alone (s\<lparr>ts_connected_publisher_endpoint := e\<rparr>) = alone s"
  "alone (s\<lparr>ts_retries_left := r, ts_waits := w\<rparr>) = alone s"
  by (simp_all add: alone_def)

lemmas shape_rules = shape_connectionFailed shape_start_operation shape_readHeaderLength shape_closed shape_terminated

lemma shape_readPayload: "alone s \<Longrightarrow> sub_shape (readPayload a h s)"
  by (simp add: readPayload_def shape_rules)

lemma shape_posted:
  "alone s \<Longrightarrow> sub_shape (strand_post ReadNext s)"
  "alone s \<Longrightarrow> sub_shape (strand_post ReadNext (strand_post (Deliver d) s))"
  by (simp_all add: alone_def sub_shape_def strand_post_def)

lemma shape_payload_read: "alone s \<Longrightarrow> sub_shape (payload_read h r s)"
  by (simp add: payload_read_def shape_rules shape_posted Let_def split: option.splits)

lemma shape_resolveEndpoint: "alone s \<Longrightarrow> sub_shape (resolveEndpoint i s)"
  by (simp add: resolveEndpoint_def shape_rules)

lemma shape_failed: "alone s \<Longrightarrow> sub_shape (operation_failed op s)"
  by (cases op) (simp_all add: endpoint_resolved_def endpoint_connected_def request_sent_def header_length_read_def
    header_content_read_def data_discarded_def retry_waited_def shape_rules shape_resolveEndpoint
    shape_payload_read)

lemma shape_read:
  assumes "alone s" and "read_size op = Some n"
  shows "sub_shape (operation_read a op d s)"
  using assms by (cases op) (simp_all add: header_length_read_def readHeaderContent_def header_content_read_def
    discardDataBetweenHeaderAndPayload_def data_discarded_def shape_rules shape_readPayload shape_payload_read Let_def)

lemma shape_connect:
  assumes "alone s"
  shows "sub_shape (endpoint_resolved False i s)" and "sub_shape (endpoint_connected False i s)"
    and "sub_shape (request_sent False s)" and "sub_shape (retry_waited False s)"
  using assms by (simp_all add: endpoint_resolved_def connectToEndpoint_def endpoint_connected_def
    sendProtokolHandshakeRequest_def request_sent_def retry_waited_def shape_rules shape_resolveEndpoint)

lemma alone_without:
  assumes "sub_shape s" and "op \<in> set (ts_pending s)" and "\<not> ts_terminated s"
  shows "alone (without op s)" and "ts_pending s = [op]"
  using assms by (auto simp: sub_shape_def alone_def without_def split: list.splits)

lemma shape_canceled: "sub_shape s \<Longrightarrow> sub_shape (s\<lparr>ts_canceled := True\<rparr>)"
  by (auto simp: sub_shape_def split: list.splits)

lemma shape_run_task:
  assumes "sub_shape s" and "\<not> ts_terminated s" and "ts_strand s = task # tasks"
  shows "sub_shape (run_task task (s\<lparr>ts_strand := tasks\<rparr>))"
proof (cases task)
  case (Deliver d)
  with assms have "ts_pending s = []" "filter work_task tasks = [ReadNext]" "ts_closed_calls s = 0"
    by (auto simp: sub_shape_def split: list.splits)
  with Deliver show ?thesis by (simp add: sub_shape_def handler_defs)
next
  case ReadNext
  with assms have "ts_pending s = []" "filter work_task tasks = []"
    "ts_closed_calls s = 0 \<or> ts_closed_calls s = 1 \<and> ts_canceled s"
    by (auto simp: sub_shape_def split: list.splits)
  with ReadNext show ?thesis by (auto simp: sub_shape_def handler_defs)
next
  case (SetCallback c)
  with assms have "works (run_task task (s\<lparr>ts_strand := tasks\<rparr>)) = works s" by simp
  with SetCallback assms(1) show ?thesis by (subst shape_cong [of _ s]) simp_all
qed

lemma shape_step:
  assumes "tcp_sub_step e y z" and "sub_shape (sy_session y)"
  shows "sub_shape (sy_session z)"
  using assms
proof cases
  case (runs task tasks)
  with assms(2) show ?thesis by (simp add: shape_run_task)
next
  case cancels
  with assms(2) show ?thesis by (auto simp: session_cancel_def intro: shape_canceled)
next
  case sets
  then have "sub_shape (sy_session z) = sub_shape (sy_session y)"
    by (intro shape_cong) (simp_all add: setSynchronousCallback_def strand_post_def)
  with assms(2) show ?thesis by simp
qed (use assms(2) in \<open>simp_all add: alone_without(1) shape_failed shape_read shape_connect\<close>)

lemma shape_init: "tcp_sub_init y \<Longrightarrow> sub_shape (sy_session y)"
  by (auto simp: tcp_sub_init_def SubscriberSession_Impl_new_def session_start_def setSynchronousCallback_def
    strand_post_def resolveEndpoint_def start_operation_def sub_shape_def split: if_splits)


subsection \<open>What the handlers leave alone\<close>

definition kept :: "'c SubscriberSession_Impl \<Rightarrow>
    (string \<times> u16) list \<times> int \<times> time_point \<times> bool \<times> 'c option \<times> ('c option \<times> bytes) list" where
  "kept s = (ts_publisher_list s, ts_max_reconnection_attempts s, ts_retry_timer s, ts_canceled s,
     ts_synchronous_callback s, ts_calls s)"

lemma kept_handlers:
  "kept (connectionFailedHandler s) = kept s" "kept (start_operation op s) = kept s"
  "kept (session_closed_handler s) = kept s" "kept (strand_post task s) = kept s" "kept (without op s) = kept s"
  "kept (s\<lparr>ts_connected_publisher_endpoint := e\<rparr>) = kept s" "kept (s\<lparr>ts_strand := tasks\<rparr>) = kept s"
  "kept (s\<lparr>ts_retries_left := r, ts_waits := w\<rparr>) = kept s" "kept (s\<lparr>ts_terminated := b\<rparr>) = kept s"
  by (simp_all add: kept_def handler_defs without_def)

lemma kept_operation:
  "kept (operation_failed op s) = kept s" "kept (operation_read a op d s) = kept s"
  "kept (endpoint_resolved ec i s) = kept s" "kept (endpoint_connected ec i s) = kept s"
  "kept (request_sent ec s) = kept s" "kept (retry_waited ec s) = kept s" "kept (readHeaderLength s) = kept s"
proof -
  show len: "kept (readHeaderLength s) = kept s" for s :: "'c SubscriberSession_Impl"
    by (simp add: readHeaderLength_def kept_handlers)
  have pay: "kept (readPayload a h s) = kept s" for a h
    by (simp add: readPayload_def kept_handlers len)
  show res: "kept (endpoint_resolved ec i s) = kept s" for ec
    by (simp add: endpoint_resolved_def resolveEndpoint_def connectToEndpoint_def kept_handlers)
  show con: "kept (endpoint_connected ec i s) = kept s" for ec
    by (simp add: endpoint_connected_def sendProtokolHandshakeRequest_def kept_handlers)
  show req: "kept (request_sent ec s) = kept s" for ec by (simp add: request_sent_def kept_handlers len)
  show ret: "kept (retry_waited ec s) = kept s" for ec by (simp add: retry_waited_def resolveEndpoint_def kept_handlers)
  show "kept (operation_failed op s) = kept s"
    by (cases op) (simp_all add: endpoint_resolved_def resolveEndpoint_def connectToEndpoint_def
      endpoint_connected_def req ret header_length_read_def header_content_read_def data_discarded_def payload_read_def kept_handlers)
  show "kept (operation_read a op d s) = kept s"
    by (cases op) (simp_all add: header_length_read_def readHeaderContent_def header_content_read_def
      discardDataBetweenHeaderAndPayload_def data_discarded_def payload_read_def pay kept_handlers Let_def)
qed

lemma kept_step:
  assumes "tcp_sub_step e y z"
  shows "kept (sy_session z) = kept (sy_session y) \<or> e = Cancels \<or>
    (\<exists>c. e = Runs (SetCallback c)) \<or> (\<exists>d. e = Runs (Deliver d) \<and> \<not> ts_canceled (sy_session y))"
  using assms
proof cases
  case (runs task tasks)
  then show ?thesis by (cases task) (simp_all add: kept_handlers kept_operation)
next
  case (sets c)
  then show ?thesis by (simp add: setSynchronousCallback_def kept_handlers)
qed (simp_all add: kept_handlers kept_operation)

text \<open>The settings of a session never change, the time of the retry timer among them; a canceled session stays
  canceled and calls nobody.\<close>

inductive_cases cancelsE: "tcp_sub_step Cancels y z"
inductive_cases runsE: "tcp_sub_step (Runs task) y z"

lemma settings_step:
  assumes "tcp_sub_step e y z"
  shows "ts_publisher_list (sy_session z) = ts_publisher_list (sy_session y) \<and>
    ts_max_reconnection_attempts (sy_session z) = ts_max_reconnection_attempts (sy_session y) \<and>
    ts_retry_timer (sy_session z) = ts_retry_timer (sy_session y)"
  using kept_step [OF assms]
proof (elim disjE exE conjE)
  assume "e = Cancels"
  with assms show ?thesis by (auto simp: session_cancel_def elim: cancelsE)
next
  fix c assume "e = Runs (SetCallback c)"
  with assms show ?thesis by (auto elim: runsE)
next
  fix d assume "e = Runs (Deliver d)" and c: "\<not> ts_canceled (sy_session y)"
  with assms have "tcp_sub_step (Runs (Deliver d)) y z" by simp
  then show ?thesis using c by cases simp
qed (simp add: kept_def)

lemma canceled_step:
  assumes "tcp_sub_step e y z" and c: "ts_canceled (sy_session y)"
  shows "ts_canceled (sy_session z) \<and> ts_calls (sy_session z) = ts_calls (sy_session y)"
  using kept_step [OF assms(1)]
proof (elim disjE exE conjE)
  assume "e = Cancels"
  with assms show ?thesis by (auto simp: session_cancel_def elim: cancelsE)
next
  fix c assume "e = Runs (SetCallback c)"
  with assms show ?thesis by (auto elim: runsE)
qed (use c in \<open>simp_all add: kept_def\<close>)


subsection \<open>What is still to come\<close>

definition decode_content :: "TcpHeader \<Rightarrow> bytes \<Rightarrow> bytes list" where
  "decode_content h rest =
     (let n = unat (th_header_size h) - 2 in
      if length rest < n then []
      else decode_body (fill_header h 2 (take (bytes_to_read_from_socket h) rest)) (drop n rest))"

lemma front_header_parts:
  assumes "2 \<le> front_size bs" and "front_size bs \<le> length bs"
  shows "front_header bs = fill_header (fill_header TcpHeader_new 0 (take 2 bs)) 2
    (take (min (front_size bs) 12 - 2) (drop 2 bs))"
proof -
  have split: "take (min (front_size bs) 12) bs = take 2 bs @ take (min (front_size bs) 12 - 2) (drop 2 bs)"
    using take_add [of 2 "min (front_size bs) 12 - 2" bs] le_add_diff_inverse [of 2 "min (front_size bs) 12"] assms(1)
    by simp
  have "length (take 2 bs) = 2" using assms by simp
  moreover have "length (take 2 bs) + length (take (min (front_size bs) 12 - 2) (drop 2 bs)) \<le> 12" by simp
  ultimately show ?thesis
    using fill_header_twice [of "take 2 bs" "take (min (front_size bs) 12 - 2) (drop 2 bs)" TcpHeader_new]
    by (simp add: front_header_def front_size_def [symmetric] sizeof_TcpHeader_def split)
qed

lemma size_after_length:
  "2 \<le> length bs \<Longrightarrow> unat (th_header_size (fill_header TcpHeader_new 0 (take 2 bs))) = front_size bs"
  by (simp add: fill_header_size front_size_def) (rule arg_cong [where f = unat], rule gather_le_cong, simp)

lemma sub_decode_content:
  assumes "2 \<le> length bs" and "2 \<le> front_size bs"
  shows "sub_decode bs = decode_content (fill_header TcpHeader_new 0 (take 2 bs)) (drop 2 bs)"
proof -
  let ?h = "fill_header TcpHeader_new 0 (take 2 bs)"
  note size = size_after_length [OF assms(1)]
  have "drop (front_size bs - 2) (drop 2 bs) = drop (front_size bs) bs"
    using assms(2) by (simp only: drop_drop le_add_diff_inverse2)
  moreover have "front_header bs = fill_header ?h 2 (take (bytes_to_read_from_socket ?h) (drop 2 bs))"
    if "front_size bs \<le> length bs"
    using front_header_parts [OF assms(2) that]
    by (simp add: bytes_to_read_from_socket_def size sizeof_TcpHeader_def sizeof_header_size_def)
  ultimately show ?thesis
    using assms by (auto simp: sub_decode_body decode_content_def size Let_def)
qed

fun expected :: "SubOperation \<Rightarrow> bytes \<Rightarrow> bytes list option" where
  "expected (SendingRequest b) rest = Some (sub_decode rest)"
| "expected ReadingLength rest = Some (sub_decode rest)"
| "expected (ReadingContent h) rest = Some (decode_content h rest)"
| "expected (Discarding h n) rest = Some (if length rest < n then [] else decode_body h (drop n rest))"
| "expected (ReadingPayload h) rest = Some (decode_body h rest)"
| "expected _ rest = None"

fun task_messages :: "'c StrandTask \<Rightarrow> bytes list" where
  "task_messages (Deliver data) = [data]"
| "task_messages _ = []"

text \<open>The messages a session will still deliver if nothing fails; \<open>None\<close> when it is between connections.\<close>

definition coming :: "'c SubscriberSession_Impl \<Rightarrow> bytes \<Rightarrow> bytes list option" where
  "coming s rest =
     (case ts_pending s of
        [] \<Rightarrow> if works s = [] then None else Some (concat (map task_messages (works s)) @ sub_decode rest)
      | op # ops \<Rightarrow> expected op rest)"

lemma coming_cong: "ts_pending s = ts_pending t \<Longrightarrow> works s = works t \<Longrightarrow> coming s rest = coming t rest"
  by (simp only: coming_def)

lemma coming_updates [simp]:
  "coming (s\<lparr>ts_strand := tasks, ts_calls := calls\<rparr>) rest = coming (s\<lparr>ts_strand := tasks\<rparr>) rest"
  "coming (s\<lparr>ts_strand := tasks, ts_synchronous_callback := c\<rparr>) rest = coming (s\<lparr>ts_strand := tasks\<rparr>) rest"
  "coming (strand_post (SetCallback d) s) rest = coming s rest"
  by (rule coming_cong; simp add: strand_post_def)+

definition operation_ok :: "SubOperation \<Rightarrow> bool" where
  "operation_ok op \<longleftrightarrow>
     (case op of ReadingContent h \<Rightarrow> 2 \<le> unat (th_header_size h) | ReadingPayload h \<Rightarrow> th_data_size h \<noteq> 0 | _ \<Rightarrow> True)"

lemma coming_alone:
  assumes "alone s"
  shows "coming (connectionFailedHandler s) rest = None"
    and "coming (start_operation op s) rest = expected op rest"
    and "coming (session_closed_handler s) rest = None"
    and "coming (s\<lparr>ts_terminated := True\<rparr>) rest = None"
    and "coming (strand_post ReadNext s) rest = Some (sub_decode rest)"
    and "coming (strand_post ReadNext (strand_post (Deliver d) s)) rest = Some (d # sub_decode rest)"
  using assms by (simp_all add: alone_def coming_def handler_defs)

lemma coming_readHeaderLength:
  "alone s \<Longrightarrow> \<not> ts_canceled s \<Longrightarrow> coming (readHeaderLength s) rest = Some (sub_decode rest)"
  by (simp add: readHeaderLength_def coming_alone)

lemma coming_readPayload:
  "alone s \<Longrightarrow> \<not> ts_canceled s \<Longrightarrow> coming (readPayload a h s) rest \<in> {None, Some (decode_body h rest)}"
  by (simp add: readPayload_def coming_alone coming_readHeaderLength decode_body_def [of h])

lemma coming_payload_read:
  assumes "alone s" and "th_data_size h \<noteq> 0" and "unat (th_data_size h) \<le> length rest"
  shows "coming (payload_read h (Some (take (unat (th_data_size h)) rest)) s) (drop (unat (th_data_size h)) rest)
    \<in> {None, Some (decode_body h rest)}"
  using assms by (simp add: payload_read_def decode_body_def coming_alone refused_def message_of_def Let_def
    RegularPayload_def ProtocolHandshake_def)

lemma coming_length_read:
  assumes "alone s" and "\<not> ts_canceled s" and "2 \<le> length rest"
  shows "coming (header_length_read (Some (take 2 rest)) s) (drop 2 rest) \<in> {None, Some (sub_decode rest)}"
  using assms size_after_length [OF assms(3)] sub_decode_content [OF assms(3)]
  by (simp add: header_length_read_def readHeaderContent_def coming_alone sizeof_header_size_def)

lemma read_and_discard:
  assumes "2 \<le> unat (th_header_size h)"
  shows "unat (th_header_size h) - 2 = bytes_to_read_from_socket h + bytes_to_discard_from_socket h"
  using assms by (auto simp: bytes_to_read_from_socket_def bytes_to_discard_from_socket_def sizeof_TcpHeader_def
    sizeof_header_size_def min_def)

lemma coming_content_read:
  assumes "alone s" and "\<not> ts_canceled s" and "2 \<le> unat (th_header_size h)"
    and "bytes_to_read_from_socket h \<le> length rest"
  shows "coming (header_content_read a h (Some (take (bytes_to_read_from_socket h) rest)) s)
      (drop (bytes_to_read_from_socket h) rest) \<in> {None, Some (decode_content h rest)}"
proof -
  let ?r = "bytes_to_read_from_socket h" and ?d = "bytes_to_discard_from_socket h"
  let ?h = "fill_header h 2 (take ?r rest)"
  note rd = read_and_discard [OF assms(3)]
  show ?thesis
  proof (cases "0 < ?d")
    case True
    have "decode_content h rest = (if length (drop ?r rest) < ?d then [] else decode_body ?h (drop ?d (drop ?r rest)))"
      using assms(4) unfolding decode_content_def rd Let_def by (auto simp: add.commute)
    with True assms show ?thesis
      by (simp add: header_content_read_def discardDataBetweenHeaderAndPayload_def coming_alone sizeof_header_size_def)
  next
    case False
    then have "decode_content h rest = decode_body ?h (drop ?r rest)"
      using assms(4) unfolding decode_content_def rd Let_def by simp
    with False coming_readPayload [OF assms(1,2), of a ?h "drop ?r rest"] show ?thesis
      by (simp add: header_content_read_def sizeof_header_size_def)
  qed
qed

lemma coming_read:
  assumes "alone s" and "\<not> ts_canceled s" and "operation_ok op" and "read_size op = Some n" and "n \<le> length rest"
  shows "coming (operation_read a op (take n rest) s) (drop n rest) \<in> {None, expected op rest}"
proof (cases op)
  case ReadingLength
  with assms coming_length_read [of s rest] show ?thesis by (simp add: sizeof_header_size_def)
next
  case (ReadingContent h)
  with assms coming_content_read [of s h rest a] show ?thesis by (simp add: operation_ok_def)
next
  case (Discarding h m)
  with assms coming_readPayload [of s a h "drop n rest"] show ?thesis by (simp add: data_discarded_def)
next
  case (ReadingPayload h)
  with assms coming_payload_read [of s h rest] show ?thesis by (simp add: operation_ok_def)
qed (use assms(4) in simp_all)


subsection \<open>Delivered messages\<close>

text \<open>The messages delivered on the current connection.\<close>

definition delivered :: "'c SubSystem \<Rightarrow> bytes list" where
  "delivered y = drop (sy_earlier y) (map snd (ts_calls (sy_session y)))"

lemma operation_ok_alone:
  assumes "alone s"
  shows "list_all operation_ok (ts_pending (connectionFailedHandler s))"
    and "operation_ok op \<Longrightarrow> list_all operation_ok (ts_pending (start_operation op s))"
    and "list_all operation_ok (ts_pending (strand_post t s))"
    and "list_all operation_ok (ts_pending (strand_post t (strand_post t' s)))"
    and "list_all operation_ok (ts_pending (session_closed_handler s))"
  using assms by (simp_all add: alone_def handler_defs operation_ok_def)

lemma operation_ok_step:
  assumes "tcp_sub_step e y z" and "sub_shape (sy_session y)" and "list_all operation_ok (ts_pending (sy_session y))"
  shows "list_all operation_ok (ts_pending (sy_session z))"
proof -
  have len: "list_all operation_ok (ts_pending (readHeaderLength s))" if "alone s" for s :: "'a SubscriberSession_Impl"
    using that by (simp add: readHeaderLength_def operation_ok_alone operation_ok_def)
  have pay: "list_all operation_ok (ts_pending (readPayload a h s))" if "alone s" for a h and s :: "'a SubscriberSession_Impl"
    using that by (simp add: readPayload_def operation_ok_alone len)
      (simp add: alone_def start_operation_def operation_ok_def)
  have con: "list_all operation_ok (ts_pending (endpoint_resolved ec i s))"
    "list_all operation_ok (ts_pending (endpoint_connected ec i s))" "list_all operation_ok (ts_pending (request_sent ec s))"
    "list_all operation_ok (ts_pending (retry_waited ec s))" if "alone s" for ec i and s :: "'a SubscriberSession_Impl"
    using that by (simp_all add: endpoint_resolved_def resolveEndpoint_def connectToEndpoint_def endpoint_connected_def
      sendProtokolHandshakeRequest_def request_sent_def retry_waited_def operation_ok_alone operation_ok_def len)
  have fail: "list_all operation_ok (ts_pending (operation_failed op s))" if "alone s" for op and s :: "'a SubscriberSession_Impl"
    using that by (cases op) (simp_all add: con header_length_read_def header_content_read_def data_discarded_def
      payload_read_def operation_ok_alone)
  have rd: "list_all operation_ok (ts_pending (operation_read a op d s))" if "alone s" for a op d and s :: "'a SubscriberSession_Impl"
    using that by (cases op) (simp_all add: header_length_read_def readHeaderContent_def header_content_read_def
      discardDataBetweenHeaderAndPayload_def data_discarded_def payload_read_def operation_ok_alone operation_ok_def
      pay sizeof_header_size_def Let_def, simp_all add: alone_def)
  from assms(1) show ?thesis
  proof cases
    case (runs task tasks)
    then show ?thesis using assms(2,3)
      by (cases task) (auto simp: handler_defs operation_ok_def)
  next
    case cancels
    with assms(3) show ?thesis by (simp add: session_cancel_def)
  next
    case sets
    with assms(3) show ?thesis by (simp add: setSynchronousCallback_def strand_post_def)
  qed (use assms(2,3) in \<open>simp_all add: alone_without(1) fail rd con\<close>)
qed

definition sub_outlook :: "'c SubSystem \<Rightarrow> bool" where
  "sub_outlook y \<longleftrightarrow> sy_earlier y \<le> length (ts_calls (sy_session y)) \<and>
     prefix (delivered y) (sub_decode (sy_stream y)) \<and>
     (ts_canceled (sy_session y) \<or> coming (sy_session y) (sy_incoming y) = None \<or>
      sub_decode (sy_stream y) = delivered y @ the (coming (sy_session y) (sy_incoming y)))"

text \<open>A step that calls nobody keeps the outlook if it keeps what is to come.\<close>

lemma outlook_quiet:
  assumes "sub_outlook y" and "ts_calls (sy_session z) = ts_calls (sy_session y)"
    and "sy_stream z = sy_stream y" and "sy_earlier z = sy_earlier y"
    and "ts_canceled (sy_session z) \<or> coming (sy_session z) (sy_incoming z) = None \<or>
      \<not> ts_canceled (sy_session y) \<and> coming (sy_session z) (sy_incoming z) = coming (sy_session y) (sy_incoming y)"
  shows "sub_outlook z"
  using assms by (auto simp: sub_outlook_def delivered_def)

lemma kept_calls: "kept s = kept t \<Longrightarrow> ts_calls s = ts_calls t \<and> ts_canceled s = ts_canceled t"
  by (simp add: kept_def)


lemma coming_failed:
  assumes "alone s"
  shows "coming (endpoint_resolved ec i s) rest = None"
    and "coming (retry_waited ec s) rest = None"
    and "coming (operation_failed op s) rest = None"
proof -
  show "coming (endpoint_resolved ec i s) rest = None" "coming (retry_waited ec s) rest = None" for ec i
    using assms by (simp_all add: endpoint_resolved_def resolveEndpoint_def connectToEndpoint_def retry_waited_def
      coming_alone)
  then show "coming (operation_failed op s) rest = None"
    using assms by (cases op) (simp_all add: endpoint_connected_def request_sent_def header_length_read_def
      header_content_read_def data_discarded_def payload_read_def coming_alone)
qed

lemma coming_pending: "ts_pending s = [op] \<Longrightarrow> coming s rest = expected op rest"
  by (simp add: coming_def)

lemma outlook_connected:
  assumes "alone s" and "\<not> ts_canceled s"
  shows "coming (endpoint_connected False i s) rest = Some (sub_decode rest)"
    and "coming (request_sent False s) rest = Some (sub_decode rest)"
  using assms by (simp_all add: endpoint_connected_def sendProtokolHandshakeRequest_def request_sent_def coming_alone
    coming_readHeaderLength)

lemma outlook_operation:
  assumes "tcp_sub_step e y z" and "e = Fails op \<or> e = Succeeds op" and "sub_shape (sy_session y)"
    and "list_all operation_ok (ts_pending (sy_session y))" and "sub_outlook y"
  shows "sub_outlook z"
proof -
  have keep: "ts_canceled (without op (sy_session y)) = ts_canceled (sy_session y)" for op
    by (simp add: without_def)
  from kept_step [OF assms(1)] assms(2) have "kept (sy_session z) = kept (sy_session y)" by auto
  from kept_calls [OF this] have calls: "ts_calls (sy_session z) = ts_calls (sy_session y)"
    "ts_canceled (sy_session z) = ts_canceled (sy_session y)" by simp_all
  show ?thesis using assms(1)
  proof cases
    case (connected i stream)
    with outlook_connected(1) [OF alone_without(1) [OF assms(3) connected(3,4)], of i stream] calls
    show ?thesis by (auto simp: sub_outlook_def delivered_def keep)
  next
    case (reads op n allocated)
    note alone = alone_without(1) [OF assms(3) reads(3,6)] and pending = alone_without(2) [OF assms(3) reads(3,6)]
    have "operation_ok op" using assms(4) pending by simp
    from coming_read [OF alone _ this reads(4,5), of allocated] reads calls show ?thesis
      by (intro outlook_quiet [OF assms(5)]) (auto simp: keep coming_pending [OF pending])
  next
    case (sent b)
    note alone = alone_without(1) [OF assms(3) sent(3,4)] and pending = alone_without(2) [OF assms(3) sent(3,4)]
    from outlook_connected(2) [OF alone, of "sy_incoming y"] sent calls show ?thesis
      by (intro outlook_quiet [OF assms(5)]) (auto simp: keep coming_pending [OF pending])
  qed (use assms(2) calls in \<open>auto intro!: outlook_quiet [OF assms(5)] simp: coming_failed alone_without(1) [OF assms(3)]\<close>)
qed

lemma outlook_task:
  assumes "ts_strand s = task # tasks" and "sub_shape s" and "\<not> ts_terminated s" and "\<not> ts_canceled s"
  shows "case task of
      Deliver d \<Rightarrow> coming s rest = Some (d # the (coming (s\<lparr>ts_strand := tasks\<rparr>) rest)) \<and> coming (s\<lparr>ts_strand := tasks\<rparr>) rest \<noteq> None
    | ReadNext \<Rightarrow> coming s rest = coming (readHeaderLength (s\<lparr>ts_strand := tasks\<rparr>)) rest
    | SetCallback c \<Rightarrow> coming s rest = coming (s\<lparr>ts_strand := tasks\<rparr>) rest"
proof (cases task)
  case (Deliver d)
  with assms have "ts_pending s = []" "filter work_task tasks = [ReadNext]"
    by (auto simp: sub_shape_def split: list.splits)
  with Deliver assms(1) show ?thesis by (simp add: coming_def)
next
  case ReadNext
  with assms have "ts_pending s = []" "filter work_task tasks = []"
    by (auto simp: sub_shape_def split: list.splits)
  with ReadNext assms(1,4) show ?thesis by (simp add: coming_def handler_defs)
next
  case (SetCallback c)
  with assms(1) show ?thesis by (simp add: coming_cong [of s "s\<lparr>ts_strand := tasks\<rparr>"])
qed

lemma outlook_step:
  assumes "tcp_sub_step e y z" and "sub_shape (sy_session y)" and "list_all operation_ok (ts_pending (sy_session y))"
    and "sub_outlook y"
  shows "sub_outlook z"
  using assms(1)
proof cases
  case (runs task tasks)
  let ?s = "sy_session y"
  show ?thesis
  proof (cases "ts_canceled ?s")
    case True
    with canceled_step [OF assms(1)] runs show ?thesis by (intro outlook_quiet [OF assms(4)]) auto
  next
    case False
    note task = outlook_task [OF runs(3) assms(2) runs(4) False, of "sy_incoming y"]
    show ?thesis
    proof (cases task)
      case (Deliver d)
      with task False runs assms(4) show ?thesis by (auto simp: sub_outlook_def delivered_def)
    next
      case ReadNext
      with task False runs show ?thesis
        by (intro outlook_quiet [OF assms(4)]) (auto simp: handler_defs)
    next
      case (SetCallback c)
      with task False runs show ?thesis
        by (intro outlook_quiet [OF assms(4)]) auto
    qed
  qed
next
  case cancels
  then show ?thesis by (intro outlook_quiet [OF assms(4)]) (auto simp: session_cancel_def)
next
  case (sets c)
  then show ?thesis
    by (intro outlook_quiet [OF assms(4)]) (auto simp: setSynchronousCallback_def kept_calls [OF kept_handlers(4)])
next
  case (ticks d)
  then show ?thesis by (intro outlook_quiet [OF assms(4)]) auto
qed (use assms in \<open>blast intro: outlook_operation\<close>)+


subsection \<open>The callback\<close>

text \<open>The callback is set before anything is delivered, so an empty function is never called.\<close>

definition callback_ok :: "'c SubscriberSession_Impl \<Rightarrow> bool" where
  "callback_ok s \<longleftrightarrow> (ts_synchronous_callback s \<noteq> None \<or> (\<exists>c tasks. ts_strand s = SetCallback c # tasks)) \<and>
     list_all (\<lambda>(c, d). c \<noteq> None) (ts_calls s)"

lemma strand_extends:
  "ts_strand (connectionFailedHandler s) = ts_strand s" "ts_strand (start_operation op s) = ts_strand s"
  "ts_strand (session_closed_handler s) = ts_strand s" "ts_strand (readHeaderLength s) = ts_strand s"
  "ts_strand (readPayload a h s) = ts_strand s" "ts_strand (without op s) = ts_strand s"
  "ts_strand (endpoint_resolved ec i s) = ts_strand s" "ts_strand (endpoint_connected ec i s) = ts_strand s"
  "ts_strand (request_sent ec s) = ts_strand s" "ts_strand (retry_waited ec s) = ts_strand s"
  by (simp_all add: handler_defs without_def)

lemma strand_operation:
  "ts_strand (operation_failed op s) = ts_strand s" "\<exists>tasks. ts_strand (operation_read a op d s) = ts_strand s @ tasks"
  by (cases op; simp add: strand_extends header_length_read_def readHeaderContent_def header_content_read_def
    discardDataBetweenHeaderAndPayload_def data_discarded_def payload_read_def Let_def strand_post_def)+

lemma callback_kept:
  assumes "callback_ok s" and "kept t = kept s" and "ts_strand t = ts_strand s @ tasks"
  shows "callback_ok t"
  using assms by (auto simp: callback_ok_def kept_def)

lemma callback_step:
  assumes "tcp_sub_step e y z" and "callback_ok (sy_session y)"
  shows "callback_ok (sy_session z)"
  using assms(1)
proof cases
  case (reads op n allocated)
  from strand_operation(2) [of allocated op "take n (sy_incoming y)" "without op (sy_session y)"]
  obtain tasks where "ts_strand (sy_session z) = ts_strand (sy_session y) @ tasks"
    using reads by (auto simp: strand_extends)
  with reads show ?thesis
    by (intro callback_kept [OF assms(2)]) (simp_all add: kept_operation kept_handlers)
next
  case (runs task tasks)
  show ?thesis
  proof (cases task)
    case ReadNext
    with runs assms(2) have "callback_ok (sy_session y\<lparr>ts_strand := tasks\<rparr>)" by (auto simp: callback_ok_def)
    from callback_kept [OF this, of "sy_session z" "[]"] runs ReadNext show ?thesis
      by (simp add: kept_operation strand_extends)
  next
    case (Deliver d)
    with runs assms(2) have "callback_ok (sy_session y\<lparr>ts_strand := tasks\<rparr>)" by (auto simp: callback_ok_def)
    from callback_kept [OF this, of "connectionFailedHandler (sy_session y\<lparr>ts_strand := tasks\<rparr>)" "[]"] this runs Deliver assms(2)
    show ?thesis by (simp add: kept_handlers strand_extends) (auto simp: callback_ok_def)
  next
    case (SetCallback c)
    with runs assms(2) show ?thesis by (auto simp: callback_ok_def)
  qed
next
  case cancels
  with assms(2) show ?thesis by (simp add: callback_ok_def session_cancel_def)
next
  case (sets c)
  with assms(2) show ?thesis by (auto simp: callback_ok_def setSynchronousCallback_def strand_post_def)
qed (use assms(2) in \<open>auto intro!: callback_kept [OF assms(2)] simp: kept_operation kept_handlers strand_extends strand_operation(1)\<close>)

definition tcp_sub_inv :: "'c SubSystem \<Rightarrow> bool" where
  "tcp_sub_inv y \<longleftrightarrow> sub_shape (sy_session y) \<and> list_all operation_ok (ts_pending (sy_session y)) \<and> sub_outlook y \<and>
     callback_ok (sy_session y)"

lemma tcp_sub_inv_init: "tcp_sub_init y \<Longrightarrow> tcp_sub_inv y"
  by (auto simp: tcp_sub_inv_def shape_init, auto simp: tcp_sub_init_def SubscriberSession_Impl_new_def session_start_def
    setSynchronousCallback_def strand_post_def resolveEndpoint_def start_operation_def operation_ok_def
    sub_outlook_def delivered_def coming_def callback_ok_def split: if_splits)

lemma tcp_sub_inv_step: "tcp_sub_step e y z \<Longrightarrow> tcp_sub_inv y \<Longrightarrow> tcp_sub_inv z"
  by (simp add: tcp_sub_inv_def shape_step operation_ok_step outlook_step callback_step)

interpretation tcp_sub: step_invariant tcp_sub_init tcp_sub_any tcp_sub_inv
  by unfold_locales (auto intro: tcp_sub_inv_init tcp_sub_inv_step)

definition demo_tcp_sub :: "nat SubSystem" where
  "demo_tcp_sub =
     \<lparr>sy_session = \<lparr>ts_publisher_list = [(''host'', 4711)], ts_connected_publisher_endpoint = ('''', 0),
        ts_max_reconnection_attempts = 2, ts_retries_left = 2, ts_retry_timer = one_second, ts_canceled = False,
        ts_synchronous_callback = None, ts_pending = [Resolving 0], ts_strand = [SetCallback 7], ts_closed_calls = 0,
        ts_calls = [], ts_waits = 0, ts_terminated = False\<rparr>,
      sy_stream = [], sy_incoming = [], sy_earlier = 0, sy_now = 0\<rparr>"

lemma demo_tcp_sub_init: "tcp_sub_init demo_tcp_sub"
  unfolding tcp_sub_init_def
  by (rule exI [of _ "[(''host'', 4711)]"], rule exI [of _ 2], rule exI [of _ 7])
    (simp add: demo_tcp_sub_def SubscriberSession_Impl_new_def session_start_def setSynchronousCallback_def strand_post_def
      resolveEndpoint_def start_operation_def)



subsection \<open>Messages arrive\<close>

definition reading :: "'c SubSystem \<Rightarrow> bool" where
  "reading y \<longleftrightarrow> ts_pending (sy_session y) = [ReadingLength] \<and> ts_strand (sy_session y) = [] \<and>
     \<not> ts_canceled (sy_session y) \<and> \<not> ts_terminated (sy_session y)"

definition same_stream :: "'c SubSystem \<Rightarrow> 'c SubSystem \<Rightarrow> bool" where
  "same_stream y z \<longleftrightarrow> sy_stream z = sy_stream y \<and> sy_earlier z = sy_earlier y"

lemma same_stream_trans: "same_stream x y \<Longrightarrow> same_stream y z \<Longrightarrow> same_stream x z"
  by (simp add: same_stream_def)

text \<open>Reading on from a state with one outstanding read.\<close>

lemma read_on:
  assumes "ts_pending (sy_session y) = [op]" and "\<not> ts_terminated (sy_session y)" and "read_size op = Some (length data)"
    and "sy_incoming y = data @ rest"
  shows "tcp_sub_any y (y\<lparr>sy_session := operation_read True op data (sy_session y\<lparr>ts_pending := []\<rparr>), sy_incoming := rest\<rparr>)"
  using reads [of op y "length data" True] assms by (auto simp: without_def)

lemma run_on:
  assumes "ts_strand (sy_session y) = task # tasks" and "\<not> ts_terminated (sy_session y)"
  shows "tcp_sub_any y (with_session y (run_task task (sy_session y\<lparr>ts_strand := tasks\<rparr>)))"
  using runs [OF assms] by blast

lemma any_step: "tcp_sub_any\<^sup>*\<^sup>* x y \<Longrightarrow> tcp_sub_any y z \<Longrightarrow> tcp_sub_any\<^sup>*\<^sup>* x z"
  by (rule rtranclp.rtrancl_into_rtrancl)

lemma header_is_read:
  assumes "reading y" and "sy_incoming y = header_image h @ rest" and "th_header_size h = of_nat sizeof_TcpHeader"
  shows "tcp_sub_any\<^sup>*\<^sup>* y (y\<lparr>sy_session := readPayload True h (sy_session y\<lparr>ts_pending := []\<rparr>), sy_incoming := rest\<rparr>)"
proof -
  let ?s = "sy_session y\<lparr>ts_pending := []\<rparr>" and ?a = "le_bytes 2 (th_header_size h)" and ?b = "drop 2 (header_image h)"
  let ?g = "fill_header TcpHeader_new 0 ?a"
  let ?y1 = "y\<lparr>sy_session := start_operation (ReadingContent ?g) ?s, sy_incoming := ?b @ rest\<rparr>"
  have size: "th_header_size ?g = 12" using assms(3) first_part_size [of "th_header_size h"] by (simp add: sizeof_TcpHeader_def)
  have inc: "sy_incoming y = ?a @ ?b @ rest" using assms(2) image_parts [of h] by simp
  have "operation_read True ReadingLength ?a ?s = start_operation (ReadingContent ?g) ?s"
    using assms(1) size by (simp add: header_length_read_def readHeaderContent_def reading_def sizeof_header_size_def)
  with read_on [of y ReadingLength ?a "?b @ rest"] assms(1) inc have 1: "tcp_sub_any y ?y1"
    by (simp add: reading_def sizeof_header_size_def)
  have "operation_read True (ReadingContent ?g) ?b ?s = readPayload True h ?s"
    using size header_parts [of h]
    by (simp add: header_content_read_def bytes_to_discard_from_socket_def sizeof_TcpHeader_def sizeof_header_size_def)
  with read_on [of ?y1 "ReadingContent ?g" ?b rest] assms(1) size
  have 2: "tcp_sub_any ?y1 (y\<lparr>sy_session := readPayload True h ?s, sy_incoming := rest\<rparr>)"
    by (simp add: reading_def start_operation_def bytes_to_read_from_socket_def sizeof_TcpHeader_def sizeof_header_size_def)
  show ?thesis by (rule any_step [OF any_step [OF _ 1] 2]) simp
qed


text \<open>One frame: the session reads it and waits for the next.\<close>

lemma payload_is_delivered:
  assumes "ts_pending s = [ReadingPayload h]" and "ts_strand s = []" and "\<not> ts_canceled s" and "\<not> ts_terminated s"
    and "th_type h = RegularPayload" and "sy_session y = s" and "sy_incoming y = data @ rest"
    and "length data = unat (th_data_size h)"
  shows "\<exists>z. tcp_sub_any\<^sup>*\<^sup>* y z \<and> reading z \<and> sy_incoming z = rest \<and> same_stream y z"
proof -
  let ?s = "s\<lparr>ts_pending := [], ts_retries_left := ts_max_reconnection_attempts s, ts_waits := 0\<rparr>"
  let ?y1 = "y\<lparr>sy_session := ?s\<lparr>ts_strand := [Deliver data, ReadNext]\<rparr>, sy_incoming := rest\<rparr>"
  let ?t = "?s\<lparr>ts_strand := [ReadNext], ts_calls := ts_calls s @ [(ts_synchronous_callback s, data)]\<rparr>"
  let ?y2 = "?y1\<lparr>sy_session := ?t\<rparr>"
  let ?y3 = "?y1\<lparr>sy_session := ?t\<lparr>ts_strand := [], ts_pending := [ReadingLength]\<rparr>\<rparr>"
  have 1: "tcp_sub_any y ?y1"
    using read_on [of y "ReadingPayload h" data rest] assms
    by (simp add: payload_read_def strand_post_def ProtocolHandshake_def RegularPayload_def Let_def)
  have 2: "tcp_sub_any ?y1 ?y2"
    using run_on [of ?y1 "Deliver data" "[ReadNext]"] assms by simp
  have 3: "tcp_sub_any ?y2 ?y3"
    using run_on [of ?y2 ReadNext "[]"] assms by (simp add: readHeaderLength_def start_operation_def)
  have "tcp_sub_any\<^sup>*\<^sup>* y ?y3" by (rule any_step [OF any_step [OF any_step [OF _ 1] 2] 3]) simp
  moreover have "reading ?y3" "same_stream y ?y3" using assms by (simp_all add: reading_def same_stream_def)
  ultimately show ?thesis by (intro exI [of _ ?y3]) simp
qed

lemma frame_is_read:
  assumes "reading y" and "sy_incoming y = frame data @ rest" and "length data \<le> vector_max_size"
  shows "\<exists>z. tcp_sub_any\<^sup>*\<^sup>* y z \<and> reading z \<and> sy_incoming z = rest \<and> same_stream y z"
proof -
  let ?h = "\<lparr>th_header_size = of_nat sizeof_TcpHeader, th_type = RegularPayload, th_reserved = 0,
    th_data_size = of_nat (length data)\<rparr>"
  let ?s = "sy_session y\<lparr>ts_pending := []\<rparr>"
  let ?y1 = "y\<lparr>sy_session := readPayload True ?h ?s, sy_incoming := data @ rest\<rparr>"
  have size: "unat (of_nat (length data) :: u64) = length data"
    using assms(3) by (intro unat_of_nat_less) (simp add: vector_max_size_def)
  have path: "tcp_sub_any\<^sup>*\<^sup>* y ?y1" using header_is_read [OF assms(1), of ?h "data @ rest"] assms(2) by (simp add: frame_def)
  show ?thesis
  proof (cases "data = []")
    case True
    then have "?y1 = y\<lparr>sy_incoming := rest\<rparr>"
      using assms(1) by (simp add: readPayload_def readHeaderLength_def start_operation_def reading_def)
    with path assms(1) show ?thesis by (intro exI [of _ ?y1]) (simp add: reading_def same_stream_def)
  next
    case False
    with size have "(of_nat (length data) :: u64) \<noteq> 0" by (metis length_0_conv unat_0)
    with assms(1,3) size have "readPayload True ?h ?s = start_operation (ReadingPayload ?h) ?s"
      by (simp add: readPayload_def reading_def)
    with payload_is_delivered [of "sy_session ?y1" ?h ?y1 data rest] assms(1) size
    obtain z where "tcp_sub_any\<^sup>*\<^sup>* ?y1 z" "reading z" "sy_incoming z = rest" "same_stream ?y1 z"
      by (auto simp: reading_def start_operation_def)
    with path show ?thesis by (intro exI [of _ z]) (auto simp: same_stream_def intro: rtranclp_trans)
  qed
qed

lemma frames_are_read:
  assumes "reading y" and "sy_incoming y = concat (map frame ms)" and "\<forall>m \<in> set ms. length m \<le> vector_max_size"
  shows "\<exists>z. tcp_sub_any\<^sup>*\<^sup>* y z \<and> reading z \<and> sy_incoming z = [] \<and> same_stream y z"
  using assms
proof (induction ms arbitrary: y)
  case Nil
  then show ?case by (intro exI [of _ y]) (simp add: same_stream_def)
next
  case (Cons m ms)
  from frame_is_read [OF Cons.prems(1), of m "concat (map frame ms)"] Cons.prems
  obtain x where x: "tcp_sub_any\<^sup>*\<^sup>* y x" "reading x" "sy_incoming x = concat (map frame ms)" "same_stream y x" by auto
  with Cons.IH [of x] Cons.prems(3) obtain z where "tcp_sub_any\<^sup>*\<^sup>* x z" "reading z" "sy_incoming z = []" "same_stream x z"
    by auto
  with x show ?case by (intro exI [of _ z]) (auto intro: rtranclp_trans same_stream_trans)
qed


lemma handshake_is_read:
  assumes "reading y" and "sy_incoming y = handshake_buffer @ rest"
  shows "\<exists>z. tcp_sub_any\<^sup>*\<^sup>* y z \<and> reading z \<and> sy_incoming z = rest \<and> same_stream y z"
proof -
  let ?h = "\<lparr>th_header_size = of_nat sizeof_TcpHeader, th_type = ProtocolHandshake, th_reserved = 0, th_data_size = 1\<rparr>"
  let ?s = "sy_session y\<lparr>ts_pending := []\<rparr>"
  let ?y1 = "y\<lparr>sy_session := start_operation (ReadingPayload ?h) ?s, sy_incoming := [0] @ rest\<rparr>"
  let ?t = "?s\<lparr>ts_retries_left := ts_max_reconnection_attempts (sy_session y), ts_waits := 0\<rparr>"
  let ?y2 = "?y1\<lparr>sy_session := ?t\<lparr>ts_strand := [ReadNext]\<rparr>, sy_incoming := rest\<rparr>"
  let ?y3 = "?y2\<lparr>sy_session := ?t\<lparr>ts_strand := [], ts_pending := [ReadingLength]\<rparr>\<rparr>"
  have 1: "tcp_sub_any\<^sup>*\<^sup>* y ?y1"
    using header_is_read [OF assms(1), of ?h "[0] @ rest"] assms
    by (simp add: handshake_buffer_def readPayload_def reading_def vector_max_size_def)
  have 2: "tcp_sub_any ?y1 ?y2"
    using read_on [of ?y1 "ReadingPayload ?h" "[0]" rest] assms(1)
    by (simp add: payload_read_def strand_post_def handshake_version_def Let_def reading_def start_operation_def)
  have 3: "tcp_sub_any ?y2 ?y3"
    using run_on [of ?y2 ReadNext "[]"] assms(1) by (simp add: readHeaderLength_def start_operation_def reading_def)
  have "tcp_sub_any\<^sup>*\<^sup>* y ?y3" by (rule any_step [OF any_step [OF 1 2] 3])
  moreover have "reading ?y3" "same_stream y ?y3" using assms(1) by (simp_all add: reading_def same_stream_def)
  ultimately show ?thesis by (intro exI [of _ ?y3]) simp
qed

lemma callbacks_are_set:
  assumes "works (sy_session y) = []" and "\<not> ts_terminated (sy_session y)"
  shows "\<exists>c. tcp_sub_any\<^sup>*\<^sup>* y (with_session y (sy_session y\<lparr>ts_strand := [], ts_synchronous_callback := c\<rparr>))"
  using assms
proof (induction "ts_strand (sy_session y)" arbitrary: y)
  case Nil
  have "with_session y (sy_session y\<lparr>ts_strand := [], ts_synchronous_callback := ts_synchronous_callback (sy_session y)\<rparr>) = y"
    using Nil.hyps by simp
  then show ?case by (metis rtranclp.rtrancl_refl)
next
  case (Cons task tasks)
  from Cons.prems(1) obtain c where c: "task = SetCallback c" and works: "filter work_task tasks = []"
    using Cons.hyps(2) [symmetric] by (cases task) (auto split: if_splits)
  let ?x = "with_session y (sy_session y\<lparr>ts_strand := tasks, ts_synchronous_callback := Some c\<rparr>)"
  from run_on [of y task tasks] Cons.hyps(2) Cons.prems(2) c have step: "tcp_sub_any y ?x" by simp
  from Cons.hyps(1) [of ?x] works Cons.prems(2) obtain d where
    "tcp_sub_any\<^sup>*\<^sup>* ?x (with_session ?x (sy_session ?x\<lparr>ts_strand := [], ts_synchronous_callback := d\<rparr>))" by auto
  with step show ?case by (intro exI [of _ d]) (auto intro: converse_rtranclp_into_rtranclp)
qed

text \<open>C23: What is published arrives. Take a session that has just connected to a publisher; if the publisher sends the answer
  to the handshake and then the buffers of any messages, filled from any recycled memory, and nothing fails,
  then the session can read on to the end of the stream, and there the callback has got exactly the
  messages that are not empty, each the concatenation of its payloads, in the order of sending.\<close>

theorem published_messages_arrive:
  assumes "tcp_sub_init y0" and "tcp_sub_any\<^sup>*\<^sup>* y0 y"
    and "ts_pending (sy_session y) = [SendingRequest b]" and "\<not> ts_canceled (sy_session y)" and "\<not> ts_terminated (sy_session y)"
    and "sy_stream y = handshake_buffer @ concat (map (\<lambda>(old, payloads). fill_buffer old payloads) sends)"
    and "sy_incoming y = sy_stream y"
    and "\<forall>(old, payloads) \<in> set sends. payloads_given payloads \<and> entire_payload_size payloads \<le> vector_max_size"
  shows "\<exists>z. tcp_sub_any\<^sup>*\<^sup>* y z \<and> sy_stream z = sy_stream y \<and> sy_incoming z = [] \<and>
    delivered z = filter (\<lambda>m. m \<noteq> []) (map (\<lambda>(old, payloads). concat (map payload_bytes payloads)) sends)"
proof -
  let ?ms = "map (\<lambda>(old, payloads). concat (map payload_bytes payloads)) sends"
  have frames: "map (\<lambda>(old, payloads). fill_buffer old payloads) sends = map frame ?ms"
    using assms(8) by (auto simp: fill_buffer_frame)
  have small: "\<forall>m \<in> set ?ms. length m \<le> vector_max_size"
    using assms(8) length_payload_bytes by fastforce
  have "works (sy_session y) = []"
    using tcp_sub.reachable_inv [OF assms(1,2)] assms(3,5) by (simp add: tcp_sub_inv_def sub_shape_def)
  from callbacks_are_set [OF this assms(5)] obtain c where
    x: "tcp_sub_any\<^sup>*\<^sup>* y (with_session y (sy_session y\<lparr>ts_strand := [], ts_synchronous_callback := c\<rparr>))" ..
  let ?x = "with_session y (sy_session y\<lparr>ts_strand := [], ts_synchronous_callback := c\<rparr>)"
  let ?w = "with_session ?x (readHeaderLength (sy_session ?x\<lparr>ts_pending := []\<rparr>))"
  have w: "tcp_sub_any ?x ?w"
    using sent [of b ?x] assms(3,5) by (auto simp: request_sent_def without_def)
  have "reading ?w" using assms(4,5) by (simp add: reading_def readHeaderLength_def start_operation_def)
  moreover have "sy_incoming ?w = handshake_buffer @ concat (map frame ?ms)" using assms(6,7) frames by simp
  ultimately obtain v where v: "tcp_sub_any\<^sup>*\<^sup>* ?w v" "reading v" "sy_incoming v = concat (map frame ?ms)" "same_stream ?w v"
    using handshake_is_read by blast
  from frames_are_read [OF v(2,3) small] obtain z where
    z: "tcp_sub_any\<^sup>*\<^sup>* v z" "reading z" "sy_incoming z = []" "same_stream v z" by blast
  have path: "tcp_sub_any\<^sup>*\<^sup>* y z" using any_step [OF x w] v(1) z(1) by (meson rtranclp_trans)
  have stream: "sy_stream z = sy_stream y" using v(4) z(4) by (simp add: same_stream_def)
  have "delivered z = sub_decode (sy_stream z)"
    using tcp_sub.reachable_inv [OF assms(1) rtranclp_trans [OF assms(2) path]] z(2,3)
    by (auto simp: tcp_sub_inv_def sub_outlook_def coming_pending reading_def)
  also have "\<dots> = filter (\<lambda>m. m \<noteq> []) ?ms"
    using small stream assms(6) frames sub_decode_frames [of ?ms] by (fastforce simp: vector_max_size_def)
  finally show ?thesis using path stream z(3) by blast
qed

subsection \<open>Cancelling\<close>

definition remaining_work :: "'c SubscriberSession_Impl \<Rightarrow> nat" where
  "remaining_work s = 3 * length (ts_pending s) + length (ts_strand s)"

lemma canceled_failed: "ts_canceled s \<Longrightarrow> remaining_work (connectionFailedHandler s) = remaining_work s"
  by (simp add: remaining_work_def handler_defs)

lemma canceled_handlers:
  assumes "ts_canceled s"
  shows "remaining_work (readHeaderLength s) = remaining_work s"
    and "remaining_work (endpoint_resolved ec i s) = remaining_work s"
    and "remaining_work (endpoint_connected ec i s) = remaining_work s"
    and "remaining_work (request_sent ec s) = remaining_work s"
    and "remaining_work (retry_waited ec s) = remaining_work s"
  using assms by (simp_all add: remaining_work_def handler_defs)

lemma canceled_operations:
  assumes "ts_canceled s"
  shows "remaining_work (operation_failed op s) = remaining_work s"
    and "remaining_work (operation_read a op d s) \<le> remaining_work s + 2"
proof -
  show "remaining_work (operation_failed op s) = remaining_work s"
    using assms by (cases op) (simp_all add: canceled_handlers header_length_read_def header_content_read_def
      data_discarded_def payload_read_def canceled_failed)
  show "remaining_work (operation_read a op d s) \<le> remaining_work s + 2"
    using assms by (cases op) (simp_all add: header_length_read_def readHeaderContent_def header_content_read_def
      discardDataBetweenHeaderAndPayload_def data_discarded_def readPayload_def payload_read_def canceled_failed Let_def,
      simp_all add: remaining_work_def strand_post_def handler_defs)
qed

lemma without_work:
  "op \<in> set (ts_pending s) \<Longrightarrow> remaining_work (without op s) + 3 = remaining_work s"
  using length_pos_if_in_set [of op "ts_pending s"]
  by (cases "length (ts_pending s)") (simp_all add: remaining_work_def without_def length_remove1)

lemma canceled_without [simp]: "ts_canceled (without op s) = ts_canceled s"
  by (simp add: without_def)

lemma canceled_work:
  assumes "tcp_sub_step e y z" and c: "ts_canceled (sy_session y)"
  shows "remaining_work (sy_session z) < remaining_work (sy_session y) \<or> sy_session z = sy_session y"
  using assms(1)
proof cases
  case (runs task tasks)
  have less: "remaining_work (sy_session y\<lparr>ts_strand := tasks\<rparr>) < remaining_work (sy_session y)"
    using runs by (simp add: remaining_work_def)
  have "remaining_work (run_task task (sy_session y\<lparr>ts_strand := tasks\<rparr>)) = remaining_work (sy_session y\<lparr>ts_strand := tasks\<rparr>)"
    using c by (cases task) (simp_all add: canceled_handlers canceled_failed, simp add: remaining_work_def)
  with less runs show ?thesis by simp
next
  case (reads op n allocated)
  with c canceled_operations(2) [of "without op (sy_session y)" allocated op "take n (sy_incoming y)"] without_work [OF reads(3)]
  show ?thesis by simp
qed (use c without_work in \<open>force simp: canceled_handlers canceled_operations session_cancel_def setSynchronousCallback_def\<close>)+


text \<open>Cancelling a session that has received a message but not delivered it calls the closed handler twice: once from the
  delivery that is skipped and once from the read that was to follow.\<close>

theorem closed_handler_runs_twice:
  assumes "tcp_sub_init y0" and "tcp_sub_any\<^sup>*\<^sup>* y0 y" and "ts_strand (sy_session y) = [Deliver data, ReadNext]"
    and "\<not> ts_terminated (sy_session y)" and "\<not> ts_canceled (sy_session y)"
  shows "\<exists>z. tcp_sub_any\<^sup>*\<^sup>* y z \<and> ts_closed_calls (sy_session z) = 2"
proof -
  have zero: "ts_closed_calls (sy_session y) = 0"
    using tcp_sub.reachable_inv [OF assms(1,2)] assms(3,4) by (auto simp: tcp_sub_inv_def sub_shape_def split: list.splits)
  let ?a = "with_session y (sy_session y\<lparr>ts_canceled := True\<rparr>)"
  let ?b = "with_session ?a (connectionFailedHandler (sy_session ?a\<lparr>ts_strand := [ReadNext]\<rparr>))"
  let ?c = "with_session ?b (connectionFailedHandler (sy_session ?b\<lparr>ts_strand := []\<rparr>))"
  have a: "tcp_sub_any y ?a" using cancels [OF assms(4)] assms(5) by (auto simp: session_cancel_def)
  have b: "tcp_sub_any ?a ?b" using run_on [of ?a "Deliver data" "[ReadNext]"] assms(3,4) by simp
  have c: "tcp_sub_any ?b ?c" using run_on [of ?b ReadNext "[]"] assms(4)
    by (simp add: readHeaderLength_def connectionFailedHandler_def session_closed_handler_def Let_def)
  have "tcp_sub_any\<^sup>*\<^sup>* y ?c" by (rule any_step [OF any_step [OF any_step [OF _ a] b] c]) simp
  moreover have "ts_closed_calls (sy_session ?c) = 2"
    by (simp add: connectionFailedHandler_def session_closed_handler_def Let_def zero)
  ultimately show ?thesis by blast
qed


subsection \<open>Reconnecting\<close>

definition retries_ok :: "'c SubscriberSession_Impl \<Rightarrow> bool" where
  "retries_ok s \<longleftrightarrow> (0 \<le> ts_max_reconnection_attempts s \<longrightarrow> 0 \<le> ts_retries_left s \<and>
     int (ts_waits s) + ts_retries_left s = ts_max_reconnection_attempts s)"

lemma retries_failed: "retries_ok s \<Longrightarrow> retries_ok (connectionFailedHandler s)"
  by (auto simp: retries_ok_def handler_defs)

lemma retries_simple:
  "retries_ok (start_operation op s) = retries_ok s" "retries_ok (session_closed_handler s) = retries_ok s"
  "retries_ok (strand_post t s) = retries_ok s" "retries_ok (without op s) = retries_ok s"
  "retries_ok (s\<lparr>ts_connected_publisher_endpoint := e\<rparr>) = retries_ok s" "retries_ok (s\<lparr>ts_terminated := b\<rparr>) = retries_ok s"
  "retries_ok (s\<lparr>ts_strand := tasks\<rparr>) = retries_ok s"
  "retries_ok (s\<lparr>ts_retries_left := ts_max_reconnection_attempts s, ts_waits := 0\<rparr>)"
  by (simp_all add: retries_ok_def start_operation_def session_closed_handler_def strand_post_def without_def)

lemma retries_handlers:
  assumes "retries_ok s"
  shows "retries_ok (readHeaderLength s)" and "retries_ok (endpoint_resolved ec i s)" and "retries_ok (endpoint_connected ec i s)"
    and "retries_ok (request_sent ec s)" and "retries_ok (retry_waited ec s)" and "retries_ok (readPayload a h s)"
  using assms by (simp_all add: readHeaderLength_def endpoint_resolved_def resolveEndpoint_def connectToEndpoint_def
    endpoint_connected_def sendProtokolHandshakeRequest_def request_sent_def retry_waited_def readPayload_def
    retries_failed retries_simple)

lemma retries_operations:
  assumes "retries_ok s"
  shows "retries_ok (operation_failed op s)" and "retries_ok (operation_read a op d s)"
  using assms by (cases op; simp add: retries_handlers header_length_read_def readHeaderContent_def header_content_read_def
    discardDataBetweenHeaderAndPayload_def data_discarded_def payload_read_def retries_failed retries_simple Let_def)+

lemma retries_step:
  assumes "tcp_sub_step e y z" and r: "retries_ok (sy_session y)"
  shows "retries_ok (sy_session z)"
  using assms(1)
proof cases
  case (runs task tasks)
  with r show ?thesis
    by (cases task) (simp_all add: retries_handlers retries_failed retries_simple, simp_all add: retries_ok_def)
next
  case cancels
  with r show ?thesis by (simp add: retries_ok_def session_cancel_def)
next
  case sets
  with r show ?thesis by (simp add: setSynchronousCallback_def retries_simple)
qed (use r in \<open>simp_all add: retries_handlers retries_operations retries_simple\<close>)

lemma retries_init: "tcp_sub_init y \<Longrightarrow> retries_ok (sy_session y)"
  by (auto simp: tcp_sub_init_def SubscriberSession_Impl_new_def session_start_def setSynchronousCallback_def
    strand_post_def resolveEndpoint_def start_operation_def retries_ok_def split: if_splits)

interpretation retrying: step_invariant tcp_sub_init tcp_sub_any "\<lambda>y. retries_ok (sy_session y)"
  by unfold_locales (auto intro: retries_init retries_step)

text \<open>With a bound on reconnections a session waits at most that often for a reconnection until a message arrives again.\<close>

theorem reconnections_are_bounded:
  assumes "tcp_sub_init y0" and "tcp_sub_any\<^sup>*\<^sup>* y0 y" and "0 \<le> ts_max_reconnection_attempts (sy_session y)"
  shows "int (ts_waits (sy_session y)) \<le> ts_max_reconnection_attempts (sy_session y) \<and>
    ts_retries_left (sy_session y) = ts_max_reconnection_attempts (sy_session y) - int (ts_waits (sy_session y))"
  using retrying.reachable_inv [OF assms(1,2)] assms(3) by (simp add: retries_ok_def)

text \<open>Without a resolver error the session stays with the first publisher.\<close>

fun at_first :: "SubOperation \<Rightarrow> bool" where
  "at_first (Resolving i) \<longleftrightarrow> i = 0"
| "at_first (Connecting i) \<longleftrightarrow> i = 0"
| "at_first _ \<longleftrightarrow> True"

definition first_only :: "'c SubscriberSession_Impl \<Rightarrow> bool" where
  "first_only s \<longleftrightarrow> list_all at_first (ts_pending s)"

definition named_step :: "'c SubSystem \<Rightarrow> 'c SubSystem \<Rightarrow> bool" where
  "named_step y z \<longleftrightarrow> (\<exists>e. tcp_sub_step e y z \<and> (\<forall>i. e \<noteq> Fails (Resolving i)))"

lemma first_simple:
  "first_only (start_operation op s) \<longleftrightarrow> first_only s \<and> at_first op" "first_only (session_closed_handler s) = first_only s"
  "first_only (strand_post t s) = first_only s" "first_only (connectionFailedHandler s) = first_only s"
  "first_only (s\<lparr>ts_connected_publisher_endpoint := e\<rparr>) = first_only s" "first_only (s\<lparr>ts_terminated := b\<rparr>) = first_only s"
  "first_only (s\<lparr>ts_strand := tasks\<rparr>) = first_only s" "first_only (s\<lparr>ts_retries_left := r, ts_waits := w\<rparr>) = first_only s"
  by (auto simp: first_only_def start_operation_def session_closed_handler_def strand_post_def connectionFailedHandler_def Let_def)

lemma first_without: "first_only s \<Longrightarrow> first_only (without op s)"
  by (auto simp: first_only_def without_def list_all_iff dest: notin_set_remove1 in_set_remove1 set_remove1_subset [THEN subsetD])

lemma first_handlers:
  assumes "first_only s"
  shows "first_only (readHeaderLength s)" and "i = 0 \<Longrightarrow> first_only (endpoint_resolved False i s)"
    and "first_only (endpoint_connected ec i s)"
    and "first_only (request_sent ec s)" and "first_only (retry_waited ec s)" and "first_only (readPayload a h s)"
  using assms by (simp_all add: readHeaderLength_def endpoint_resolved_def resolveEndpoint_def connectToEndpoint_def
    endpoint_connected_def sendProtokolHandshakeRequest_def request_sent_def retry_waited_def readPayload_def first_simple)

lemma first_operations:
  assumes "first_only s"
  shows "\<forall>i. op \<noteq> Resolving i \<Longrightarrow> first_only (operation_failed op s)" and "first_only (operation_read a op d s)"
  using assms by (cases op; simp add: first_handlers header_length_read_def readHeaderContent_def header_content_read_def
    discardDataBetweenHeaderAndPayload_def data_discarded_def payload_read_def first_simple Let_def)+

lemma first_step:
  assumes "named_step y z" and f: "first_only (sy_session y)"
  shows "first_only (sy_session z)"
proof -
  from assms(1) obtain e where step: "tcp_sub_step e y z" and no: "\<forall>i. e \<noteq> Fails (Resolving i)"
    by (auto simp: named_step_def)
  from step show ?thesis
  proof cases
    case (resolved i)
    with f have "i = 0" by (auto simp: first_only_def list_all_iff)
    with resolved f show ?thesis by (simp add: first_handlers first_without)
  next
    case (runs task tasks)
    with f show ?thesis by (cases task) (simp_all add: first_handlers first_simple, simp_all add: first_only_def)
  next
    case cancels
    with f show ?thesis by (simp add: first_only_def session_cancel_def)
  next
    case sets
    with f show ?thesis by (simp add: setSynchronousCallback_def first_simple)
  qed (use f no in \<open>simp_all add: first_handlers first_operations first_simple first_without\<close>)
qed

lemma named_run_first: "named_step\<^sup>*\<^sup>* y z \<Longrightarrow> first_only (sy_session y) \<Longrightarrow> first_only (sy_session z)"
  by (induction rule: rtranclp_induct) (auto intro: first_step)

lemma retry_timer_fixed:
  assumes "tcp_sub_init y0" and "tcp_sub_any\<^sup>*\<^sup>* y0 y"
  shows "ts_retry_timer (sy_session y) = sy_now y0 + one_second"
  using assms(2)
proof (induction rule: rtranclp_induct)
  case base
  from assms(1) show ?case
    by (auto simp: tcp_sub_init_def SubscriberSession_Impl_new_def session_start_def setSynchronousCallback_def
      strand_post_def resolveEndpoint_def start_operation_def split: if_splits)
next
  case (step x z)
  then show ?case using settings_step by metis
qed

definition waiting :: "'c SubSystem \<Rightarrow> bool" where
  "waiting y \<longleftrightarrow> ts_pending (sy_session y) = [RetryWaiting] \<and> ts_retry_timer (sy_session y) \<le> sy_now y \<and>
     ts_retries_left (sy_session y) < 0 \<and> \<not> ts_canceled (sy_session y) \<and> \<not> ts_terminated (sy_session y)"

lemma retry_round:
  assumes "waiting y"
  shows "\<exists>z. named_step\<^sup>*\<^sup>* y z \<and> waiting z \<and> sy_now z = sy_now y \<and>
    ts_waits (sy_session z) = ts_waits (sy_session y) + 1"
proof -
  let ?s = "\<lambda>op. sy_session y\<lparr>ts_pending := [op]\<rparr>"
  let ?a = "with_session y (?s (Resolving 0))" and ?b = "with_session y (?s (Connecting 0))"
  let ?c = "with_session y (connectionFailedHandler (sy_session y\<lparr>ts_pending := []\<rparr>))"
  have "tcp_sub_step (Succeeds RetryWaiting) y ?a"
    using waited [of y] assms by (simp add: waiting_def retry_waited_def resolveEndpoint_def start_operation_def without_def)
  then have a: "named_step y ?a" by (auto simp: named_step_def)
  have "tcp_sub_step (Succeeds (Resolving 0)) ?a ?b"
    using resolved [of 0 ?a] assms by (simp add: waiting_def endpoint_resolved_def connectToEndpoint_def start_operation_def without_def)
  then have b: "named_step ?a ?b" by (auto simp: named_step_def)
  have "tcp_sub_step (Fails (Connecting 0)) ?b ?c"
    using fails [of "Connecting 0" ?b] assms by (simp add: waiting_def endpoint_connected_def without_def)
  then have c: "named_step ?b ?c" by (auto simp: named_step_def)
  have "named_step\<^sup>*\<^sup>* y ?c" using a b c by (meson rtranclp.rtrancl_into_rtrancl rtranclp.rtrancl_refl)
  moreover have "waiting ?c" "ts_waits (sy_session ?c) = ts_waits (sy_session y) + 1"
    using assms by (simp_all add: waiting_def connectionFailedHandler_def start_operation_def Let_def)
  ultimately show ?thesis by (intro exI [of _ ?c]) simp
qed

lemma retry_rounds:
  "waiting y \<Longrightarrow> \<exists>z. named_step\<^sup>*\<^sup>* y z \<and> sy_now z = sy_now y \<and> ts_waits (sy_session z) = ts_waits (sy_session y) + n"
proof (induction n arbitrary: y)
  case 0
  show ?case by (rule exI [of _ y]) simp
next
  case (Suc n)
  from retry_round [OF Suc.prems] obtain x where x: "named_step\<^sup>*\<^sup>* y x" "waiting x" "sy_now x = sy_now y"
    "ts_waits (sy_session x) = ts_waits (sy_session y) + 1" by blast
  from Suc.IH [OF x(2)] obtain z where z: "named_step\<^sup>*\<^sup>* x z" "sy_now z = sy_now x"
    "ts_waits (sy_session z) = ts_waits (sy_session x) + n" by blast
  from rtranclp_trans [OF x(1) z(1)] x z show ?case by (intro exI [of _ z]) simp
qed

text \<open>C28: Reconnecting does neither wait a second nor try the next publisher. The retry timer is set when the session is
  created and never again, so one second after that a session that reconnects without bound can be refused any
  number of times at the same instant; and as long as the name of the first publisher resolves, it never
  connects to another one.\<close>

theorem refused_connection_is_retried_at_once:
  assumes "tcp_sub_init y0" and "tcp_sub_any\<^sup>*\<^sup>* y0 y" and "sy_now y0 + one_second \<le> sy_now y"
    and "ts_pending (sy_session y) = [RetryWaiting]" and "ts_retries_left (sy_session y) < 0"
    and "\<not> ts_canceled (sy_session y)" and "\<not> ts_terminated (sy_session y)"
  shows "(\<exists>z. named_step\<^sup>*\<^sup>* y z \<and> sy_now z = sy_now y \<and> ts_waits (sy_session z) = ts_waits (sy_session y) + n) \<and>
    (named_step\<^sup>*\<^sup>* y z \<and> Connecting i \<in> set (ts_pending (sy_session z)) \<longrightarrow> i = 0)"
proof (intro conjI impI)
  show "\<exists>z. named_step\<^sup>*\<^sup>* y z \<and> sy_now z = sy_now y \<and> ts_waits (sy_session z) = ts_waits (sy_session y) + n"
    using assms retry_timer_fixed [OF assms(1,2)] by (intro retry_rounds) (simp add: waiting_def)
next
  assume "named_step\<^sup>*\<^sup>* y z \<and> Connecting i \<in> set (ts_pending (sy_session z))"
  with named_run_first [of y z] assms(4) show "i = 0" by (auto simp: first_only_def list_all_iff)
qed

text \<open>Twelve bytes from a peer end the process. A header whose size field exceeds what a vector can hold makes the
  allocation throw in a handler where nothing catches it.\<close>

theorem oversized_header_terminates:
  assumes "tcp_sub_init y0" and "tcp_sub_any\<^sup>*\<^sup>* y0 y" and "reading y" and "sy_incoming y = header_image h @ rest"
    and "th_header_size h = of_nat sizeof_TcpHeader" and "vector_max_size < unat (th_data_size h)"
  shows "\<exists>z. tcp_sub_any\<^sup>*\<^sup>* y z \<and> sy_incoming z = rest \<and> ts_terminated (sy_session z)"
proof -
  let ?z = "y\<lparr>sy_session := readPayload True h (sy_session y\<lparr>ts_pending := []\<rparr>), sy_incoming := rest\<rparr>"
  have "th_data_size h \<noteq> 0" using assms(6) by auto
  then have "ts_terminated (sy_session ?z)" using assms(3,6) by (simp add: readPayload_def reading_def)
  with header_is_read [OF assms(3-5)] show ?thesis by (intro exI [of _ ?z]) simp
qed

subsection \<open>Runs\<close>

definition demo_attempts :: "int \<Rightarrow> nat SubSystem" where
  "demo_attempts attempts = demo_tcp_sub\<lparr>sy_session := sy_session demo_tcp_sub
     \<lparr>ts_max_reconnection_attempts := attempts, ts_retries_left := attempts\<rparr>\<rparr>"

lemma demo_attempts_init: "tcp_sub_init (demo_attempts attempts)"
  unfolding tcp_sub_init_def
  by (rule exI [of _ "[(''host'', 4711)]"], rule exI [of _ attempts], rule exI [of _ 7])
    (simp add: demo_attempts_def demo_tcp_sub_def SubscriberSession_Impl_new_def session_start_def setSynchronousCallback_def
      strand_post_def resolveEndpoint_def start_operation_def)

definition demo_connected :: "bytes \<Rightarrow> nat SubSystem" where
  "demo_connected stream = demo_tcp_sub\<lparr>sy_session := sy_session demo_tcp_sub\<lparr>ts_pending := [SendingRequest handshake_buffer],
     ts_connected_publisher_endpoint := (''host'', 4711)\<rparr>, sy_stream := stream, sy_incoming := stream\<rparr>"

lemma demo_connected_reached: "tcp_sub_any\<^sup>*\<^sup>* demo_tcp_sub (demo_connected stream)"
proof -
  let ?a = "with_session demo_tcp_sub (sy_session demo_tcp_sub\<lparr>ts_pending := [Connecting 0]\<rparr>)"
  have a: "tcp_sub_any demo_tcp_sub ?a"
    using resolved [of 0 demo_tcp_sub] by (auto simp: demo_tcp_sub_def endpoint_resolved_def connectToEndpoint_def start_operation_def without_def)
  have b: "tcp_sub_any ?a (demo_connected stream)"
    using connected [of 0 ?a stream]
    by (auto simp: demo_tcp_sub_def demo_connected_def endpoint_connected_def sendProtokolHandshakeRequest_def start_operation_def without_def)
  show ?thesis by (rule any_step [OF any_step [OF _ a] b]) simp
qed


definition demo_stream :: bytes where
  "demo_stream = handshake_buffer @ fill_buffer [] [(Some [1, 2], 2), (Some [3], 1)] @ fill_buffer [9, 9] [(Some [], 0)]"

theorem published_messages_arrive_witness:
  "\<exists>z. tcp_sub_any\<^sup>*\<^sup>* (demo_connected demo_stream) z \<and> delivered z = [[1, 2, 3]]"
proof -
  have "\<exists>z. tcp_sub_any\<^sup>*\<^sup>* (demo_connected demo_stream) z \<and> sy_stream z = sy_stream (demo_connected demo_stream) \<and>
    sy_incoming z = [] \<and>
    delivered z = filter (\<lambda>m. m \<noteq> []) (map (\<lambda>(old :: bytes, payloads). concat (map payload_bytes payloads))
      [([], [(Some [1, 2], 2), (Some [3], 1)]), ([9, 9], [(Some [], 0)])])"
    by (rule published_messages_arrive [OF demo_tcp_sub_init demo_connected_reached, of _ handshake_buffer])
      (simp_all add: demo_connected_def demo_tcp_sub_def demo_stream_def payloads_given_def entire_payload_size_def vector_max_size_def)
  then show ?thesis by (auto simp: payload_bytes_def numeral_2_eq_2)
qed

lemma demo_reading:
  "\<exists>y. tcp_sub_any\<^sup>*\<^sup>* demo_tcp_sub y \<and> reading y \<and> sy_incoming y = stream"
proof -
  let ?a = "with_session (demo_connected stream) (sy_session (demo_connected stream)\<lparr>ts_strand := [], ts_synchronous_callback := Some 7\<rparr>)"
  let ?b = "with_session ?a (sy_session ?a\<lparr>ts_pending := [ReadingLength]\<rparr>)"
  have a: "tcp_sub_any (demo_connected stream) ?a"
    using run_on [of "demo_connected stream" "SetCallback 7" "[]"] by (simp add: demo_connected_def demo_tcp_sub_def)
  have b: "tcp_sub_any ?a ?b"
    using sent [of handshake_buffer ?a]
    by (auto simp: request_sent_def readHeaderLength_def start_operation_def without_def demo_connected_def demo_tcp_sub_def)
  have "tcp_sub_any\<^sup>*\<^sup>* demo_tcp_sub ?b" by (rule any_step [OF any_step [OF demo_connected_reached a] b])
  then show ?thesis by (intro exI [of _ ?b]) (simp add: reading_def demo_connected_def demo_tcp_sub_def)
qed

theorem oversized_header_terminates_witness:
  "\<exists>z. tcp_sub_any\<^sup>*\<^sup>* demo_tcp_sub z \<and> ts_terminated (sy_session z)"
proof -
  let ?h = "\<lparr>th_header_size = of_nat sizeof_TcpHeader, th_type = 0, th_reserved = 0, th_data_size = 9223372036854775808\<rparr>"
  obtain y where y: "tcp_sub_any\<^sup>*\<^sup>* demo_tcp_sub y" "reading y" "sy_incoming y = header_image ?h @ []"
    using demo_reading by blast
  from oversized_header_terminates [OF demo_tcp_sub_init y] y(1) show ?thesis
    by (auto simp: vector_max_size_def intro: rtranclp_trans)
qed

lemma demo_canceled_reached:
  "tcp_sub_any\<^sup>*\<^sup>* demo_tcp_sub (with_session demo_tcp_sub (sy_session demo_tcp_sub\<lparr>ts_canceled := True\<rparr>))"
  using cancels [of demo_tcp_sub] by (auto simp: session_cancel_def demo_tcp_sub_def)


theorem closed_handler_runs_twice_witness:
  "\<exists>z. tcp_sub_any\<^sup>*\<^sup>* demo_tcp_sub z \<and> ts_closed_calls (sy_session z) = 2"
proof -
  let ?h = "\<lparr>th_header_size = of_nat sizeof_TcpHeader, th_type = RegularPayload, th_reserved = 0, th_data_size = 1\<rparr>"
  obtain y where y: "tcp_sub_any\<^sup>*\<^sup>* demo_tcp_sub y" "reading y" "sy_incoming y = header_image ?h @ [5]"
    using demo_reading by blast
  let ?x = "y\<lparr>sy_session := readPayload True ?h (sy_session y\<lparr>ts_pending := []\<rparr>), sy_incoming := [5]\<rparr>"
  have x: "tcp_sub_any\<^sup>*\<^sup>* y ?x" by (rule header_is_read [OF y(2,3)]) simp
  let ?w = "y\<lparr>sy_session := operation_read True (ReadingPayload ?h) [5] (sy_session ?x\<lparr>ts_pending := []\<rparr>), sy_incoming := []\<rparr>"
  have w: "tcp_sub_any ?x ?w"
    using read_on [of ?x "ReadingPayload ?h" "[5]" "[]"] y(2)
    by (simp add: readPayload_def reading_def vector_max_size_def start_operation_def)
  have "tcp_sub_any\<^sup>*\<^sup>* demo_tcp_sub ?w" using any_step [OF x w] y(1) by (rule rtranclp_trans [rotated])
  from closed_handler_runs_twice [OF demo_tcp_sub_init this, of "[5]"] y(2) obtain z where
    "tcp_sub_any\<^sup>*\<^sup>* ?w z" "ts_closed_calls (sy_session z) = 2"
    by (auto simp: payload_read_def readPayload_def reading_def vector_max_size_def start_operation_def strand_post_def
      RegularPayload_def ProtocolHandshake_def Let_def)
  with \<open>tcp_sub_any\<^sup>*\<^sup>* demo_tcp_sub ?w\<close> show ?thesis by (meson rtranclp_trans)
qed

theorem reconnections_are_bounded_witness: "int (ts_waits (sy_session demo_tcp_sub)) \<le> 2"
  using reconnections_are_bounded [OF demo_tcp_sub_init rtranclp.rtrancl_refl] by (simp add: demo_tcp_sub_def)

definition demo_refused :: "nat SubSystem" where
  "demo_refused = demo_attempts (-1)
     \<lparr>sy_session := connectionFailedHandler (sy_session (demo_attempts (-1))\<lparr>ts_pending := []\<rparr>), sy_now := one_second\<rparr>"

lemma demo_refused_reached: "tcp_sub_any\<^sup>*\<^sup>* (demo_attempts (-1)) demo_refused"
proof -
  let ?y = "demo_attempts (-1)"
  let ?a = "with_session ?y (sy_session ?y\<lparr>ts_pending := [Connecting 0]\<rparr>)"
  let ?b = "with_session ?y (connectionFailedHandler (sy_session ?y\<lparr>ts_pending := []\<rparr>))"
  have a: "tcp_sub_any ?y ?a"
    using resolved [of 0 ?y]
    by (auto simp: demo_attempts_def demo_tcp_sub_def endpoint_resolved_def connectToEndpoint_def start_operation_def without_def)
  have b: "tcp_sub_any ?a ?b"
    using fails [of "Connecting 0" ?a] by (auto simp: demo_attempts_def demo_tcp_sub_def endpoint_connected_def without_def)
  have c: "tcp_sub_any ?b demo_refused"
    using ticks [of one_second ?b] by (auto simp: demo_refused_def demo_attempts_def demo_tcp_sub_def one_second_def)
  show ?thesis by (rule any_step [OF any_step [OF any_step [OF _ a] b] c]) simp
qed

theorem refused_connection_is_retried_at_once_witness:
  "\<exists>z. named_step\<^sup>*\<^sup>* demo_refused z \<and> sy_now z = sy_now demo_refused \<and> ts_waits (sy_session z) = 1001"
  using refused_connection_is_retried_at_once [OF demo_attempts_init demo_refused_reached, of 1000]
  by (simp add: demo_refused_def demo_attempts_def demo_tcp_sub_def connectionFailedHandler_def start_operation_def Let_def)

end
