(* ===== verification/Tcp_Publisher_Session.thy ===== *)
theory Tcp_Publisher_Session
  imports Tcp_Frame "HOL-Library.Multiset"
begin

text \<open>
  The session of a publisher, \<open>publisher_session.cpp\<close>: it reads the handshake request of its subscriber,
  answers it, and then writes the buffers it is given, one at a time, keeping only the newest of those
  that come while a write is under way.

  Completion handlers run on the strand of the session, so never two at a time; \<open>sendDataBuffer\<close> and
  \<open>cancel\<close> come from other threads at any point, also while the handler that answers the handshake stands between
  starting the write, exchanging the state and putting the old state back. Log output is left out.
\<close>

subsection \<open>The session\<close>

datatype PubState = NotStarted | Handshaking | Running | Canceled

datatype PubRead = PubReadingLength | PubReadingContent TcpHeader | PubDiscarding TcpHeader nat | PubReadingPayload TcpHeader

text \<open>Where \<open>sendProtocolHandshakeResponse\<close> is: not running, with its write started, or with the state exchanged.\<close>

datatype Responding = NotResponding | Responded | Exchanged PubState

text \<open>The last four fields are a record of what happened: the buffers handed over while the session was not
  canceled, the writes started, the calls of the closed handler, and an exception that ended the process.\<close>

record PublisherSession =
  tp_state :: PubState
  tp_sending_in_progress :: bool
  tp_next_buffer_to_send :: "bytes option"
  tp_reads :: "PubRead list"
  tp_in_flight :: "bytes list"
  tp_responding :: Responding
  tp_given :: "bytes list"
  tp_started :: "bytes list"
  tp_closed_calls :: nat
  tp_terminated :: bool

definition PublisherSession_new :: PublisherSession where
  "PublisherSession_new = \<lparr>tp_state = NotStarted, tp_sending_in_progress = False, tp_next_buffer_to_send = None,
     tp_reads = [], tp_in_flight = [], tp_responding = NotResponding, tp_given = [], tp_started = [],
     tp_closed_calls = 0, tp_terminated = False\<rparr>"

definition pub_start_read :: "PubRead \<Rightarrow> PublisherSession \<Rightarrow> PublisherSession" where
  "pub_start_read op s = s\<lparr>tp_reads := tp_reads s @ [op]\<rparr>"

definition sessionClosedHandler :: "PublisherSession \<Rightarrow> PublisherSession" where
  "sessionClosedHandler s =
     (if tp_state s = Canceled then s
      else s\<lparr>tp_state := Canceled, tp_closed_calls := tp_closed_calls s + 1\<rparr>)"

definition pub_cancel :: "PublisherSession \<Rightarrow> PublisherSession" where
  "pub_cancel s = sessionClosedHandler s"


subsection \<open>The handshake\<close>

definition pub_readHeaderLength :: "PublisherSession \<Rightarrow> PublisherSession" where
  "pub_readHeaderLength s = (if tp_state s = Canceled then s else pub_start_read PubReadingLength s)"

definition receiveTcpPacket :: "PublisherSession \<Rightarrow> PublisherSession" where
  "receiveTcpPacket s = pub_readHeaderLength s"

definition pub_start :: "PublisherSession \<Rightarrow> PublisherSession" where
  "pub_start s = receiveTcpPacket (s\<lparr>tp_state := Handshaking\<rparr>)"

text \<open>An \<open>async_write\<close> of the whole buffer.\<close>

definition sendBufferToClient :: "bytes \<Rightarrow> PublisherSession \<Rightarrow> PublisherSession" where
  "sendBufferToClient buffer s =
     (if tp_state s = Canceled then s
      else s\<lparr>tp_in_flight := tp_in_flight s @ [buffer], tp_started := tp_started s @ [buffer]\<rparr>)"

definition sendProtocolHandshakeResponse :: "PublisherSession \<Rightarrow> PublisherSession" where
  "sendProtocolHandshakeResponse s =
     (if tp_state s = Canceled then s
      else (sendBufferToClient handshake_buffer s)\<lparr>tp_responding := Responded\<rparr>)"

definition response_exchange :: "PublisherSession \<Rightarrow> PublisherSession" where
  "response_exchange s = s\<lparr>tp_state := Running, tp_responding := Exchanged (tp_state s)\<rparr>"

definition response_restore :: "PubState \<Rightarrow> PublisherSession \<Rightarrow> PublisherSession" where
  "response_restore old_state s =
     s\<lparr>tp_state := (if old_state \<noteq> Handshaking then old_state else tp_state s), tp_responding := NotResponding\<rparr>"

text \<open>The buffer for the payload is a new vector; its size is the peer's.\<close>

definition pub_readPayload :: "bool \<Rightarrow> TcpHeader \<Rightarrow> PublisherSession \<Rightarrow> PublisherSession" where
  "pub_readPayload allocated h s =
     (if tp_state s = Canceled then s
      else if th_data_size h = 0 then sessionClosedHandler s
      else if \<not> allocated \<or> 2 ^ 63 - 1 < unat (th_data_size h) then s\<lparr>tp_terminated := True\<rparr>
      else pub_start_read (PubReadingPayload h) s)"

definition pub_payload_read :: "TcpHeader \<Rightarrow> bytes option \<Rightarrow> PublisherSession \<Rightarrow> PublisherSession" where
  "pub_payload_read h outcome s =
     (case outcome of
        None \<Rightarrow> sessionClosedHandler s
      | Some data_buffer \<Rightarrow>
          if th_type h = ProtocolHandshake then sendProtocolHandshakeResponse s else sessionClosedHandler s)"

definition pub_discardData :: "TcpHeader \<Rightarrow> nat \<Rightarrow> PublisherSession \<Rightarrow> PublisherSession" where
  "pub_discardData h bytes_to_discard s =
     (if tp_state s = Canceled then s else pub_start_read (PubDiscarding h bytes_to_discard) s)"

definition pub_data_discarded :: "bool \<Rightarrow> TcpHeader \<Rightarrow> bytes option \<Rightarrow> PublisherSession \<Rightarrow> PublisherSession" where
  "pub_data_discarded allocated h outcome s =
     (case outcome of None \<Rightarrow> sessionClosedHandler s | Some _ \<Rightarrow> pub_readPayload allocated h s)"

definition pub_readHeaderContent :: "TcpHeader \<Rightarrow> PublisherSession \<Rightarrow> PublisherSession" where
  "pub_readHeaderContent h s =
     (if tp_state s = Canceled then s
      else if unat (th_header_size h) < sizeof_header_size then sessionClosedHandler s
      else pub_start_read (PubReadingContent h) s)"

definition pub_header_content_read :: "bool \<Rightarrow> TcpHeader \<Rightarrow> bytes option \<Rightarrow> PublisherSession \<Rightarrow> PublisherSession" where
  "pub_header_content_read allocated h outcome s =
     (case outcome of
        None \<Rightarrow> sessionClosedHandler s
      | Some data \<Rightarrow>
          let header = fill_header h sizeof_header_size data in
          if 0 < bytes_to_discard_from_socket h then pub_discardData header (bytes_to_discard_from_socket h) s
          else pub_readPayload allocated header s)"

definition pub_header_length_read :: "bytes option \<Rightarrow> PublisherSession \<Rightarrow> PublisherSession" where
  "pub_header_length_read outcome s =
     (case outcome of
        None \<Rightarrow> sessionClosedHandler s
      | Some data \<Rightarrow> pub_readHeaderContent (fill_header TcpHeader_new 0 data) s)"


subsection \<open>Sending\<close>

definition sendDataBuffer :: "bytes \<Rightarrow> PublisherSession \<Rightarrow> PublisherSession" where
  "sendDataBuffer buffer s =
     (if tp_state s = Canceled then s
      else let s = s\<lparr>tp_given := tp_given s @ [buffer]\<rparr> in
        if tp_state s = Running \<and> \<not> tp_sending_in_progress s
        then sendBufferToClient buffer (s\<lparr>tp_sending_in_progress := True\<rparr>)
        else s\<lparr>tp_next_buffer_to_send := Some buffer\<rparr>)"

definition buffer_sent :: "bool \<Rightarrow> PublisherSession \<Rightarrow> PublisherSession" where
  "buffer_sent ec s =
     (if ec then sessionClosedHandler s
      else if tp_state s = Canceled then s
      else case tp_next_buffer_to_send s of
          Some next_buffer_tmp \<Rightarrow> sendBufferToClient next_buffer_tmp (s\<lparr>tp_next_buffer_to_send := None\<rparr>)
        | None \<Rightarrow> s\<lparr>tp_sending_in_progress := False\<rparr>)"


subsection \<open>Steps\<close>

fun pub_read_size :: "PubRead \<Rightarrow> nat" where
  "pub_read_size PubReadingLength = sizeof_header_size"
| "pub_read_size (PubReadingContent h) = bytes_to_read_from_socket h"
| "pub_read_size (PubDiscarding h n) = n"
| "pub_read_size (PubReadingPayload h) = unat (th_data_size h)"

fun pub_read_done :: "bool \<Rightarrow> PubRead \<Rightarrow> bytes option \<Rightarrow> PublisherSession \<Rightarrow> PublisherSession" where
  "pub_read_done allocated PubReadingLength outcome s = pub_header_length_read outcome s"
| "pub_read_done allocated (PubReadingContent h) outcome s = pub_header_content_read allocated h outcome s"
| "pub_read_done allocated (PubDiscarding h n) outcome s = pub_data_discarded allocated h outcome s"
| "pub_read_done allocated (PubReadingPayload h) outcome s = pub_payload_read h outcome s"

definition strand_free :: "PublisherSession \<Rightarrow> bool" where
  "strand_free s \<longleftrightarrow> tp_responding s = NotResponding \<and> \<not> tp_terminated s"

inductive tcp_pub_step :: "PublisherSession \<Rightarrow> PublisherSession \<Rightarrow> bool" where
  pub_reads: "op \<in> set (tp_reads s) \<Longrightarrow> strand_free s \<Longrightarrow>
    (case outcome of None \<Rightarrow> True | Some data \<Rightarrow> length data = pub_read_size op) \<Longrightarrow>
    tcp_pub_step s (pub_read_done allocated op outcome (s\<lparr>tp_reads := remove1 op (tp_reads s)\<rparr>))"
| pub_exchanges: "tp_responding s = Responded \<Longrightarrow> \<not> tp_terminated s \<Longrightarrow> tcp_pub_step s (response_exchange s)"
| pub_restores: "tp_responding s = Exchanged old_state \<Longrightarrow> \<not> tp_terminated s \<Longrightarrow>
    tcp_pub_step s (response_restore old_state s)"
| pub_sent: "buffer \<in> set (tp_in_flight s) \<Longrightarrow> strand_free s \<Longrightarrow>
    tcp_pub_step s (buffer_sent ec (s\<lparr>tp_in_flight := remove1 buffer (tp_in_flight s)\<rparr>))"
| pub_sends: "\<not> tp_terminated s \<Longrightarrow> tcp_pub_step s (sendDataBuffer buffer s)"
| pub_cancels: "\<not> tp_terminated s \<Longrightarrow> tcp_pub_step s (pub_cancel s)"

definition tcp_pub_init :: "PublisherSession \<Rightarrow> bool" where
  "tcp_pub_init s \<longleftrightarrow> s = pub_start PublisherSession_new"


subsection \<open>What holds under all interleavings\<close>

text \<open>Before the answer to the handshake, and from then on.\<close>

definition unanswered :: "PublisherSession \<Rightarrow> bool" where
  "unanswered s \<longleftrightarrow> tp_started s = [] \<and> tp_in_flight s = [] \<and> \<not> tp_sending_in_progress s \<and> tp_state s \<noteq> Running \<and>
     tp_responding s = NotResponding \<and> length (tp_reads s) \<le> 1"

definition hs_answered :: "PublisherSession \<Rightarrow> bool" where
  "hs_answered s \<longleftrightarrow> tp_reads s = [] \<and> (\<exists>data. tp_started s = handshake_buffer # data) \<and>
     length (tp_in_flight s) \<le> (if tp_sending_in_progress s then 2 else 1)"

definition waiting_data :: "PublisherSession \<Rightarrow> bytes list" where
  "waiting_data s = (case tp_next_buffer_to_send s of None \<Rightarrow> [] | Some b \<Rightarrow> [b])"

definition pub_accounted :: "PublisherSession \<Rightarrow> bool" where
  "pub_accounted s \<longleftrightarrow> mset (tl (tp_started s)) + mset (waiting_data s) \<subseteq># mset (tp_given s)"

definition pub_awake :: "PublisherSession \<Rightarrow> bool" where
  "pub_awake s \<longleftrightarrow> (tp_closed_calls s = 0 \<longrightarrow> tp_state s \<noteq> Canceled \<and>
     (tp_sending_in_progress s \<or> tp_responding s \<noteq> NotResponding \<or>
      tp_next_buffer_to_send s \<noteq> None \<and> tp_state s = Running \<longrightarrow> tp_in_flight s \<noteq> []) \<and>
     (\<forall>old. tp_responding s = Exchanged old \<longrightarrow> old \<noteq> Canceled))"

lemmas pub_defs = pub_header_length_read_def pub_readHeaderContent_def pub_header_content_read_def pub_discardData_def
  pub_data_discarded_def pub_readPayload_def pub_payload_read_def pub_start_read_def sessionClosedHandler_def
  sendProtocolHandshakeResponse_def sendBufferToClient_def response_exchange_def response_restore_def
  sendDataBuffer_def buffer_sent_def pub_cancel_def Let_def

lemma unanswered_step:
  assumes "tcp_pub_step s t" and "unanswered s"
  shows "unanswered t \<or> hs_answered t"
  using assms(1)
proof cases
  case (pub_reads op outcome allocated)
  with assms(2) have "tp_reads s = [op]" by (cases "tp_reads s") (auto simp: unanswered_def)
  with pub_reads assms(2) show ?thesis
    by (cases op; cases outcome) (auto simp: unanswered_def hs_answered_def pub_defs)
next
  case (pub_sent buffer ec)
  with assms(2) show ?thesis by (simp add: unanswered_def)
qed (use assms(2) in \<open>auto simp: unanswered_def pub_defs\<close>)

lemma length_remove1_less: "x \<in> set xs \<Longrightarrow> length xs \<le> Suc n \<Longrightarrow> length (remove1 x xs) \<le> n"
  by (simp add: length_remove1)

lemma hs_answered_step:
  assumes "tcp_pub_step s t" and "hs_answered s"
  shows "hs_answered t"
  using assms(1)
proof cases
  case (pub_sent buffer ec)
  show ?thesis
  proof (cases "tp_sending_in_progress s")
    case True
    with length_remove1_less [OF pub_sent(2), of 1] pub_sent assms(2) show ?thesis
      by (auto simp: hs_answered_def pub_defs split: option.splits)
  next
    case False
    with length_remove1_less [OF pub_sent(2), of 0] pub_sent assms(2) show ?thesis
      by (auto simp: hs_answered_def pub_defs split: option.splits)
  qed
qed (use assms(2) in \<open>auto simp: hs_answered_def pub_defs\<close>)

lemma pub_accounted_step:
  assumes "tcp_pub_step s t" and "unanswered s \<or> hs_answered s" and "pub_accounted s"
  shows "pub_accounted t"
  using assms(1)
proof cases
  case (pub_reads op outcome allocated)
  with assms(2,3) have "tp_started s = []" by (auto simp: unanswered_def hs_answered_def)
  with pub_reads assms(3) show ?thesis
    by (cases op; cases outcome) (auto simp: pub_accounted_def waiting_data_def pub_defs)
next
  case (pub_sent buffer ec)
  with assms(2) have "tp_started s \<noteq> []" by (auto simp: unanswered_def hs_answered_def)
  with pub_sent assms(3) show ?thesis
    by (auto simp: pub_accounted_def waiting_data_def pub_defs tl_append2 split: option.splits)
next
  case (pub_sends buffer)
  have sub: "A + B \<subseteq># C \<Longrightarrow> A + {#b#} \<subseteq># add_mset b C" for A B C :: "bytes multiset" and b
    by (metis add_mset_add_single mset_subset_eq_add_left mset_subset_eq_mono_add_right_cancel subset_mset.trans)
  from assms(2) have "tp_state s = Running \<Longrightarrow> tp_started s \<noteq> []" by (auto simp: unanswered_def hs_answered_def)
  with pub_sends assms(3) sub [of "mset (tl (tp_started s))" "mset (waiting_data s)"] show ?thesis
    by (auto simp: pub_accounted_def waiting_data_def pub_defs tl_append2 union_ac intro: subset_mset.trans split: option.splits)
qed (use assms(3) in \<open>auto simp: pub_accounted_def waiting_data_def pub_defs\<close>)


lemma pub_awake_step:
  assumes "tcp_pub_step s t" and "unanswered s \<or> hs_answered s" and "pub_awake s"
  shows "pub_awake t"
  using assms(1)
proof cases
  case (pub_reads op outcome allocated)
  then have "tp_reads s \<noteq> []" by auto
  with assms(2) have "unanswered s" by (auto simp: hs_answered_def)
  with pub_reads assms(3) show ?thesis
    by (cases op; cases outcome) (auto simp: pub_awake_def unanswered_def pub_defs strand_free_def)
next
  case (pub_sent buffer ec)
  with assms(3) show ?thesis by (auto simp: pub_awake_def pub_defs strand_free_def split: option.splits)
next
  case (pub_sends buffer)
  with assms(2,3) show ?thesis by (auto simp: pub_awake_def pub_defs)
qed (use assms(2,3) in \<open>auto simp: pub_awake_def unanswered_def pub_defs\<close>)


definition tcp_pub_inv :: "PublisherSession \<Rightarrow> bool" where
  "tcp_pub_inv s \<longleftrightarrow> (unanswered s \<or> hs_answered s) \<and> pub_accounted s \<and> pub_awake s"

interpretation tcp_pub: step_invariant tcp_pub_init tcp_pub_step tcp_pub_inv
proof
  show "tcp_pub_inv s" if "tcp_pub_init s" for s
    using that by (simp add: tcp_pub_init_def pub_start_def receiveTcpPacket_def pub_readHeaderLength_def pub_start_read_def
      PublisherSession_new_def tcp_pub_inv_def unanswered_def pub_accounted_def waiting_data_def pub_awake_def)
  show "tcp_pub_inv t" if "tcp_pub_step s t" "tcp_pub_inv s" for s t
    using that unanswered_step hs_answered_step pub_accounted_step pub_awake_step unfolding tcp_pub_inv_def by blast
qed

text \<open>A publisher session writes nothing before the answer to the handshake and after it only buffers it was given, each
  at most as often as it was given. At most two writes are outstanding at a time, and while the
  session has not been closed a buffer that waits in the running session has a write before it whose completion will send it.\<close>

theorem publisher_sends_what_it_was_given:
  assumes "tcp_pub_init s0" and "tcp_pub_step\<^sup>*\<^sup>* s0 s"
  shows "(tp_started s = [] \<or> hd (tp_started s) = handshake_buffer) \<and>
    mset (tl (tp_started s)) + mset (waiting_data s) \<subseteq># mset (tp_given s) \<and>
    length (tp_in_flight s) \<le> 2 \<and>
    (tp_closed_calls s = 0 \<and> tp_state s = Running \<and> tp_next_buffer_to_send s \<noteq> None \<longrightarrow> tp_in_flight s \<noteq> [])"
  using tcp_pub.reachable_inv [OF assms]
  by (auto simp: tcp_pub_inv_def unanswered_def hs_answered_def pub_accounted_def pub_awake_def split: if_splits)


subsection \<open>The queue of one element\<close>

text \<open>Once the answer to the handshake is written and before anything else was handed over, the session is settled.\<close>

definition pub_settled :: "PublisherSession \<Rightarrow> bool" where
  "pub_settled s \<longleftrightarrow> tp_state s = Running \<and> tp_reads s = [] \<and> tp_in_flight s = [] \<and> tp_responding s = NotResponding \<and>
     \<not> tp_sending_in_progress s \<and> tp_next_buffer_to_send s = None"

definition queue_shape :: "bytes list \<Rightarrow> bytes list \<Rightarrow> PublisherSession \<Rightarrow> bool" where
  "queue_shape xs ys s \<longleftrightarrow> tp_reads s = [] \<and> tp_responding s = NotResponding \<and>
     (tp_state s = Running \<or> tp_state s = Canceled) \<and> subseq (xs @ waiting_data s) ys \<and>
     (tp_state s = Running \<longrightarrow>
        tp_in_flight s = (if tp_sending_in_progress s then [last xs] else []) \<and>
        (tp_sending_in_progress s \<longrightarrow> xs \<noteq> []) \<and>
        (tp_next_buffer_to_send s \<noteq> None \<longrightarrow> tp_sending_in_progress s) \<and>
        (ys \<noteq> [] \<longrightarrow> xs @ waiting_data s \<noteq> [] \<and> last (xs @ waiting_data s) = last ys))"

definition queue_ok :: "bytes list \<Rightarrow> bytes list \<Rightarrow> PublisherSession \<Rightarrow> bool" where
  "queue_ok started given s \<longleftrightarrow>
     (\<exists>xs ys. tp_started s = started @ xs \<and> tp_given s = given @ ys \<and> queue_shape xs ys s)"

lemma queue_okI:
  "tp_started s = started @ xs \<Longrightarrow> tp_given s = given @ ys \<Longrightarrow> queue_shape xs ys s \<Longrightarrow> queue_ok started given s"
  by (auto simp: queue_ok_def)

lemma queue_ok_sent:
  assumes "queue_ok started given s" and "buffer \<in> set (tp_in_flight s)"
  shows "queue_ok started given (buffer_sent ec (s\<lparr>tp_in_flight := remove1 buffer (tp_in_flight s)\<rparr>))"
proof -
  from assms(1) obtain xs ys where q: "tp_started s = started @ xs" "tp_given s = given @ ys" "queue_shape xs ys s"
    by (auto simp: queue_ok_def)
  consider "ec" | "\<not> ec" "tp_state s = Canceled" | "\<not> ec" "tp_state s = Running" "tp_next_buffer_to_send s = None"
    | b where "\<not> ec" "tp_state s = Running" "tp_next_buffer_to_send s = Some b"
    using q(3) by (cases "tp_next_buffer_to_send s") (auto simp: queue_shape_def)
  then show ?thesis
  proof cases
    case 4
    with q assms(2) show ?thesis
      by (intro queue_okI [of _ _ "xs @ [b]" _ ys]) (auto simp: queue_shape_def pub_defs waiting_data_def split: if_splits)
  qed (use q assms(2) in \<open>intro queue_okI [of _ _ xs _ ys]; auto simp: queue_shape_def pub_defs waiting_data_def split: if_splits\<close>)+
qed

lemma queue_ok_sends:
  assumes "queue_ok started given s"
  shows "queue_ok started given (sendDataBuffer b s)"
proof -
  from assms obtain xs ys where q: "tp_started s = started @ xs" "tp_given s = given @ ys" "queue_shape xs ys s"
    by (auto simp: queue_ok_def)
  have "subseq (xs @ waiting_data s) ys" using q(3) by (simp add: queue_shape_def)
  then have "subseq xs ys" by (meson prefixI prefix_imp_subseq subseq_order.order_trans)
  then have newest: "subseq (xs @ [b]) (ys @ [b])" by (simp add: list_emb_append_mono)
  consider "tp_state s = Canceled" | "tp_state s = Running" "tp_sending_in_progress s"
    | "tp_state s = Running" "\<not> tp_sending_in_progress s" "tp_next_buffer_to_send s = None"
    using q(3) by (auto simp: queue_shape_def)
  then show ?thesis
  proof cases
    case 1
    with assms show ?thesis by (simp add: sendDataBuffer_def)
  next
    case 2
    with q newest show ?thesis
      by (intro queue_okI [of _ _ xs _ "ys @ [b]"]) (auto simp: queue_shape_def pub_defs waiting_data_def)
  next
    case 3
    with q newest show ?thesis
      by (intro queue_okI [of _ _ "xs @ [b]" _ "ys @ [b]"]) (auto simp: queue_shape_def pub_defs waiting_data_def)
  qed
qed

lemma queue_ok_cancels: "queue_ok started given s \<Longrightarrow> queue_ok started given (pub_cancel s)"
  by (auto simp: queue_ok_def queue_shape_def pub_defs waiting_data_def)

lemma queue_ok_step:
  assumes "tcp_pub_step s t" and q: "queue_ok started given s"
  shows "queue_ok started given t"
proof -
  have "tp_reads s = []" "tp_responding s = NotResponding" using q by (auto simp: queue_ok_def queue_shape_def)
  with assms show ?thesis
    by cases (simp_all add: queue_ok_sent queue_ok_sends queue_ok_cancels)
qed

interpretation settled_queue: step_invariant "\<lambda>s. pub_settled s \<and> tp_started s = started \<and> tp_given s = given"
    tcp_pub_step "queue_ok started given"
  for started given
proof
  show "queue_ok started given s" if "pub_settled s \<and> tp_started s = started \<and> tp_given s = given" for s
    using that by (intro queue_okI [of _ _ "[]" _ "[]"]) (simp_all add: queue_shape_def pub_settled_def waiting_data_def)
qed (rule queue_ok_step)



subsection \<open>The handshake and the queue\<close>

definition handshake_header :: TcpHeader where
  "handshake_header =
     \<lparr>th_header_size = of_nat sizeof_TcpHeader, th_type = ProtocolHandshake, th_reserved = 0, th_data_size = 1\<rparr>"

text \<open>The request of a subscriber, read to its end.\<close>

lemma request_is_read:
  assumes "tp_state s = Handshaking" and "tp_reads s = [PubReadingLength]" and "strand_free s"
  shows "tcp_pub_step\<^sup>*\<^sup>* s (sendProtocolHandshakeResponse (s\<lparr>tp_reads := []\<rparr>))"
proof -
  let ?h = handshake_header and ?a = "le_bytes 2 (th_header_size handshake_header)"
  let ?b = "drop 2 (header_image handshake_header)"
  let ?g = "fill_header TcpHeader_new 0 ?a"
  let ?s1 = "s\<lparr>tp_reads := [PubReadingContent ?g]\<rparr>" and ?s2 = "s\<lparr>tp_reads := [PubReadingPayload ?h]\<rparr>"
  have size: "th_header_size ?g = 12" using first_part_size [of 12] by (simp add: handshake_header_def sizeof_TcpHeader_def)
  have 1: "tcp_pub_step s ?s1"
    using pub_reads [of PubReadingLength s "Some ?a"] assms size
    by (simp add: pub_header_length_read_def pub_readHeaderContent_def pub_start_read_def sizeof_header_size_def)
  have 2: "tcp_pub_step ?s1 ?s2"
    using pub_reads [of "PubReadingContent ?g" ?s1 "Some ?b" True] assms size header_parts [of ?h]
    by (simp add: pub_header_content_read_def pub_readPayload_def pub_start_read_def bytes_to_discard_from_socket_def
      bytes_to_read_from_socket_def sizeof_TcpHeader_def sizeof_header_size_def strand_free_def handshake_header_def)
  have 3: "tcp_pub_step ?s2 (sendProtocolHandshakeResponse (s\<lparr>tp_reads := []\<rparr>))"
    using pub_reads [of "PubReadingPayload ?h" ?s2 "Some [0]" True] assms
    by (simp add: pub_payload_read_def strand_free_def handshake_header_def)
  from 1 2 3 show ?thesis by (meson rtranclp.rtrancl_into_rtrancl rtranclp.rtrancl_refl)
qed

definition demo_pub :: PublisherSession where
  "demo_pub = pub_start PublisherSession_new"

lemmas demo_pub_simps = demo_pub_def pub_start_def receiveTcpPacket_def pub_readHeaderLength_def pub_start_read_def
  PublisherSession_new_def strand_free_def sendProtocolHandshakeResponse_def sendBufferToClient_def
  response_exchange_def response_restore_def sendDataBuffer_def buffer_sent_def Let_def

text \<open>C26: A message handed over during the handshake is overtaken. The answer to the handshake is written without marking a
  write as under way; a message that comes while it is outstanding is written at once, the older message
  that waited is written after it, and both writes are outstanding on the same socket at the same time.\<close>

theorem handshake_lets_messages_overtake:
  "\<exists>s. tcp_pub_step\<^sup>*\<^sup>* (pub_start PublisherSession_new) s \<and> tp_given s = [older, newer] \<and>
     tp_started s = [handshake_buffer, newer, older] \<and> tp_in_flight s = [newer, older] \<and> tp_state s = Running"
proof -
  let ?s1 = "sendDataBuffer older demo_pub"
  let ?s2 = "sendProtocolHandshakeResponse (?s1\<lparr>tp_reads := []\<rparr>)"
  let ?s3 = "response_exchange ?s2"
  let ?s4 = "response_restore Handshaking ?s3"
  let ?s5 = "sendDataBuffer newer ?s4"
  let ?s6 = "buffer_sent False (?s5\<lparr>tp_in_flight := remove1 handshake_buffer (tp_in_flight ?s5)\<rparr>)"
  have "tcp_pub_step demo_pub ?s1" by (rule pub_sends) (simp add: demo_pub_simps)
  moreover have "tcp_pub_step\<^sup>*\<^sup>* ?s1 ?s2" by (rule request_is_read) (simp_all add: demo_pub_simps)
  moreover have "tcp_pub_step ?s2 ?s3" by (rule pub_exchanges) (simp_all add: demo_pub_simps)
  moreover have "tcp_pub_step ?s3 ?s4" by (rule pub_restores) (simp_all add: demo_pub_simps)
  moreover have "tcp_pub_step ?s4 ?s5" by (rule pub_sends) (simp add: demo_pub_simps)
  moreover have "tcp_pub_step ?s5 ?s6" by (rule pub_sent) (simp_all add: demo_pub_simps)
  ultimately have "tcp_pub_step\<^sup>*\<^sup>* demo_pub ?s6"
    by (meson converse_rtranclp_into_rtranclp rtranclp.rtrancl_into_rtrancl)
  then show ?thesis by (intro exI [of _ ?s6]) (simp add: demo_pub_simps)
qed

subsection \<open>Runs\<close>

definition demo_settled :: PublisherSession where
  "demo_settled = PublisherSession_new\<lparr>tp_state := Running, tp_started := [handshake_buffer]\<rparr>"

lemma demo_settled_reached: "tcp_pub_step\<^sup>*\<^sup>* demo_pub demo_settled"
proof -
  let ?s2 = "sendProtocolHandshakeResponse (demo_pub\<lparr>tp_reads := []\<rparr>)"
  let ?s3 = "response_exchange ?s2"
  let ?s4 = "response_restore Handshaking ?s3"
  let ?s5 = "buffer_sent False (?s4\<lparr>tp_in_flight := remove1 handshake_buffer (tp_in_flight ?s4)\<rparr>)"
  have "tcp_pub_step\<^sup>*\<^sup>* demo_pub ?s2" by (rule request_is_read) (simp_all add: demo_pub_simps)
  moreover have "tcp_pub_step ?s2 ?s3" by (rule pub_exchanges) (simp_all add: demo_pub_simps)
  moreover have "tcp_pub_step ?s3 ?s4" by (rule pub_restores) (simp_all add: demo_pub_simps)
  moreover have "tcp_pub_step ?s4 ?s5" by (rule pub_sent) (simp_all add: demo_pub_simps)
  moreover have "?s5 = demo_settled" by (simp add: demo_settled_def demo_pub_simps)
  ultimately show ?thesis by (metis rtranclp.rtrancl_into_rtrancl)
qed

theorem publisher_sends_what_it_was_given_witness:
  "hd (tp_started demo_settled) = handshake_buffer \<and> length (tp_in_flight demo_settled) \<le> 2"
  using publisher_sends_what_it_was_given [of demo_pub demo_settled] demo_settled_reached
  by (simp add: tcp_pub_init_def demo_settled_def demo_pub_def)


end
