(* ===== verification/Tcp_Publisher.thy ===== *)
theory Tcp_Publisher
  imports Tcp_Publisher_Session
begin

text \<open>
  The publisher, \<open>publisher_impl.cpp\<close>: an acceptor, the list of its sessions, and \<open>send\<close>, which hands one
  buffer to every session of the list. Session objects have numbers in the order of their creation. The error codes of the
  acceptor are arguments, and so is what the buffer from the pool held before.

  The handler of an accepted connection starts the session and then, in a critical section of its own, adds it to
  the list; in between the session lives already.
\<close>

subsection \<open>The publisher\<close>

text \<open>\<open>pi_accepting\<close> is the session the acceptor waits for, \<open>pi_starting\<close> are those started and not in the list yet.\<close>

record Publisher_Impl =
  pi_is_running :: bool
  pi_acceptor_open :: bool
  pi_publisher_sessions :: "nat list"
  pi_objects :: "PublisherSession list"
  pi_accepting :: "nat option"
  pi_starting :: "nat list"

definition Publisher_Impl_new :: Publisher_Impl where
  "Publisher_Impl_new = \<lparr>pi_is_running = False, pi_acceptor_open = False, pi_publisher_sessions = [], pi_objects = [],
     pi_accepting = None, pi_starting = []\<rparr>"

definition acceptClient :: "Publisher_Impl \<Rightarrow> Publisher_Impl" where
  "acceptClient p = p\<lparr>pi_objects := pi_objects p @ [PublisherSession_new], pi_accepting := Some (length (pi_objects p))\<rparr>"

text \<open>Error codes in the order in which \<open>start\<close> asks for them.\<close>

record AcceptorCalls =
  make_address_ec :: bool
  open_ec :: bool
  reuse_address_ec :: bool
  bind_ec :: bool
  listen_ec :: bool

definition Publisher_start :: "AcceptorCalls \<Rightarrow> Publisher_Impl \<Rightarrow> bool \<times> Publisher_Impl" where
  "Publisher_start calls p =
     (if make_address_ec calls then (False, p)
      else if open_ec calls then (False, p)
      else let p = p\<lparr>pi_acceptor_open := True\<rparr> in
        if reuse_address_ec calls then (False, p)
        else if bind_ec calls then (False, p)
        else if listen_ec calls then (False, p)
        else (True, acceptClient (p\<lparr>pi_is_running := True\<rparr>)))"

definition session_started :: "bool \<Rightarrow> Publisher_Impl \<Rightarrow> Publisher_Impl" where
  "session_started ec p =
     (case pi_accepting p of
        None \<Rightarrow> p
      | Some i \<Rightarrow>
          if ec then p\<lparr>pi_accepting := None\<rparr>
          else p\<lparr>pi_accepting := None, pi_objects := (pi_objects p)[i := pub_start (pi_objects p ! i)],
                 pi_starting := pi_starting p @ [i]\<rparr>)"

definition session_listed :: "nat \<Rightarrow> Publisher_Impl \<Rightarrow> Publisher_Impl" where
  "session_listed i p =
     acceptClient (p\<lparr>pi_starting := remove1 i (pi_starting p), pi_publisher_sessions := pi_publisher_sessions p @ [i]\<rparr>)"

definition publisher_session_closed_handler :: "nat \<Rightarrow> Publisher_Impl \<Rightarrow> Publisher_Impl" where
  "publisher_session_closed_handler i p =
     (if i \<in> set (pi_publisher_sessions p) then p\<lparr>pi_publisher_sessions := remove1 i (pi_publisher_sessions p)\<rparr> else p)"

text \<open>An operation on a session object; the handler runs if the operation closed the session.\<close>

definition on_session :: "nat \<Rightarrow> PublisherSession \<Rightarrow> Publisher_Impl \<Rightarrow> Publisher_Impl" where
  "on_session i t p =
     (let q = p\<lparr>pi_objects := (pi_objects p)[i := t]\<rparr> in
      if tp_closed_calls (pi_objects p ! i) < tp_closed_calls t then publisher_session_closed_handler i q else q)"

definition Publisher_send :: "bytes \<Rightarrow> Payload list \<Rightarrow> Publisher_Impl \<Rightarrow> bool \<times> Publisher_Impl" where
  "Publisher_send recycled payloads p =
     (if \<not> pi_is_running p then (False, p)
      else if pi_publisher_sessions p = [] then (True, p)
      else (True, fold (\<lambda>i q. on_session i (sendDataBuffer (fill_buffer recycled payloads) (pi_objects q ! i)) q)
        (pi_publisher_sessions p) p))"

definition Publisher_cancel :: "Publisher_Impl \<Rightarrow> Publisher_Impl" where
  "Publisher_cancel p =
     (let p = p\<lparr>pi_acceptor_open := False, pi_is_running := False\<rparr> in
      fold (\<lambda>i q. on_session i (pub_cancel (pi_objects q ! i)) q) (pi_publisher_sessions p) p)"

definition getPort :: "u16 option \<Rightarrow> Publisher_Impl \<Rightarrow> u16" where
  "getPort local_endpoint p =
     (if pi_is_running p then case local_endpoint of None \<Rightarrow> 0 | Some port \<Rightarrow> port else 0)"

definition getSubscriberCount :: "Publisher_Impl \<Rightarrow> nat" where
  "getSubscriberCount p = length (pi_publisher_sessions p)"

definition isRunning :: "Publisher_Impl \<Rightarrow> bool" where
  "isRunning p = pi_is_running p"


subsection \<open>Steps\<close>

inductive publisher_step :: "Publisher_Impl \<Rightarrow> Publisher_Impl \<Rightarrow> bool" where
  accepts: "pi_accepting p \<noteq> None \<Longrightarrow> publisher_step p (session_started ec p)"
| lists: "i \<in> set (pi_starting p) \<Longrightarrow> publisher_step p (session_listed i p)"
| session_moves: "i < length (pi_objects p) \<Longrightarrow> pi_accepting p \<noteq> Some i \<Longrightarrow> tcp_pub_step (pi_objects p ! i) t \<Longrightarrow> publisher_step p (on_session i t p)"
| sends: "publisher_step p (snd (Publisher_send recycled payloads p))"
| publisher_cancels: "publisher_step p (Publisher_cancel p)"

definition publisher_init :: "Publisher_Impl \<Rightarrow> bool" where
  "publisher_init p \<longleftrightarrow> (\<exists>calls. Publisher_start calls Publisher_Impl_new = (True, p))"


subsection \<open>What \<open>send\<close> does\<close>

lemma on_session_objects [simp]: "pi_objects (on_session i t p) = (pi_objects p)[i := t]"
  by (simp add: on_session_def publisher_session_closed_handler_def Let_def)

lemma sendDataBuffer_closed [simp]: "tp_closed_calls (sendDataBuffer b s) = tp_closed_calls s"
  by (simp add: sendDataBuffer_def sendBufferToClient_def Let_def)

lemma on_session_send [simp]:
  "on_session i (sendDataBuffer b (pi_objects p ! i)) p = p\<lparr>pi_objects := (pi_objects p)[i := sendDataBuffer b (pi_objects p ! i)]\<rparr>"
  by (simp add: on_session_def Let_def)

lemma fold_send:
  assumes "distinct is" and "\<forall>i \<in> set is. i < length (pi_objects p)"
  shows "fold (\<lambda>i q. on_session i (sendDataBuffer b (pi_objects q ! i)) q) is p =
    p\<lparr>pi_objects := map (\<lambda>j. if j \<in> set is then sendDataBuffer b (pi_objects p ! j) else pi_objects p ! j) [0..<length (pi_objects p)]\<rparr>"
  using assms
proof (induction "is" arbitrary: p)
  case Nil
  then show ?case by (simp add: map_nth)
next
  case (Cons i "is")
  let ?q = "p\<lparr>pi_objects := (pi_objects p)[i := sendDataBuffer b (pi_objects p ! i)]\<rparr>"
  have "fold (\<lambda>i q. on_session i (sendDataBuffer b (pi_objects q ! i)) q) is ?q =
    ?q\<lparr>pi_objects := map (\<lambda>j. if j \<in> set is then sendDataBuffer b (pi_objects ?q ! j) else pi_objects ?q ! j) [0..<length (pi_objects ?q)]\<rparr>"
    using Cons.prems by (intro Cons.IH) auto
  also have "\<dots> = p\<lparr>pi_objects := map (\<lambda>j. if j \<in> set (i # is) then sendDataBuffer b (pi_objects p ! j) else pi_objects p ! j)
      [0..<length (pi_objects p)]\<rparr>"
    using Cons.prems by (auto simp: nth_list_update intro!: arg_cong [where f = "\<lambda>xs. p\<lparr>pi_objects := xs\<rparr>"])
  finally show ?case by simp
qed


subsection \<open>The lists\<close>

definition lists_ok :: "Publisher_Impl \<Rightarrow> bool" where
  "lists_ok p \<longleftrightarrow> distinct (pi_publisher_sessions p @ pi_starting p) \<and>
     (\<forall>i \<in> set (pi_publisher_sessions p @ pi_starting p). i < length (pi_objects p) \<and> pi_accepting p \<noteq> Some i) \<and>
     (\<forall>i. pi_accepting p = Some i \<longrightarrow> i < length (pi_objects p))"

lemma lists_ok_on_session: "lists_ok p \<Longrightarrow> lists_ok (on_session i t p)"
  by (auto simp: lists_ok_def on_session_def publisher_session_closed_handler_def Let_def
    dest: notin_set_remove1 set_remove1_subset [THEN subsetD])

lemma lists_ok_fold: "lists_ok p \<Longrightarrow> lists_ok (fold (\<lambda>i q. on_session i (f i q) q) is p)"
  by (induction "is" arbitrary: p) (simp_all add: lists_ok_on_session)

lemma lists_ok_step:
  assumes "publisher_step p q" and l: "lists_ok p"
  shows "lists_ok q"
  using assms(1)
proof cases
  case (accepts ec)
  with l show ?thesis by (cases ec) (auto simp: lists_ok_def session_started_def)
next
  case (lists i)
  with l show ?thesis
    by (auto simp: lists_ok_def session_listed_def acceptClient_def less_Suc_eq dest: set_remove1_subset [THEN subsetD])
next
  case (sends recycled payloads)
  with l show ?thesis by (simp add: Publisher_send_def lists_ok_fold del: on_session_send)
next
  case publisher_cancels
  moreover have "lists_ok (p\<lparr>pi_acceptor_open := False, pi_is_running := False\<rparr>)" using l by (simp add: lists_ok_def)
  ultimately show ?thesis by (simp add: Publisher_cancel_def lists_ok_fold)
qed (use l lists_ok_on_session in simp)

lemma lists_ok_init: "publisher_init p \<Longrightarrow> lists_ok p"
  by (auto simp: publisher_init_def Publisher_start_def acceptClient_def Publisher_Impl_new_def lists_ok_def Let_def
    split: if_splits)

interpretation publisher_lists: step_invariant publisher_init publisher_step lists_ok
  by unfold_locales (auto intro: lists_ok_init lists_ok_step)

text \<open>Sending on a running publisher succeeds and hands to every session of the list, and to no other, the frame of the
  concatenated payloads, whatever the recycled buffer held; the list of sessions stays as it is.\<close>

theorem send_reaches_every_session:
  assumes "publisher_init p0" and "publisher_step\<^sup>*\<^sup>* p0 p" and "pi_is_running p" and "payloads_given payloads"
    and "i < length (pi_objects p)"
  shows "fst (Publisher_send recycled payloads p) \<and>
    pi_publisher_sessions (snd (Publisher_send recycled payloads p)) = pi_publisher_sessions p \<and>
    pi_objects (snd (Publisher_send recycled payloads p)) ! i =
      (if i \<in> set (pi_publisher_sessions p) then sendDataBuffer (frame (concat (map payload_bytes payloads))) (pi_objects p ! i)
       else pi_objects p ! i)"
proof -
  from publisher_lists.reachable_inv [OF assms(1,2)]
  have "distinct (pi_publisher_sessions p)" "\<forall>i \<in> set (pi_publisher_sessions p). i < length (pi_objects p)"
    by (auto simp: lists_ok_def)
  from fold_send [OF this] assms(3-5) show ?thesis
    by (auto simp: Publisher_send_def fill_buffer_frame)
qed


subsection \<open>A session that closes before it is listed\<close>

lemma canceled_stays:
  assumes "tcp_pub_step s t" and "tp_state s = Canceled" and "tp_responding s = NotResponding"
  shows "tp_state t = Canceled \<and> tp_responding t = NotResponding \<and> tp_closed_calls t = tp_closed_calls s"
  using assms(1)
proof cases
  case (pub_reads op outcome allocated)
  with assms(2,3) show ?thesis by (cases op; cases outcome) (simp_all add: pub_defs)
qed (use assms(2,3) in \<open>simp_all add: pub_defs\<close>)

definition listed_dead :: "nat \<Rightarrow> Publisher_Impl \<Rightarrow> bool" where
  "listed_dead i p \<longleftrightarrow> lists_ok p \<and> i \<in> set (pi_publisher_sessions p) \<and> tp_state (pi_objects p ! i) = Canceled \<and>
     tp_responding (pi_objects p ! i) = NotResponding"

lemma listed_dead_on_session:
  assumes "listed_dead i p" and "j = i \<Longrightarrow> tp_state t = Canceled \<and> tp_responding t = NotResponding \<and>
      tp_closed_calls t = tp_closed_calls (pi_objects p ! i)"
  shows "listed_dead i (on_session j t p)"
proof -
  have "i \<in> set (pi_publisher_sessions (on_session j t p))"
    using assms by (cases "j = i") (auto simp: listed_dead_def on_session_def publisher_session_closed_handler_def Let_def)
  moreover have "i < length (pi_objects p)" using assms(1) by (auto simp: listed_dead_def lists_ok_def)
  ultimately show ?thesis
    using assms lists_ok_on_session [of p j t] by (cases "j = i") (simp_all add: listed_dead_def)
qed

lemma dead_operations:
  assumes "listed_dead i p"
  shows "sendDataBuffer b (pi_objects p ! i) = pi_objects p ! i" and "pub_cancel (pi_objects p ! i) = pi_objects p ! i"
  using assms by (simp_all add: listed_dead_def sendDataBuffer_def pub_cancel_def sessionClosedHandler_def)

lemma listed_dead_fold:
  assumes "listed_dead i p" and "\<And>q. listed_dead i q \<Longrightarrow> f i q = pi_objects q ! i"
  shows "listed_dead i (fold (\<lambda>j q. on_session j (f j q) q) is p)"
  using assms(1)
proof (induction "is" arbitrary: p)
  case (Cons j "is")
  have "listed_dead i (on_session j (f j p) p)"
    using Cons.prems assms(2) by (intro listed_dead_on_session) (auto simp: listed_dead_def)
  with Cons.IH show ?case by simp
qed simp

lemma listed_dead_step:
  assumes "publisher_step p q" and d: "listed_dead i p"
  shows "listed_dead i q"
proof -
  have ok: "lists_ok q" using lists_ok_step [OF assms(1)] d by (simp add: listed_dead_def)
  from d have i: "i < length (pi_objects p)" "pi_accepting p \<noteq> Some i" by (auto simp: listed_dead_def lists_ok_def)
  from assms(1) show ?thesis
  proof cases
    case (accepts ec)
    with d ok i show ?thesis by (cases ec) (auto simp: listed_dead_def session_started_def)
  next
    case (lists j)
    with d ok i show ?thesis by (auto simp: listed_dead_def session_listed_def acceptClient_def nth_append)
  next
    case (session_moves j t)
    have "tp_state t = Canceled \<and> tp_responding t = NotResponding \<and> tp_closed_calls t = tp_closed_calls (pi_objects p ! i)"
      if "j = i" using session_moves(4) d that canceled_stays [of "pi_objects p ! i" t] by (simp add: listed_dead_def)
    with listed_dead_on_session [OF d, of j t] session_moves(1) show ?thesis by simp
  next
    case (sends recycled payloads)
    with d show ?thesis by (auto simp: Publisher_send_def dead_operations simp del: on_session_send intro: listed_dead_fold)
  next
    case publisher_cancels
    moreover have "listed_dead i (p\<lparr>pi_acceptor_open := False, pi_is_running := False\<rparr>)"
      using d by (simp add: listed_dead_def lists_ok_def)
    ultimately show ?thesis by (auto simp: Publisher_cancel_def dead_operations intro: listed_dead_fold)
  qed
qed

interpretation dead_session: step_invariant "listed_dead i" publisher_step "listed_dead i" for i
  by unfold_locales (auto intro: listed_dead_step)

definition demo_publisher :: Publisher_Impl where
  "demo_publisher = Publisher_Impl_new\<lparr>pi_is_running := True, pi_acceptor_open := True, pi_objects := [PublisherSession_new],
     pi_accepting := Some 0\<rparr>"

lemma demo_publisher_init: "publisher_init demo_publisher"
  unfolding publisher_init_def
  by (rule exI [of _ "\<lparr>make_address_ec = False, open_ec = False, reuse_address_ec = False, bind_ec = False, listen_ec = False\<rparr>"])
    (simp add: Publisher_start_def demo_publisher_def Publisher_Impl_new_def acceptClient_def)

lemma demo_dead:
  "\<exists>p. publisher_step\<^sup>*\<^sup>* demo_publisher p \<and> listed_dead 0 p"
proof -
  let ?p1 = "session_started False demo_publisher"
  let ?t = "sessionClosedHandler (demo_pub\<lparr>tp_reads := []\<rparr>)"
  let ?p2 = "on_session 0 ?t ?p1"
  let ?p3 = "session_listed 0 ?p2"
  have o: "pi_objects ?p1 = [demo_pub]" "pi_starting ?p1 = [0]" "pi_accepting ?p1 = None" "pi_publisher_sessions ?p1 = []"
    by (simp_all add: session_started_def demo_publisher_def demo_pub_def Publisher_Impl_new_def)
  have 1: "publisher_step demo_publisher ?p1" by (rule accepts) (simp add: demo_publisher_def)
  have "tcp_pub_step demo_pub ?t"
    using pub_reads [of PubReadingLength demo_pub None True]
    by (simp add: demo_pub_simps pub_header_length_read_def)
  then have 2: "publisher_step ?p1 ?p2" using o by (intro session_moves) simp_all
  have 3: "publisher_step ?p2 ?p3"
    using o by (intro lists) (simp add: on_session_def publisher_session_closed_handler_def Let_def)
  have "listed_dead 0 ?p3"
    using o by (auto simp: listed_dead_def lists_ok_def session_listed_def acceptClient_def on_session_def
      publisher_session_closed_handler_def sessionClosedHandler_def Let_def demo_pub_simps)
  with 1 2 3 show ?thesis by (meson rtranclp.rtrancl_into_rtrancl rtranclp.rtrancl_refl)
qed

text \<open>C31: A session that closes before it is added to the list is added all the same and stays there for good: no later step,
  cancelling the publisher included, removes it, so it keeps counting as a subscriber.\<close>

theorem closed_session_stays_listed:
  "\<exists>p. publisher_step\<^sup>*\<^sup>* demo_publisher p \<and> tp_state (pi_objects p ! 0) = Canceled \<and>
     (\<forall>q. publisher_step\<^sup>*\<^sup>* p q \<longrightarrow> 0 \<in> set (pi_publisher_sessions q) \<and> 0 < getSubscriberCount q)"
proof -
  from demo_dead obtain p where p: "publisher_step\<^sup>*\<^sup>* demo_publisher p" "listed_dead 0 p" by blast
  have "0 \<in> set (pi_publisher_sessions q) \<and> 0 < getSubscriberCount q" if "publisher_step\<^sup>*\<^sup>* p q" for q
    using dead_session.run_inv [OF that p(2)] by (auto simp: listed_dead_def getSubscriberCount_def)
  with p show ?thesis by (auto simp: listed_dead_def)
qed

theorem closed_session_stays_listed_witness: "\<exists>p. publisher_step\<^sup>*\<^sup>* demo_publisher p \<and> 0 < getSubscriberCount p"
  using closed_session_stays_listed by blast

theorem send_reaches_every_session_witness: "fst (Publisher_send [7] [(Some [1], 1)] demo_publisher)"
  using send_reaches_every_session [OF demo_publisher_init rtranclp.rtrancl_refl, of "[(Some [1], 1)]" 0 "[7]"]
  by (simp add: demo_publisher_def payloads_given_def)

end
