(* ===== verification/Tcp_Subscriber.thy ===== *)
theory Tcp_Subscriber
  imports Prelude "HOL-Library.Sublist"
begin

text \<open>
  The subscriber, \<open>subscriber_impl.cpp\<close>: its sessions, the one message it keeps for an asynchronous callback, and the
  callback thread. The sections under \<open>last_callback_data_mutex_\<close> are steps; the wait on the condition variable is
  split where it matters: after the predicate was found false the thread still holds the mutex until it blocks.
  \<open>callback_thread_stop_\<close> is atomic and set without the mutex. A wake-up without a notification is not
  a step, since nothing promises one.

  The sessions themselves are those of \<open>Tcp_Subscriber_Session\<close>; here they are numbers with the callback they were
  given last and a flag for being canceled. User callbacks are values of an arbitrary type.
\<close>

subsection \<open>The subscriber\<close>

datatype 'u SessionCallback = CallUser "'u option" | StoreData

datatype 'u ThreadPc = Entering 'u | Checked 'u | Blocked 'u | Executing 'u bytes | Exited

datatype 'u Request = SetTo 'u bool | CancelAll

datatype 'u CallerPc = Idle | Stopping "'u Request" | Joining "'u Request"

text \<open>\<open>si_stored\<close>, \<open>si_taken\<close>, \<open>si_synchronous_calls\<close> and \<open>si_cleared\<close> record what was stored for asynchronous callbacks, what their
  threads took and for which callback, the synchronous calls, and whether a stored message was ever cleared.\<close>

record 'u Subscriber_Impl =
  si_session_list :: "nat list"
  si_session_callback :: "nat \<Rightarrow> 'u SessionCallback"
  si_session_canceled :: "nat \<Rightarrow> bool"
  si_last_callback_data :: "bytes option"
  si_user_callback_is_synchronous :: bool
  si_synchronous_user_callback :: "'u option"
  si_callback_thread :: "nat option"
  si_threads :: "'u ThreadPc list"
  si_callback_thread_stop :: bool
  si_caller :: "'u CallerPc"
  si_stored :: "bytes list"
  si_taken :: "('u \<times> bytes) list"
  si_synchronous_calls :: "('u option \<times> bytes) list"
  si_cleared :: bool

definition Subscriber_Impl_new :: "'u Subscriber_Impl" where
  "Subscriber_Impl_new = \<lparr>si_session_list = [], si_session_callback = (\<lambda>_. CallUser None), si_session_canceled = (\<lambda>_. False),
     si_last_callback_data = None, si_user_callback_is_synchronous = True, si_synchronous_user_callback = None,
     si_callback_thread = None, si_threads = [], si_callback_thread_stop = True, si_caller = Idle, si_stored = [],
     si_taken = [], si_synchronous_calls = [], si_cleared = False\<rparr>"

definition setCallbackToSession :: "nat \<Rightarrow> 'u Subscriber_Impl \<Rightarrow> 'u Subscriber_Impl" where
  "setCallbackToSession session s =
     (if si_session_canceled s session then s
      else s\<lparr>si_session_callback := (si_session_callback s)(session :=
        if si_user_callback_is_synchronous s then CallUser (si_synchronous_user_callback s) else StoreData)\<rparr>)"

text \<open>The constructor of the session throws on an empty list.\<close>

definition addSession :: "(string \<times> u16) list \<Rightarrow> nat \<Rightarrow> 'u Subscriber_Impl \<Rightarrow> 'u Subscriber_Impl option" where
  "addSession publisher_list session s =
     (if publisher_list = [] then None
      else Some ((setCallbackToSession session s)\<lparr>si_session_list := si_session_list s @ [session]\<rparr>))"

definition subscriber_session_closed_handler :: "nat \<Rightarrow> 'u Subscriber_Impl \<Rightarrow> 'u Subscriber_Impl" where
  "subscriber_session_closed_handler session s =
     (if session \<in> set (si_session_list s) then s\<lparr>si_session_list := remove1 session (si_session_list s)\<rparr> else s)"

definition getSessions :: "'u Subscriber_Impl \<Rightarrow> nat list" where
  "getSessions s = si_session_list s"


subsection \<open>The callback thread\<close>

fun wake :: "'u ThreadPc \<Rightarrow> 'u ThreadPc" where
  "wake (Blocked callback) = Entering callback"
| "wake pc = pc"

definition notify_all :: "'u Subscriber_Impl \<Rightarrow> 'u Subscriber_Impl" where
  "notify_all s = s\<lparr>si_threads := map wake (si_threads s)\<rparr>"

definition thread_wait :: "nat \<Rightarrow> 'u \<Rightarrow> 'u Subscriber_Impl \<Rightarrow> 'u Subscriber_Impl" where
  "thread_wait t callback s =
     (if si_callback_thread_stop s then s\<lparr>si_threads := (si_threads s)[t := Exited]\<rparr>
      else case si_last_callback_data s of
          Some data \<Rightarrow> s\<lparr>si_threads := (si_threads s)[t := Executing callback data], si_last_callback_data := None,
            si_taken := si_taken s @ [(callback, data)]\<rparr>
        | None \<Rightarrow> s\<lparr>si_threads := (si_threads s)[t := Checked callback]\<rparr>)"

definition thread_block :: "nat \<Rightarrow> 'u \<Rightarrow> 'u Subscriber_Impl \<Rightarrow> 'u Subscriber_Impl" where
  "thread_block t callback s = s\<lparr>si_threads := (si_threads s)[t := Blocked callback]\<rparr>"

definition thread_executed :: "nat \<Rightarrow> 'u \<Rightarrow> 'u Subscriber_Impl \<Rightarrow> 'u Subscriber_Impl" where
  "thread_executed t callback s = s\<lparr>si_threads := (si_threads s)[t := Entering callback]\<rparr>"

text \<open>The functions that \<open>setCallbackToSession\<close> gives to a session.\<close>

definition session_callback :: "nat \<Rightarrow> bytes \<Rightarrow> 'u Subscriber_Impl \<Rightarrow> 'u Subscriber_Impl" where
  "session_callback session buffer s =
     (case si_session_callback s session of
        CallUser callback \<Rightarrow>
          if si_user_callback_is_synchronous s
          then s\<lparr>si_synchronous_calls := si_synchronous_calls s @ [(callback, buffer)]\<rparr> else s
      | StoreData \<Rightarrow>
          if \<not> si_user_callback_is_synchronous s
          then notify_all (s\<lparr>si_last_callback_data := Some buffer, si_stored := si_stored s @ [buffer]\<rparr>) else s)"


subsection \<open>Setting the callback, and cancelling\<close>

definition install_callback :: "'u \<Rightarrow> bool \<Rightarrow> 'u Subscriber_Impl \<Rightarrow> 'u Subscriber_Impl" where
  "install_callback callback synchronous_execution s =
     (let renew_synchronous_callbacks = synchronous_execution \<or> si_user_callback_is_synchronous s;
          s = (if synchronous_execution then
                 s\<lparr>si_synchronous_user_callback := Some callback, si_user_callback_is_synchronous := True,
                   si_last_callback_data := None, si_cleared := si_cleared s \<or> si_last_callback_data s \<noteq> None\<rparr>
               else
                 s\<lparr>si_synchronous_user_callback := None, si_user_callback_is_synchronous := False,
                   si_callback_thread_stop := False, si_callback_thread := Some (length (si_threads s)),
                   si_threads := si_threads s @ [Entering callback]\<rparr>) in
      if renew_synchronous_callbacks then fold setCallbackToSession (si_session_list s) s else s)"

definition delete_callback :: "'u Subscriber_Impl \<Rightarrow> 'u Subscriber_Impl" where
  "delete_callback s = s\<lparr>si_synchronous_user_callback := None, si_user_callback_is_synchronous := True\<rparr>"

fun finish_request :: "'u Request \<Rightarrow> 'u Subscriber_Impl \<Rightarrow> 'u Subscriber_Impl" where
  "finish_request (SetTo callback synchronous_execution) s = install_callback callback synchronous_execution (s\<lparr>si_caller := Idle\<rparr>)"
| "finish_request CancelAll s = delete_callback (s\<lparr>si_caller := Idle\<rparr>)"

text \<open>Both functions begin alike: \<open>cancel\<close> cancels the sessions, then both stop the callback thread, if there is one.\<close>

fun cancel_sessions :: "'u Request \<Rightarrow> 'u Subscriber_Impl \<Rightarrow> 'u Subscriber_Impl" where
  "cancel_sessions (SetTo callback synchronous_execution) s = s"
| "cancel_sessions CancelAll s =
     s\<lparr>si_session_canceled := (\<lambda>i. i \<in> set (si_session_list s) \<or> si_session_canceled s i)\<rparr>"

definition begin_request :: "'u Request \<Rightarrow> 'u Subscriber_Impl \<Rightarrow> 'u Subscriber_Impl" where
  "begin_request r s =
     (let s = cancel_sessions r s in
      case si_callback_thread s of
        None \<Rightarrow> finish_request r s
      | Some t \<Rightarrow> s\<lparr>si_callback_thread_stop := True, si_caller := Stopping r\<rparr>)"

definition notify_thread :: "'u Request \<Rightarrow> 'u Subscriber_Impl \<Rightarrow> 'u Subscriber_Impl" where
  "notify_thread r s = (notify_all s)\<lparr>si_caller := Joining r\<rparr>"

definition thread_joined :: "'u Request \<Rightarrow> 'u Subscriber_Impl \<Rightarrow> 'u Subscriber_Impl" where
  "thread_joined r s = finish_request r (s\<lparr>si_callback_thread := None\<rparr>)"

text \<open>The same from the callback itself: the thread cannot join itself and is detached.\<close>

definition request_from_callback :: "'u Request \<Rightarrow> 'u Subscriber_Impl \<Rightarrow> 'u Subscriber_Impl" where
  "request_from_callback r s =
     finish_request r ((notify_all ((cancel_sessions r s)\<lparr>si_callback_thread_stop := True\<rparr>))\<lparr>si_callback_thread := None\<rparr>)"


subsection \<open>Steps\<close>

definition mutex_free :: "'u Subscriber_Impl \<Rightarrow> bool" where
  "mutex_free s \<longleftrightarrow> list_all (\<lambda>pc. case pc of Checked _ \<Rightarrow> False | _ \<Rightarrow> True) (si_threads s)"

definition thread_at :: "nat \<Rightarrow> 'u ThreadPc \<Rightarrow> 'u Subscriber_Impl \<Rightarrow> bool" where
  "thread_at t pc s \<longleftrightarrow> t < length (si_threads s) \<and> si_threads s ! t = pc"

datatype 'u ImplEvent = Receives nat bytes | Thread nat | Caller | Sessions

inductive subscriber_step :: "'u ImplEvent \<Rightarrow> 'u Subscriber_Impl \<Rightarrow> 'u Subscriber_Impl \<Rightarrow> bool" where
  adds: "addSession publisher_list session s = Some t \<Longrightarrow> subscriber_step Sessions s t"
| closes: "subscriber_step Sessions s (subscriber_session_closed_handler session s)"
| receives: "\<not> si_session_canceled s session \<Longrightarrow> mutex_free s \<Longrightarrow>
    subscriber_step (Receives session buffer) s (session_callback session buffer s)"
| waits: "thread_at t (Entering callback) s \<Longrightarrow> mutex_free s \<Longrightarrow> subscriber_step (Thread t) s (thread_wait t callback s)"
| blocks: "thread_at t (Checked callback) s \<Longrightarrow> subscriber_step (Thread t) s (thread_block t callback s)"
| executed: "thread_at t (Executing callback data) s \<Longrightarrow> subscriber_step (Thread t) s (thread_executed t callback s)"
| begins: "si_caller s = Idle \<Longrightarrow> mutex_free s \<or> si_callback_thread s \<noteq> None \<Longrightarrow> subscriber_step Caller s (begin_request r s)"
| notifies: "si_caller s = Stopping r \<Longrightarrow> subscriber_step Caller s (notify_thread r s)"
| joins: "si_caller s = Joining r \<Longrightarrow> si_callback_thread s = Some t \<Longrightarrow> thread_at t Exited s \<Longrightarrow> mutex_free s \<Longrightarrow>
    subscriber_step Caller s (thread_joined r s)"
| from_callback: "si_caller s = Idle \<Longrightarrow> si_callback_thread s = Some t \<Longrightarrow> thread_at t (Executing callback data) s \<Longrightarrow>
    mutex_free s \<Longrightarrow> subscriber_step Caller s (request_from_callback r s)"

abbreviation subscriber_any :: "'u Subscriber_Impl \<Rightarrow> 'u Subscriber_Impl \<Rightarrow> bool" where
  "subscriber_any s t \<equiv> \<exists>e. subscriber_step e s t"


subsection \<open>The message kept\<close>

definition kept_message :: "'u Subscriber_Impl \<Rightarrow> bytes list" where
  "kept_message s = (case si_last_callback_data s of None \<Rightarrow> [] | Some data \<Rightarrow> [data])"

definition mailbox_ok :: "'u Subscriber_Impl \<Rightarrow> bool" where
  "mailbox_ok s \<longleftrightarrow> subseq (map snd (si_taken s) @ kept_message s) (si_stored s) \<and>
     (si_cleared s \<or> si_stored s = [] \<or> map snd (si_taken s) @ kept_message s \<noteq> [] \<and>
       last (map snd (si_taken s) @ kept_message s) = last (si_stored s))"

lemma mailbox_cong:
  assumes "si_taken t = si_taken s" and "si_last_callback_data t = si_last_callback_data s" and "si_stored t = si_stored s"
    and "si_cleared t = si_cleared s"
  shows "mailbox_ok t = mailbox_ok s"
  using assms by (simp add: mailbox_ok_def kept_message_def)

lemma mailbox_updates [simp]:
  "mailbox_ok (s\<lparr>si_caller := c\<rparr>) = mailbox_ok s" "mailbox_ok (s\<lparr>si_callback_thread_stop := b\<rparr>) = mailbox_ok s"
  "mailbox_ok (s\<lparr>si_callback_thread := t\<rparr>) = mailbox_ok s" "mailbox_ok (s\<lparr>si_threads := ts\<rparr>) = mailbox_ok s"
  "mailbox_ok (s\<lparr>si_session_list := l\<rparr>) = mailbox_ok s" "mailbox_ok (s\<lparr>si_session_callback := f\<rparr>) = mailbox_ok s"
  "mailbox_ok (s\<lparr>si_session_canceled := g\<rparr>) = mailbox_ok s" "mailbox_ok (s\<lparr>si_synchronous_calls := cs\<rparr>) = mailbox_ok s"
  "mailbox_ok (s\<lparr>si_synchronous_user_callback := u\<rparr>) = mailbox_ok s"
  "mailbox_ok (s\<lparr>si_user_callback_is_synchronous := b\<rparr>) = mailbox_ok s"
  by (simp_all add: mailbox_ok_def kept_message_def)

lemma fold_setCallback_mailbox:
  "si_taken (fold setCallbackToSession is s) = si_taken s \<and>
   si_last_callback_data (fold setCallbackToSession is s) = si_last_callback_data s \<and>
   si_stored (fold setCallbackToSession is s) = si_stored s \<and> si_cleared (fold setCallbackToSession is s) = si_cleared s \<and>
   si_threads (fold setCallbackToSession is s) = si_threads s \<and>
   si_callback_thread_stop (fold setCallbackToSession is s) = si_callback_thread_stop s \<and>
   si_callback_thread (fold setCallbackToSession is s) = si_callback_thread s \<and>
   si_caller (fold setCallbackToSession is s) = si_caller s"
  by (induction "is" arbitrary: s) (simp_all add: setCallbackToSession_def)

lemma mailbox_clear:
  "mailbox_ok s \<Longrightarrow> mailbox_ok (s\<lparr>si_last_callback_data := None, si_cleared := si_cleared s \<or> si_last_callback_data s \<noteq> None\<rparr>)"
  by (auto simp: mailbox_ok_def kept_message_def split: option.splits
    intro: subseq_order.order_trans [OF prefix_imp_subseq [OF prefixI]])

lemma mailbox_install: "mailbox_ok s \<Longrightarrow> mailbox_ok (install_callback callback sync s)"
proof (cases sync)
  case True
  assume "mailbox_ok s"
  from mailbox_clear [OF this] True show ?thesis
    by (subst mailbox_cong [of _ "s\<lparr>si_last_callback_data := None, si_cleared := si_cleared s \<or> si_last_callback_data s \<noteq> None\<rparr>"])
      (simp_all add: install_callback_def Let_def fold_setCallback_mailbox)
next
  case False
  assume "mailbox_ok s"
  then show ?thesis
    using False by (subst mailbox_cong [of _ s]) (simp_all add: install_callback_def Let_def fold_setCallback_mailbox)
qed

lemma mailbox_finish: "mailbox_ok s \<Longrightarrow> mailbox_ok (finish_request r s)"
  by (cases r) (simp_all add: mailbox_install delete_callback_def)

lemma mailbox_requests:
  assumes "mailbox_ok s"
  shows "mailbox_ok (begin_request r s)" and "mailbox_ok (request_from_callback r s)" and "mailbox_ok (thread_joined r s)"
proof -
  have c: "mailbox_ok (cancel_sessions r s)" using assms by (cases r) simp_all
  then show "mailbox_ok (begin_request r s)"
    by (simp add: begin_request_def Let_def mailbox_finish split: option.splits)
  from c show "mailbox_ok (request_from_callback r s)" by (simp add: request_from_callback_def notify_all_def mailbox_finish)
  from assms show "mailbox_ok (thread_joined r s)" by (simp add: thread_joined_def mailbox_finish)
qed

lemma mailbox_store: "mailbox_ok s \<Longrightarrow> mailbox_ok (s\<lparr>si_last_callback_data := Some data, si_stored := si_stored s @ [data]\<rparr>)"
  by (auto simp: mailbox_ok_def kept_message_def split: option.splits
    intro: list_emb_append_mono subseq_order.order_trans [OF prefix_imp_subseq [OF prefixI]])

lemma mailbox_callback: "mailbox_ok s \<Longrightarrow> mailbox_ok (session_callback i data s)"
  by (simp add: session_callback_def notify_all_def mailbox_store split: SessionCallback.splits)

lemma mailbox_wait: "mailbox_ok s \<Longrightarrow> mailbox_ok (thread_wait t callback s)"
  by (auto simp: thread_wait_def mailbox_ok_def kept_message_def split: option.splits)

lemma mailbox_step: "subscriber_step e s t \<Longrightarrow> mailbox_ok s \<Longrightarrow> mailbox_ok t"
  by (cases rule: subscriber_step.cases, assumption)
    (auto simp: mailbox_callback mailbox_wait mailbox_requests addSession_def setCallbackToSession_def
      subscriber_session_closed_handler_def thread_block_def thread_executed_def notify_thread_def notify_all_def
      split: if_splits)

lemma mailbox_new: "mailbox_ok Subscriber_Impl_new"
  by (simp add: Subscriber_Impl_new_def mailbox_ok_def kept_message_def)

definition subscriber_init :: "'u Subscriber_Impl \<Rightarrow> bool" where
  "subscriber_init s \<longleftrightarrow> s = Subscriber_Impl_new"

interpretation mailbox: step_invariant subscriber_init subscriber_any mailbox_ok
  by unfold_locales (auto simp: subscriber_init_def mailbox_new intro: mailbox_step)

text \<open>Asynchronous callbacks get messages in the order in which they were stored, each at most once, and unless a synchronous
  callback was set in between, the newest message is the one taken last or the one kept.\<close>

theorem mailbox_keeps_newest:
  assumes "subscriber_any\<^sup>*\<^sup>* Subscriber_Impl_new s"
  shows "subseq (map snd (si_taken s) @ kept_message s) (si_stored s) \<and>
    (si_cleared s \<or> si_stored s = [] \<or> last (map snd (si_taken s) @ kept_message s) = last (si_stored s))"
  using mailbox.reachable_inv [OF _ assms] by (auto simp: subscriber_init_def mailbox_ok_def)


subsection \<open>A stop that is not heard\<close>

definition quiet_step :: "'u Subscriber_Impl \<Rightarrow> 'u Subscriber_Impl \<Rightarrow> bool" where
  "quiet_step s t \<longleftrightarrow> (\<exists>e. subscriber_step e s t \<and> (\<forall>session buffer. e \<noteq> Receives session buffer))"

definition hanging :: "'u \<Rightarrow> 'u Subscriber_Impl \<Rightarrow> bool" where
  "hanging callback s \<longleftrightarrow> si_caller s = Joining CancelAll \<and> si_callback_thread s = Some 0 \<and> si_threads s = [Blocked callback]"

lemma hanging_step:
  assumes "quiet_step s t" and h: "hanging callback s"
  shows "hanging callback t"
proof -
  from assms(1) obtain e where step: "subscriber_step e s t" and "\<forall>session buffer. e \<noteq> Receives session buffer"
    by (auto simp: quiet_step_def)
  from step this(2) h show ?thesis
    by cases (auto simp: hanging_def thread_at_def addSession_def setCallbackToSession_def subscriber_session_closed_handler_def
      split: if_splits)
qed

interpretation hang: step_invariant "hanging callback" quiet_step "hanging callback" for callback
  by unfold_locales (auto intro: hanging_step)

definition demo_async :: "'u \<Rightarrow> 'u Subscriber_Impl" where
  "demo_async callback = Subscriber_Impl_new\<lparr>si_user_callback_is_synchronous := False, si_callback_thread_stop := False,
     si_callback_thread := Some 0, si_threads := [Entering callback]\<rparr>"

lemma demo_async_reached: "subscriber_any\<^sup>*\<^sup>* Subscriber_Impl_new (demo_async callback)"
proof -
  have "begin_request (SetTo callback False) Subscriber_Impl_new = demo_async callback"
    by (simp add: begin_request_def install_callback_def demo_async_def Subscriber_Impl_new_def Let_def)
  then have "subscriber_step Caller Subscriber_Impl_new (demo_async callback)"
    using begins [of Subscriber_Impl_new "SetTo callback False"] by (simp add: Subscriber_Impl_new_def mutex_free_def)
  then show ?thesis by blast
qed

lemmas subscriber_simps = demo_async_def Subscriber_Impl_new_def thread_wait_def thread_block_def thread_executed_def
  notify_thread_def notify_all_def begin_request_def request_from_callback_def install_callback_def addSession_def
  setCallbackToSession_def session_callback_def mutex_free_def thread_at_def Let_def

lemma impl_step: "subscriber_any\<^sup>*\<^sup>* x y \<Longrightarrow> subscriber_any y z \<Longrightarrow> subscriber_any\<^sup>*\<^sup>* x z"
  by (rule rtranclp.rtrancl_into_rtrancl)

lemma hang_reached: "\<exists>s. subscriber_any\<^sup>*\<^sup>* (demo_async callback) s \<and> hanging callback s"
proof -
  let ?s1 = "thread_wait 0 callback (demo_async callback)"
  let ?s2 = "begin_request CancelAll ?s1"
  let ?s3 = "notify_thread CancelAll ?s2"
  let ?s4 = "thread_block 0 callback ?s3"
  have 1: "subscriber_any (demo_async callback) ?s1" using waits [of 0 callback "demo_async callback"] by (auto simp: subscriber_simps)
  have 2: "subscriber_any ?s1 ?s2" using begins [of ?s1 CancelAll] by (auto simp: subscriber_simps)
  have 3: "subscriber_any ?s2 ?s3" using notifies [of ?s2 CancelAll] by (auto simp: subscriber_simps)
  have 4: "subscriber_any ?s3 ?s4" using blocks [of 0 callback ?s3] by (auto simp: subscriber_simps)
  have "subscriber_any\<^sup>*\<^sup>* (demo_async callback) ?s4"
    by (rule impl_step [OF impl_step [OF impl_step [OF impl_step [OF _ 1] 2] 3] 4]) simp
  moreover have "hanging callback ?s4" by (simp add: hanging_def subscriber_simps)
  ultimately show ?thesis by blast
qed

text \<open>C29: Cancelling a subscriber can hang. The stop flag is set and the condition variable notified without the mutex, so both can
  fall between the check of the predicate and the wait; the thread then sleeps, and unless a message arrives no
  step of any thread ever ends the join that \<open>cancel\<close> waits in.\<close>

theorem cancel_can_hang:
  "\<exists>s. subscriber_any\<^sup>*\<^sup>* Subscriber_Impl_new s \<and> (\<forall>t. quiet_step\<^sup>*\<^sup>* s t \<longrightarrow> si_caller t = Joining CancelAll \<and> si_threads t = [Blocked callback])"
proof -
  from hang_reached [of callback] obtain s where s: "subscriber_any\<^sup>*\<^sup>* (demo_async callback) s \<and> hanging callback s" ..
  have stays: "si_caller t = Joining CancelAll \<and> si_threads t = [Blocked callback]" if "quiet_step\<^sup>*\<^sup>* s t" for t
    using hang.run_inv [OF that, of callback] s by (simp add: hanging_def)
  from s have "subscriber_any\<^sup>*\<^sup>* (demo_async callback) s" ..
  from rtranclp_trans [OF demo_async_reached this] show ?thesis
    by (intro exI [of _ s]) (simp add: stays)
qed

theorem cancel_can_hang_witness: "\<exists>s. subscriber_any\<^sup>*\<^sup>* Subscriber_Impl_new s \<and> si_threads s = [Blocked (7 :: nat)]"
  using cancel_can_hang [of "7 :: nat"] by auto

text \<open>C30: A callback that replaces itself goes on being called. Its thread is detached with the stop flag set, but setting the new
  callback clears the flag before the old thread has looked at it, so both threads take messages from then on.\<close>

theorem replaced_callback_is_still_called:
  "\<exists>s. subscriber_any\<^sup>*\<^sup>* Subscriber_Impl_new s \<and> si_callback_thread s = Some 1 \<and> si_threads s = [Executing old second, Entering new] \<and>
     si_taken s = [(old, first), (old, second)]"
proof -
  let ?st = "\<lambda>kept threads thread stored taken. \<lparr>si_session_list = [0], si_session_callback = (\<lambda>_. CallUser None)(0 := StoreData),
    si_session_canceled = (\<lambda>_. False), si_last_callback_data = kept, si_user_callback_is_synchronous = False,
    si_synchronous_user_callback = None, si_callback_thread = Some thread, si_threads = threads,
    si_callback_thread_stop = False, si_caller = Idle, si_stored = stored, si_taken = taken, si_synchronous_calls = [],
    si_cleared = False\<rparr>"
  let ?s1 = "?st None [Entering old] 0 [] []"
  let ?s2 = "?st (Some first) [Entering old] 0 [first] []"
  let ?s3 = "?st None [Executing old first] 0 [first] [(old, first)]"
  let ?s4 = "?st None [Executing old first, Entering new] 1 [first] [(old, first)]"
  let ?s5 = "?st None [Entering old, Entering new] 1 [first] [(old, first)]"
  let ?s6 = "?st (Some second) [Entering old, Entering new] 1 [first, second] [(old, first)]"
  let ?s7 = "?st None [Executing old second, Entering new] 1 [first, second] [(old, first), (old, second)]"
  have e: "addSession [(''host'', 4711)] 0 (demo_async old) = Some ?s1" "session_callback 0 first ?s1 = ?s2" "thread_wait 0 old ?s2 = ?s3"
    "request_from_callback (SetTo new False) ?s3 = ?s4" "thread_executed 0 old ?s4 = ?s5"
    "session_callback 0 second ?s5 = ?s6" "thread_wait 0 old ?s6 = ?s7"
    by (simp_all add: subscriber_simps)
  have 1: "subscriber_any (demo_async old) ?s1" using adds [OF e(1)] by blast
  have 2: "subscriber_any ?s1 ?s2" using receives [of ?s1 0 first] unfolding e by (simp add: mutex_free_def) blast
  have 3: "subscriber_any ?s2 ?s3" using waits [of 0 old ?s2] unfolding e by (simp add: mutex_free_def thread_at_def) blast
  have 4: "subscriber_any ?s3 ?s4" using from_callback [of ?s3 0 old first "SetTo new False"] unfolding e
    by (simp add: mutex_free_def thread_at_def) blast
  have 5: "subscriber_any ?s4 ?s5" using executed [of 0 old first ?s4] unfolding e by (simp add: thread_at_def) blast
  have 6: "subscriber_any ?s5 ?s6" using receives [of ?s5 0 second] unfolding e by (simp add: mutex_free_def) blast
  have 7: "subscriber_any ?s6 ?s7" using waits [of 0 old ?s6] unfolding e by (simp add: mutex_free_def thread_at_def) blast
  note path = impl_step [OF impl_step [OF impl_step [OF demo_async_reached 1] 2] 3]
  note path = impl_step [OF impl_step [OF impl_step [OF impl_step [OF path 4] 5] 6] 7]
  then show ?thesis by (intro exI [of _ ?s7]) simp
qed

theorem mailbox_keeps_newest_witness:
  "subseq (map snd (si_taken (demo_async (7 :: nat))) @ kept_message (demo_async (7 :: nat))) (si_stored (demo_async (7 :: nat)))"
  using mailbox_keeps_newest [OF demo_async_reached [of "7 :: nat"]] by (rule conjunct1)

end
