(* ===== verification/Spec2Isabelle.thy ===== *)
theory Spec2Isabelle
  imports
    Record_Replay
    Recording_Transport
    Executor_Properties
    Health
    Rpc_Properties
    Node_Service
    Stability
    Observability_Properties
    Tcp_Subscriber_Properties
    Tcp_Publisher
    Tcp_Subscriber
begin

text \<open>
  A verification library for autoruntime, a C++20 runtime for robot and vehicle software.

  \<^bold>\<open>The program.\<close> Nodes publish messages and call services over a transport
  (\<open>transport/\<close>); an executor (\<open>scheduler/\<close>) runs periodic, event and
  asynchronous tasks in callback groups with deadlines; a recorder and a replayer
  (\<open>record_replay/\<close>) capture the messages of a transport in a checksummed trace file and
  play it back; a health monitor (\<open>health/\<close>) watches processes and restarts them;
  a discovery service (\<open>distributed/\<close>) announces nodes to each other, and a TCP RPC
  connects them; \<open>observability/\<close> collects metrics, logs and traces, and \<open>stability/\<close>
  keeps the score of a long run over two machines. \<open>tcp_pubsub/\<close> is the publish-subscribe library
  over TCP that the project started from.

  \<^bold>\<open>Conventions.\<close> Fixed-width integers are words, \<open>std::size_t\<close> is a natural number,
  time points and durations are integers in nanoseconds, \<open>Result<T>\<close> is a sum with the error
  on the left. Clock readings, results of system calls, exceptions thrown by callbacks and by the
  allocator are arguments. A class is a record, a method a function on it; code that runs under a
  lock is one step, and an inductive relation interleaves the steps of all threads.

  \<^bold>\<open>Theories.\<close>
  \<^item> \<open>Prelude\<close>: types, list and word lemmas, the locale \<open>step_invariant\<close>.
  \<^item> \<open>Runtime_Core\<close>: \<open>status.hpp\<close>, \<open>deadline.hpp\<close>, \<open>message.hpp\<close>.
  \<^item> \<open>Byte_Codec\<close>: little- and big-endian fields; the locales \<open>field_codec\<close> and
    \<open>slot_codec\<close> with their interpretations.
  \<^item> \<open>Crc32\<close>: the checksum and its burst detection.
  \<^item> \<open>Trace_Format\<close>: file header, record layout, limits of \<open>record_replay.cpp\<close>.
  \<^item> \<open>Replayer\<close>: \<open>Open\<close>, \<open>Next\<close>, \<open>Reset\<close>; soundness and completeness of reading,
    detection of corruption, finality of errors.
  \<^item> \<open>Replay_Loop\<close>: \<open>Replay\<close> with its pacing; never early, bounded sleeps, termination.
    The loops have fuel; a turn per record and a clock that reaches the largest time point
    are shown to be enough.
  \<^item> \<open>Recorder\<close>, \<open>Record_Replay\<close>: clients, writer thread and \<open>Stop\<close>; what was
    accepted is what a replay returns.
  \<^item> \<open>In_Memory_Transport\<close>, \<open>Recording_Transport\<close>: the transport interface as the
    locale \<open>closing_transport\<close>, the in-memory transport, and the recording wrapper.
  \<^item> \<open>Task_Timing\<close>, \<open>Executor\<close>, \<open>Executor_System\<close>,
    \<open>Executor_Properties\<close>: \<open>executor.cpp\<close>; the
    dispatch order, the release grid, and the accounting of every job under all interleavings.
  \<^item> \<open>Health\<close>: \<open>health_monitor.cpp\<close>; the audit trail under overlapping recoveries, the decision
    of an evaluation, fencing of old generations, clean-up after failed recoveries.
  \<^item> \<open>Discovery\<close>: \<open>discovery.cpp\<close>; exactness of the wire format, consistency of the tables,
    and that an expired incarnation stays out.
  \<^item> \<open>Rpc\<close>, \<open>Rpc_Properties\<close>: \<open>rpc.cpp\<close>; transfers that do not depend on the segmentation of the
    stream, the frames, a remote call as the local dispatch, and the end of both sides by their
    deadlines. The waiting loops run over a script of turns; a turn past the deadline is enough.
  \<^item> \<open>Node\<close>, \<open>Node_Subscription\<close>, \<open>Node_Service\<close>: \<open>node.cpp\<close>; publishers, loans, clients,
    timers and the creation of everything on the executor; the queue of a subscriber and the calls of a
    service under all interleavings, with the two ways in which a refused notification stalls them.
  \<^item> \<open>Floating\<close>: doubles as exact rationals with one value for what is not finite.
  \<^item> \<open>Stability\<close>: \<open>cross_machine_stability.cpp\<close>; what the summary of a run says of its calls.
  \<^item> \<open>Observability\<close>, \<open>Observability_Properties\<close>: \<open>observability.cpp\<close>; log lines that read
    back, snapshots that follow the history of the calls, and well-formed distributions.
  \<^item> \<open>Tcp_Frame\<close>: header, handshake and message buffer of \<open>tcp_pubsub\<close>, and the messages a stream of
    bytes holds.
  \<^item> \<open>Tcp_Subscriber_Session\<close>, \<open>Tcp_Subscriber_Properties\<close>: \<open>subscriber_session_impl.cpp\<close>; deliveries
    that follow the stream, the end of a canceled session, reconnection.
  \<^item> \<open>Tcp_Publisher_Session\<close>, \<open>Tcp_Publisher\<close>: \<open>publisher_session.cpp\<close> and \<open>publisher_impl.cpp\<close>; the queue
    of one element after the handshake and what the handshake does to it, and the list of sessions.
  \<^item> \<open>Tcp_Subscriber\<close>: \<open>subscriber_impl.cpp\<close>; the message kept for an asynchronous callback, and the
    callback thread. Operations of asio are started by the functions of the model and complete with any outcome.

  \<^bold>\<open>Not modelled.\<close> The FastIPC and DDS transports are adapters over
  libraries that are not part of the repository; the executor of \<open>tcp_pubsub\<close> only runs asio; the programs under \<open>benchmarks/\<close>,
  \<open>examples/\<close> and \<open>samples/\<close> only call the libraries.
\<close>

end
